(* ===== verification/Prelude.thy ===== *)
theory Prelude
  imports Complex_Main "HOL-Library.Monad_Syntax"
begin

text \<open>
  What the component theories share: the decimal notation of numbers as the template strings of the
  source write it, \<open>join\<close> and \<open>slice\<close> on lists, association lists with the update order of a JavaScript
  \<open>Map\<close> or object, and generic facts about options and lists.
\<close>

section \<open>Numbers as text\<close>

definition digitChar :: "nat \<Rightarrow> char" where
  "digitChar d = char_of (48 + d)"

fun showNat :: "nat \<Rightarrow> string" where
  "showNat n = (if n < 10 then [digitChar n] else showNat (n div 10) @ [digitChar (n mod 10)])"

declare showNat.simps [simp del]

definition showInt :: "int \<Rightarrow> string" where
  "showInt n = (if n < 0 then ''-'' @ showNat (nat (- n)) else showNat (nat n))"

definition digitValue :: "char \<Rightarrow> nat" where
  "digitValue c = of_char c - 48"

lemma digitValue_digitChar: "d < 10 \<Longrightarrow> digitValue (digitChar d) = d"
  by (simp add: digitValue_def digitChar_def of_char_of)

definition readNat :: "string \<Rightarrow> nat" where
  "readNat s = foldl (\<lambda>n c. 10 * n + digitValue c) 0 s"

lemma readNat_snoc: "readNat (s @ [c]) = 10 * readNat s + digitValue c"
  by (simp add: readNat_def)

lemma readNat_showNat [simp]: "readNat (showNat n) = n"
proof (induction n rule: showNat.induct)
  case (1 n)
  show ?case
  proof (cases "n < 10")
    case True
    then show ?thesis by (simp add: showNat.simps[of n] readNat_def digitValue_digitChar)
  next
    case False
    then show ?thesis using 1
      by (simp add: showNat.simps[of n] readNat_snoc digitValue_digitChar)
  qed
qed

lemma showNat_inj: "showNat a = showNat b \<longleftrightarrow> a = b"
  by (metis readNat_showNat)

lemma showNat_digits: "c \<in> set (showNat n) \<Longrightarrow> c \<in> set ''0123456789''"
proof (induction n rule: showNat.induct)
  case (1 n)
  have d: "digitChar k \<in> set ''0123456789''" if "k < 10" for k
  proof -
    have "k \<in> {0, 1, 2, 3, 4, 5, 6, 7, 8, 9}" using that by auto
    then show ?thesis by (elim insertE emptyE) (simp_all add: digitChar_def char_of_def bit_simps)
  qed
  show ?case
  proof (cases "n < 10")
    case True
    then have "c = digitChar n" using "1.prems" by (simp add: showNat.simps[of n])
    then show ?thesis using d[OF True] by simp
  next
    case False
    then have "c \<in> set (showNat (n div 10)) \<or> c = digitChar (n mod 10)"
      using "1.prems" by (auto simp: showNat.simps[of n])
    then show ?thesis using 1(1)[OF False] d[of "n mod 10"] by auto
  qed
qed

lemma showNat_nonempty [simp]: "showNat n \<noteq> []"
  by (subst showNat.simps) simp

section \<open>Lists\<close>

text \<open>\<open>xs.join(sep)\<close>.\<close>

fun joinWith :: "string \<Rightarrow> string list \<Rightarrow> string" where
  "joinWith sep [] = []"
| "joinWith sep [x] = x"
| "joinWith sep (x # xs) = x @ sep @ joinWith sep xs"

section \<open>Keyed collections in insertion order\<close>

text \<open>
  \<open>m.set(k, v)\<close> and \<open>{ ...m, [k]: v }\<close>: a key that is there keeps its place, a new one goes last.
\<close>

fun putKey :: "'k \<Rightarrow> 'v \<Rightarrow> ('k \<times> 'v) list \<Rightarrow> ('k \<times> 'v) list" where
  "putKey k v [] = [(k, v)]"
| "putKey k v ((a, b) # ps) = (if a = k then (k, v) # ps else (a, b) # putKey k v ps)"

definition dropKey :: "'k \<Rightarrow> ('k \<times> 'v) list \<Rightarrow> ('k \<times> 'v) list" where
  "dropKey k ps = filter (\<lambda>p. fst p \<noteq> k) ps"

lemma map_of_putKey: "map_of (putKey k v ps) = (map_of ps)(k \<mapsto> v)"
  by (induction ps) (auto simp: fun_eq_iff)

lemma map_of_dropKey: "map_of (dropKey k ps) = (map_of ps)(k := None)"
  by (induction ps) (auto simp: dropKey_def fun_eq_iff)

lemma keys_putKey: "fst ` set (putKey k v ps) = insert k (fst ` set ps)"
proof (induction ps)
  case (Cons p ps)
  then show ?case by (cases p; cases "fst p = k") auto
qed simp

lemma keys_dropKey: "fst ` set (dropKey k ps) = fst ` set ps - {k}"
  by (auto simp: dropKey_def)

lemma distinct_putKey: "distinct (map fst ps) \<Longrightarrow> distinct (map fst (putKey k v ps))"
proof (induction ps)
  case (Cons p ps)
  have "fst ` set (putKey k v ps) = insert k (fst ` set ps)" by (rule keys_putKey)
  with Cons show ?case by (cases p) auto
qed simp

lemma distinct_dropKey: "distinct (map fst ps) \<Longrightarrow> distinct (map fst (dropKey k ps))"
  by (simp add: dropKey_def distinct_map_filter)

lemma set_putKey: "distinct (map fst ps) \<Longrightarrow> set (putKey k v ps) = insert (k, v) {p \<in> set ps. fst p \<noteq> k}"
proof (induction ps)
  case (Cons p ps)
  then show ?case by (cases p) (auto simp: image_iff)
qed simp

section \<open>Options\<close>

lemma bind_SomeE:
  assumes "m \<bind> f = Some y"
  obtains x where "m = Some x" "f x = Some y"
  using assms by (auto simp: bind_eq_Some_conv)

end
