(* ===== verification/JsNumber.thy ===== *)
theory JsNumber
  imports Prelude "HOL-Library.Log_Nat" "HOL-Library.Word"
begin

text \<open>
  The numbers of the program. A TypeScript \<open>number\<close> is an IEEE-754 double; the finite doubles are
  modelled as the rationals they denote, and every arithmetic operation of the source that can be
  inexact (\<open>+\<close>, \<open>-\<close>, \<open>*\<close>, \<open>/\<close>) is the exact operation followed by \<open>rnd\<close>, rounding to the nearest
  value with a 53-bit significand, ties to even. What is left out of a double: the two signed zeros
  are one value, exponents are unbounded (no overflow to infinity and no subnormals; the game's
  numbers stay far inside that range), and the only infinity the program keeps in a field, the
  \<open>Number.POSITIVE_INFINITY\<close> of an endless level or of a level without fan-out gates, is the
  constructor \<open>Infinity\<close> of the type \<open>limit\<close>. Whole-number fields (ticks, identifiers, counters) are
  \<open>int\<close>. JavaScript's 32-bit operators work on \<open>32 word\<close>: \<open>ToInt32\<close> is \<open>toInt32\<close>, \<open>Math.imul\<close> and
  the wrap-around of \<open>>>> 0\<close> are the word operations.

  The lemmas show that rounding is monotone, odd, idempotent and exact on every integer of at most
  53 bits times a power of two, which is all the component proofs use.
\<close>

section \<open>Rounding to a double\<close>

definition roundHalfEven :: "rat \<Rightarrow> int" where
  "roundHalfEven x =
     (let f = \<lfloor>x\<rfloor>; r = x - of_int f
      in if r < 1 / 2 \<or> (r = 1 / 2 \<and> even f) then f else f + 1)"

definition ilog2 :: "rat \<Rightarrow> int" where
  "ilog2 x =
     (let (n, d) = quotient_of x; e = bitlen n - bitlen d
      in if 2 powi e \<le> x then e else e - 1)"

definition rnd :: "rat \<Rightarrow> rat" where
  "rnd x = (if x = 0 then 0 else
     let u = 2 powi (ilog2 \<bar>x\<bar> - 52) in of_int (roundHalfEven (x / u)) * u)"

lemma roundHalfEven_bounds: "\<lfloor>x\<rfloor> \<le> roundHalfEven x" "roundHalfEven x \<le> \<lfloor>x\<rfloor> + 1"
  by (auto simp: roundHalfEven_def Let_def)

lemma roundHalfEven_of_int [simp]: "roundHalfEven (of_int k) = k"
  by (simp add: roundHalfEven_def)

lemma roundHalfEven_mono:
  assumes "x \<le> y"
  shows "roundHalfEven x \<le> roundHalfEven y"
proof (cases "\<lfloor>x\<rfloor> = \<lfloor>y\<rfloor>")
  case True
  with assms show ?thesis by (auto simp: roundHalfEven_def Let_def)
next
  case False
  with floor_mono[OF assms] have "\<lfloor>x\<rfloor> + 1 \<le> \<lfloor>y\<rfloor>" by simp
  with roundHalfEven_bounds[of x] roundHalfEven_bounds[of y] show ?thesis by linarith
qed

lemma roundHalfEven_minus: "roundHalfEven (- x) = - roundHalfEven x"
proof (cases "x \<in> \<int>")
  case True
  then obtain k where "x = of_int k" by (auto elim: Ints_cases)
  then show ?thesis using roundHalfEven_of_int[of "-k"] by simp
next
  case False
  then have c: "\<lceil>x\<rceil> = \<lfloor>x\<rfloor> + 1" by (metis Ints_of_int ceiling_altdef)
  define r where "r = x - of_int \<lfloor>x\<rfloor>"
  have f: "\<lfloor>- x\<rfloor> = - \<lfloor>x\<rfloor> - 1" using c by (simp add: floor_minus)
  have r': "- x - of_int \<lfloor>- x\<rfloor> = 1 - r" by (simp add: f r_def)
  show ?thesis
    unfolding roundHalfEven_def Let_def r' unfolding f r_def[symmetric] by auto
qed

lemma ilog2_bounds:
  assumes "0 < x"
  shows "2 powi (ilog2 x) \<le> x" "x < 2 powi (ilog2 x + 1)"
proof -
  obtain n d where q: "quotient_of x = (n, d)" by force
  then have d: "0 < d" and x: "x = of_int n / of_int d"
    using quotient_of_denom_pos quotient_of_div by auto
  then have n: "0 < n" using assms by (simp add: zero_less_divide_iff)
  have bn: "2 ^ nat (bitlen n - 1) \<le> n" "n < 2 ^ nat (bitlen n)"
    using bitlen_bounds[OF n] by auto
  have bd: "2 ^ nat (bitlen d - 1) \<le> d" "d < 2 ^ nat (bitlen d)"
    using bitlen_bounds[OF d] by auto
  have pos: "1 \<le> bitlen n" "1 \<le> bitlen d"
    using n d bitlen_eq_zero_iff[of n] bitlen_eq_zero_iff[of d] bitlen_nonneg[of n] bitlen_nonneg[of d]
    by linarith+
  let ?e = "bitlen n - bitlen d"
  have N: "(2::rat) powi (bitlen n - 1) \<le> of_int n" "of_int n < (2::rat) powi (bitlen n)"
    using of_int_le_iff[where 'a=rat, THEN iffD2, OF bn(1)] of_int_less_iff[where 'a=rat, THEN iffD2, OF bn(2)] pos
    by (simp_all add: power_int_def)
  have D: "(2::rat) powi (bitlen d - 1) \<le> of_int d" "of_int d < (2::rat) powi (bitlen d)"
    using of_int_le_iff[where 'a=rat, THEN iffD2, OF bd(1)] of_int_less_iff[where 'a=rat, THEN iffD2, OF bd(2)] pos
    by (simp_all add: power_int_def)
  have up: "x < 2 powi (?e + 1)"
  proof -
    have "x < 2 powi (bitlen n) / of_int d" using x N d by (simp add: divide_strict_right_mono)
    also have "\<dots> \<le> 2 powi (bitlen n) / 2 powi (bitlen d - 1)"
      using D d by (intro divide_left_mono) auto
    also have "\<dots> = 2 powi (?e + 1)" by (simp add: power_int_diff[symmetric] algebra_simps)
    finally show ?thesis .
  qed
  have lo: "2 powi (?e - 1) \<le> x"
  proof -
    have "(2::rat) powi (?e - 1) = 2 powi (bitlen n - 1) / 2 powi (bitlen d)"
      by (simp add: power_int_diff[symmetric] algebra_simps)
    also have "\<dots> \<le> of_int n / 2 powi (bitlen d)" using N by (intro divide_right_mono) auto
    also have "\<dots> \<le> x" unfolding x using D d n by (intro divide_left_mono) auto
    finally show ?thesis .
  qed
  show "2 powi (ilog2 x) \<le> x" "x < 2 powi (ilog2 x + 1)"
    using up lo by (auto simp: ilog2_def q Let_def)
qed

lemma powi2_mono: "a \<le> b \<Longrightarrow> (2::rat) powi a \<le> 2 powi b"
  by (intro power_int_increasing) auto

lemma ilog2_mono:
  assumes "0 < x" "x \<le> y"
  shows "ilog2 x \<le> ilog2 y"
proof (rule ccontr)
  assume "\<not> ?thesis"
  then have "(2::rat) powi (ilog2 y + 1) \<le> 2 powi (ilog2 x)" by (intro powi2_mono) simp
  with ilog2_bounds[of x] ilog2_bounds[of y] assms show False by linarith
qed

definition ulp :: "rat \<Rightarrow> rat" where
  "ulp x = 2 powi (ilog2 \<bar>x\<bar> - 52)"

lemma ulp_pos [simp]: "0 < ulp x"
  by (simp add: ulp_def)

lemma ulp_nonneg [simp]: "0 \<le> ulp x"
  by (simp add: less_imp_le)

lemma ulp_nonzero [simp]: "ulp x \<noteq> 0"
  using ulp_pos[of x] by linarith

lemma ulp_not_neg [simp]: "\<not> ulp x < 0"
  by (simp add: not_less)

lemma rnd_ulp: "x \<noteq> 0 \<Longrightarrow> rnd x = of_int (roundHalfEven (x / ulp x)) * ulp x"
  by (simp add: rnd_def ulp_def Let_def)

lemma rnd_0 [simp]: "rnd 0 = 0"
  by (simp add: rnd_def)

lemma rnd_minus [simp]: "rnd (- x) = - rnd x"
  by (cases "x = 0") (simp_all add: rnd_ulp ulp_def roundHalfEven_minus)

lemma rnd_pos_bounds:
  assumes "0 < x"
  shows "2 powi (ilog2 x) \<le> rnd x" "rnd x \<le> 2 powi (ilog2 x + 1)"
proof -
  have e: "2 powi (ilog2 x) = (2::rat) ^ 52 * ulp x" "2 powi (ilog2 x + 1) = (2::rat) ^ 53 * ulp x"
    using assms by (simp_all add: ulp_def power_int_diff power_int_add)
  have "2 ^ 52 \<le> x / ulp x" "x / ulp x \<le> 2 ^ 53"
    using ilog2_bounds[OF assms] by (simp_all add: e pos_le_divide_eq pos_divide_le_eq)
  then have "roundHalfEven (of_int (2 ^ 52)) \<le> roundHalfEven (x / ulp x)"
    "roundHalfEven (x / ulp x) \<le> roundHalfEven (of_int (2 ^ 53))"
    by (intro roundHalfEven_mono; simp)+
  then have "(2::int) ^ 52 \<le> roundHalfEven (x / ulp x)" "roundHalfEven (x / ulp x) \<le> 2 ^ 53"
    unfolding roundHalfEven_of_int .
  then have "of_int (2 ^ 52) \<le> (of_int (roundHalfEven (x / ulp x)) :: rat)"
     "of_int (roundHalfEven (x / ulp x)) \<le> (of_int (2 ^ 53) :: rat)"
    unfolding of_int_le_iff .
  then show "2 powi (ilog2 x) \<le> rnd x" "rnd x \<le> 2 powi (ilog2 x + 1)"
    using assms by (simp_all add: e rnd_ulp)
qed

lemma rnd_mono_pos:
  assumes "0 < x" "x \<le> y"
  shows "rnd x \<le> rnd y"
proof (cases "ilog2 x = ilog2 y")
  case True
  then have u: "ulp x = ulp y" using assms by (simp add: ulp_def)
  have "x / ulp x \<le> y / ulp x" using assms ulp_pos[of x] by (intro divide_right_mono) auto
  then show ?thesis using assms roundHalfEven_mono by (simp add: rnd_ulp u)
next
  case False
  with ilog2_mono[OF assms] have "ilog2 x + 1 \<le> ilog2 y" by simp
  then have "(2::rat) powi (ilog2 x + 1) \<le> 2 powi (ilog2 y)" by (rule powi2_mono)
  with rnd_pos_bounds[of x] rnd_pos_bounds[of y] assms show ?thesis by linarith
qed

lemma rnd_pos: "0 < x \<Longrightarrow> 0 < rnd x"
  using rnd_pos_bounds(1)[of x] zero_less_power_int[of "2::rat" "ilog2 x"] by linarith

lemma rnd_mono:
  assumes "x \<le> y"
  shows "rnd x \<le> rnd y"
proof -
  consider "0 < x" | "x \<le> 0" "0 \<le> y" | "y < 0" by linarith
  then show ?thesis
  proof cases
    case 1
    then show ?thesis using assms by (rule rnd_mono_pos)
  next
    case 2
    have "rnd x \<le> 0" using rnd_pos[of "-x"] 2 by (cases "x = 0") auto
    moreover have "0 \<le> rnd y" using rnd_pos[of y] 2 by (cases "y = 0") auto
    ultimately show ?thesis by simp
  next
    case 3
    then show ?thesis using rnd_mono_pos[of "-y" "-x"] assms by simp
  qed
qed

lemma rnd_exact_pos:
  assumes "0 < m" "m \<le> 2 ^ 53"
  shows "rnd (of_int m * 2 powi k) = of_int m * 2 powi k"
proof -
  let ?x = "of_int m * 2 powi k :: rat"
  have x: "0 < ?x" using assms by simp
  show ?thesis
  proof (cases "m = 2 ^ 53")
    case True
    have "ilog2 ?x = 53 + k"
    proof (rule antisym)
      have xe: "?x = 2 powi (53 + k)" using True by (simp add: power_int_add)
      show "ilog2 ?x \<le> 53 + k"
      proof (rule ccontr)
        assume "\<not> ?thesis"
        then have "(2::rat) powi (53 + k) < 2 powi (ilog2 ?x)"
          by (intro power_int_strict_increasing) auto
        with ilog2_bounds(1)[OF x] xe show False by linarith
      qed
      show "53 + k \<le> ilog2 ?x"
      proof (rule ccontr)
        assume "\<not> ?thesis"
        then have "(2::rat) powi (ilog2 ?x + 1) \<le> 2 powi (53 + k)" by (intro powi2_mono) simp
        with ilog2_bounds(2)[OF x] xe show False by linarith
      qed
    qed
    then have u: "ulp ?x = 2 powi (k + 1)" using x by (simp add: ulp_def add.commute)
    have q: "?x / ulp ?x = of_int (2 ^ 52)"
      unfolding u unfolding True by (simp add: power_int_add)
    have "rnd ?x = of_int (roundHalfEven (?x / ulp ?x)) * ulp ?x" by (rule rnd_ulp[OF less_imp_neq[OF x, symmetric]])
    also have "\<dots> = of_int (2 ^ 52) * ulp ?x" unfolding q by (simp only: roundHalfEven_of_int)
    also have "\<dots> = ?x" unfolding u unfolding True by (simp add: power_int_add)
    finally show ?thesis .
  next
    case False
    have "2 powi (ilog2 ?x) < (2::rat) powi (53 + k)"
    proof -
      have "of_int m < (of_int (2 ^ 53) :: rat)" using assms False by (subst of_int_less_iff) simp
      then have "?x < 2 ^ 53 * 2 powi k" by simp
      also have "\<dots> = 2 powi (53 + k)" by (simp add: power_int_add)
      finally show ?thesis using ilog2_bounds(1)[OF x] by linarith
    qed
    then have "ilog2 ?x < 53 + k"
      by (meson leI less_le_not_le powi2_mono)
    then have "0 \<le> k - (ilog2 ?x - 52)" by simp
    then obtain j where j: "k - (ilog2 ?x - 52) = int j" by (rule zero_le_imp_eq_int [THEN exE])
    have "?x / ulp ?x = of_int m * 2 powi (k - (ilog2 ?x - 52))"
      using x by (simp add: ulp_def power_int_diff)
    also have "\<dots> = of_int (m * 2 ^ j)" by (simp add: j)
    finally have q: "?x / ulp ?x = of_int (m * 2 ^ j)" .
    have "rnd ?x = of_int (roundHalfEven (?x / ulp ?x)) * ulp ?x" by (rule rnd_ulp[OF less_imp_neq[OF x, symmetric]])
    also have "\<dots> = (?x / ulp ?x) * ulp ?x" unfolding q by (simp only: roundHalfEven_of_int)
    also have "\<dots> = ?x" using ulp_pos[of ?x] by simp
    finally show ?thesis .
  qed
qed

lemma rnd_exact:
  assumes "\<bar>m\<bar> \<le> 2 ^ 53"
  shows "rnd (of_int m * 2 powi k) = of_int m * 2 powi k"
proof -
  consider "m = 0" | "0 < m" | "0 < - m" by linarith
  then show ?thesis
  proof cases
    case 3
    then show ?thesis using rnd_exact_pos[of "-m" k] assms by simp
  qed (use assms rnd_exact_pos in auto)
qed

lemma rnd_of_int: "\<bar>m\<bar> \<le> 2 ^ 53 \<Longrightarrow> rnd (of_int m) = of_int m"
  using rnd_exact[of m 0] by simp

lemma rnd_fixed_cases: "\<exists>m k. \<bar>m\<bar> \<le> 2 ^ 53 \<and> rnd x = of_int m * 2 powi k"
proof -
  have *: "\<exists>m k. \<bar>m\<bar> \<le> 2 ^ 53 \<and> rnd y = of_int m * 2 powi k" if "0 < y" for y
  proof -
    let ?m = "roundHalfEven (y / ulp y)"
    have r: "rnd y = of_int ?m * ulp y" using that by (simp add: rnd_ulp)
    have "0 < ?m" using rnd_pos[OF that] by (simp add: r zero_less_mult_iff)
    have "of_int ?m * ulp y \<le> (2::rat) ^ 53 * ulp y"
      using rnd_pos_bounds(2)[OF that] that by (simp add: r ulp_def power_int_diff power_int_add)
    then have "of_int ?m \<le> (of_int (2 ^ 53) :: rat)" by simp
    then have "?m \<le> 2 ^ 53" by (simp only: of_int_le_iff)
    with r \<open>0 < ?m\<close> show ?thesis unfolding ulp_def by (metis abs_of_pos)
  qed
  consider "x = 0" | "0 < x" | "0 < - x" by linarith
  then show ?thesis
  proof cases
    case 1
    then show ?thesis by (intro exI[of _ 0]) simp
  next
    case 2
    then show ?thesis by (rule *)
  next
    case 3
    from *[OF this] obtain m k where "\<bar>m\<bar> \<le> 2 ^ 53" "rnd (- x) = of_int m * 2 powi k" by blast
    then show ?thesis by (intro exI[of _ "-m"] exI[of _ k]) simp
  qed
qed

lemma rnd_idem [simp]: "rnd (rnd x) = rnd x"
  using rnd_fixed_cases[of x] rnd_exact by metis

lemma rnd_ge_int: "of_int k \<le> x \<Longrightarrow> \<bar>k\<bar> \<le> 2 ^ 53 \<Longrightarrow> of_int k \<le> rnd x"
  using rnd_mono[of "of_int k" x] by (simp add: rnd_of_int)

lemma rnd_le_int: "x \<le> of_int k \<Longrightarrow> \<bar>k\<bar> \<le> 2 ^ 53 \<Longrightarrow> rnd x \<le> of_int k"
  using rnd_mono[of x "of_int k"] by (simp add: rnd_of_int)

lemma rnd_nonneg: "0 \<le> x \<Longrightarrow> 0 \<le> rnd x"
  using rnd_mono[of 0 x] by simp

section \<open>Arithmetic of the source\<close>

definition fadd :: "rat \<Rightarrow> rat \<Rightarrow> rat" where
  "fadd a b = rnd (a + b)"

definition fsub :: "rat \<Rightarrow> rat \<Rightarrow> rat" where
  "fsub a b = rnd (a - b)"

definition fmul :: "rat \<Rightarrow> rat \<Rightarrow> rat" where
  "fmul a b = rnd (a * b)"

definition fdiv :: "rat \<Rightarrow> rat \<Rightarrow> rat" where
  "fdiv a b = rnd (a / b)"

lemmas float_defs = fadd_def fsub_def fmul_def fdiv_def

text \<open>\<open>Math.floor\<close>, \<open>Math.ceil\<close>, \<open>Math.round\<close> (ties upwards) and the integer part used by \<open>ToInt32\<close>.\<close>

definition mathFloor :: "rat \<Rightarrow> int" where
  "mathFloor x = \<lfloor>x\<rfloor>"

definition mathCeil :: "rat \<Rightarrow> int" where
  "mathCeil x = \<lceil>x\<rceil>"

definition mathRound :: "rat \<Rightarrow> int" where
  "mathRound x = \<lfloor>x + 1 / 2\<rfloor>"

definition truncInt :: "rat \<Rightarrow> int" where
  "truncInt x = (if 0 \<le> x then \<lfloor>x\<rfloor> else \<lceil>x\<rceil>)"

lemmas math_defs = mathFloor_def mathCeil_def mathRound_def truncInt_def

type_synonym u32 = "32 word"

definition toInt32 :: "rat \<Rightarrow> u32" where
  "toInt32 x = word_of_int (truncInt x)"

text \<open>A length or a gate position: a finite number, or \<open>Number.POSITIVE_INFINITY\<close>.\<close>

datatype limit = Px rat | Infinity

fun reached :: "rat \<Rightarrow> limit \<Rightarrow> bool" where
  "reached x (Px l) = (l \<le> x)"
| "reached x Infinity = False"

fun limitMinus :: "limit \<Rightarrow> rat \<Rightarrow> limit" where
  "limitMinus (Px l) d = Px (fsub l d)"
| "limitMinus Infinity d = Infinity"

section \<open>Bounds on rounded arithmetic\<close>

lemma mathRound_of_int: "mathRound (of_int k) = k"
  unfolding mathRound_def by (rule floor_unique) simp_all

lemma mathRound_mono: "x \<le> y \<Longrightarrow> mathRound x \<le> mathRound y"
  by (simp add: mathRound_def floor_mono)

lemma fadd_nonneg: "0 \<le> a \<Longrightarrow> 0 \<le> b \<Longrightarrow> 0 \<le> fadd a b"
  by (simp add: fadd_def rnd_nonneg)

lemma fmul_nonneg: "0 \<le> a \<Longrightarrow> 0 \<le> b \<Longrightarrow> 0 \<le> fmul a b"
  by (simp add: fmul_def rnd_nonneg)

lemma fdiv_nonneg: "0 \<le> a \<Longrightarrow> 0 \<le> b \<Longrightarrow> 0 \<le> fdiv a b"
  by (simp add: fdiv_def rnd_nonneg)

lemma fadd_mono: "a \<le> a' \<Longrightarrow> b \<le> b' \<Longrightarrow> fadd a b \<le> fadd a' b'"
  by (simp add: fadd_def add_mono rnd_mono)

lemma fadd_rnd_ge: "rnd a = a \<Longrightarrow> 0 \<le> b \<Longrightarrow> a \<le> fadd a b"
  using rnd_mono[of a "a + b"] by (simp add: fadd_def)

lemma fadd_0_right: "rnd a = a \<Longrightarrow> fadd a 0 = a"
  by (simp add: fadd_def)

text \<open>Adding a whole number \<open>k\<close> moves a value up by more than \<open>k - 1\<close> while it is below \<open>2^52\<close>.\<close>

lemma fadd_progress:
  assumes "of_int k \<le> b" "\<bar>a\<bar> \<le> 2 ^ 52" "\<bar>k\<bar> \<le> 2 ^ 51"
  shows "a + of_int k - 1 < fadd a b"
proof -
  define f where "f = \<lfloor>a\<rfloor>"
  have "f \<le> 2 ^ 52" "- (2 ^ 52) \<le> f"
    using assms(2) unfolding f_def by (simp_all add: floor_le_iff le_floor_iff abs_le_iff)
  then have "\<bar>f + k\<bar> \<le> 2 ^ 53" using assms(3) by simp
  moreover have "of_int (f + k) \<le> a + b" using assms(1) by (simp add: add_mono f_def)
  ultimately have "of_int (f + k) \<le> fadd a b" unfolding fadd_def by (intro rnd_ge_int)
  moreover have "a - 1 < of_int f" unfolding f_def by linarith
  ultimately show ?thesis by simp
qed

section \<open>Evaluation\<close>

text \<open>
  Code equations over numerator and denominator, so that closed terms evaluate with integer
  arithmetic and stay in lowest terms.
\<close>

definition ilog2Frac :: "int \<Rightarrow> int \<Rightarrow> int" where
  "ilog2Frac n d =
     (let e = bitlen n - bitlen d
      in if (if 0 \<le> e then d * 2 ^ nat e \<le> n else d \<le> n * 2 ^ nat (- e)) then e else e - 1)"

definition divHalfEven :: "int \<Rightarrow> int \<Rightarrow> int" where
  "divHalfEven n d =
     (let f = n div d; r = n mod d in if 2 * r < d \<or> (2 * r = d \<and> even f) then f else f + 1)"

definition reduced :: "int \<Rightarrow> int \<Rightarrow> rat" where
  "reduced n d = (let g = gcd n d in of_int (n div g) / of_int (d div g))"

definition rndFrac :: "int \<Rightarrow> int \<Rightarrow> rat" where
  "rndFrac n d =
     (if n = 0 then 0
      else let e = ilog2Frac \<bar>n\<bar> d - 52
           in if 0 \<le> e then of_int (divHalfEven n (d * 2 ^ nat e) * 2 ^ nat e)
              else reduced (divHalfEven (n * 2 ^ nat (- e)) d) (2 ^ nat (- e)))"

lemma powi_nat: "0 \<le> e \<Longrightarrow> (2::rat) powi e = of_int (2 ^ nat e)"
  by (simp add: power_int_def)

lemma powi_neg: "e < 0 \<Longrightarrow> (2::rat) powi e = 1 / of_int (2 ^ nat (- e))"
  by (simp add: power_int_def inverse_eq_divide power_one_over)

lemma ilog2_Frac:
  assumes "quotient_of x = (n, d)"
  shows "ilog2 x = ilog2Frac n d"
proof -
  let ?e = "bitlen n - bitlen d"
  have d: "0 < d" and x: "x = of_int n / of_int d"
    using assms quotient_of_denom_pos quotient_of_div by auto
  have "2 powi ?e \<le> x \<longleftrightarrow> (if 0 \<le> ?e then d * 2 ^ nat ?e \<le> n else d \<le> n * 2 ^ nat (- ?e))"
  proof (cases "0 \<le> ?e")
    case True
    have "2 powi ?e \<le> x \<longleftrightarrow> of_int (d * 2 ^ nat ?e) \<le> (of_int n :: rat)"
      using d by (simp add: powi_nat[OF True] x pos_le_divide_eq mult.commute)
    then show ?thesis using True by (simp only: of_int_le_iff if_True)
  next
    case False
    then have "2 powi ?e \<le> x \<longleftrightarrow> of_int d \<le> (of_int (n * 2 ^ nat (- ?e)) :: rat)"
      using d by (simp add: powi_neg x pos_le_divide_eq pos_divide_le_eq)
    then show ?thesis using False by (simp only: of_int_le_iff if_False)
  qed
  then show ?thesis by (simp only: ilog2_def ilog2Frac_def assms Let_def prod.case)
qed

lemma roundHalfEven_div:
  assumes "0 < d"
  shows "roundHalfEven (of_int n / of_int d) = divHalfEven n d"
proof -
  have f: "\<lfloor>of_int n / of_int d :: rat\<rfloor> = n div d" by (rule floor_divide_of_int_eq)
  have "(of_int n :: rat) = of_int (n div d) * of_int d + of_int (n mod d)"
    by (metis div_mult_mod_eq of_int_add of_int_mult)
  then have r: "of_int n / of_int d - of_int (n div d) = (of_int (n mod d) / of_int d :: rat)"
    using assms by (simp add: field_simps)
  have "(of_int (n mod d) / of_int d < (1 / 2 :: rat)) = (of_int (2 * (n mod d)) < (of_int d :: rat))"
    using assms by (simp add: field_simps)
  then have lt: "(of_int (n mod d) / of_int d < (1 / 2 :: rat)) = (2 * (n mod d) < d)"
    by (simp only: of_int_less_iff)
  have "(of_int (n mod d) / of_int d = (1 / 2 :: rat)) = (of_int (2 * (n mod d)) = (of_int d :: rat))"
    using assms by (simp add: divide_eq_eq mult.commute)
  then have eq: "(of_int (n mod d) / of_int d = (1 / 2 :: rat)) = (2 * (n mod d) = d)"
    by (simp only: of_int_eq_iff)
  show ?thesis by (simp only: roundHalfEven_def divHalfEven_def f r lt eq Let_def)
qed

lemma reduced_eq: "d \<noteq> 0 \<Longrightarrow> reduced n d = of_int n / of_int d"
proof -
  assume d: "d \<noteq> 0"
  let ?g = "gcd n d"
  have g: "of_int ?g \<noteq> (0 :: rat)" using d by simp
  have "of_int n = (of_int (n div ?g) * of_int ?g :: rat)" "of_int d = (of_int (d div ?g) * of_int ?g :: rat)"
    by (metis dvd_div_mult_self gcd_dvd1 of_int_mult, metis dvd_div_mult_self gcd_dvd2 of_int_mult)
  then show ?thesis using g by (simp add: reduced_def Let_def)
qed

lemma rnd_Frac: "rnd x = (case quotient_of x of (n, d) \<Rightarrow> rndFrac n d)"
proof -
  obtain n d where q: "quotient_of x = (n, d)" by force
  then have d: "0 < d" and x: "x = of_int n / of_int d"
    using quotient_of_denom_pos quotient_of_div by auto
  show ?thesis
  proof (cases "n = 0")
    case True
    then show ?thesis by (simp add: q x rndFrac_def)
  next
    case False
    then have x0: "x \<noteq> 0" using d by (simp add: x)
    have "quotient_of \<bar>x\<bar> = (\<bar>n\<bar>, d)" using q by (simp add: rat_abs_code)
    then have il: "ilog2 \<bar>x\<bar> = ilog2Frac \<bar>n\<bar> d" by (rule ilog2_Frac)
    let ?e = "ilog2Frac \<bar>n\<bar> d - 52"
    show ?thesis
    proof (cases "0 \<le> ?e")
      case True
      have "x / 2 powi ?e = of_int n / of_int (d * 2 ^ nat ?e)"
        by (simp add: x powi_nat[OF True])
      then have "roundHalfEven (x / 2 powi ?e) = divHalfEven n (d * 2 ^ nat ?e)"
        using d by (simp only:) (rule roundHalfEven_div, simp)
      then show ?thesis using x0 False True by (simp add: q rnd_def il rndFrac_def Let_def powi_nat[OF True])
    next
      case e: False
      have "x / 2 powi ?e = of_int (n * 2 ^ nat (- ?e)) / of_int d"
        using e by (simp add: x powi_neg)
      then have "roundHalfEven (x / 2 powi ?e) = divHalfEven (n * 2 ^ nat (- ?e)) d"
        using d by (simp only:) (rule roundHalfEven_div)
      then show ?thesis using x0 False e
        by (simp add: q rnd_def il rndFrac_def Let_def powi_neg reduced_eq)
    qed
  qed
qed

text \<open>A fraction that is already a double is left alone, without any division.\<close>

lemma rnd_code [code]:
  "rnd x = (case quotient_of x of (n, d) \<Rightarrow>
     if \<bar>n\<bar> \<le> 9007199254740992 \<and> d = 2 ^ nat (bitlen d - 1) then of_int n / of_int d else rndFrac n d)"
proof -
  obtain n d where q: "quotient_of x = (n, d)" by force
  have x: "x = of_int n / of_int d" using q by (rule quotient_of_div)
  have "rnd x = of_int n / of_int d" if "\<bar>n\<bar> \<le> 9007199254740992" "d = 2 ^ nat (bitlen d - 1)"
  proof -
    from that(2) obtain k where "d = 2 ^ k" by blast
    then have k: "of_int d = (2 :: rat) ^ k" by simp
    have "x = of_int n * 2 powi (- int k)"
      unfolding x k power_int_minus power_int_of_nat by (rule divide_inverse)
    then show ?thesis using that(1) rnd_exact[of n "- int k"] x by simp
  qed
  then have "rnd x = (if \<bar>n\<bar> \<le> 9007199254740992 \<and> d = 2 ^ nat (bitlen d - 1) then of_int n / of_int d else rndFrac n d)"
    using rnd_Frac[of x] unfolding q prod.case by (metis (no_types))
  then show ?thesis unfolding q prod.case .
qed

end
