(* ===== verification/EngineTypes.thy ===== *)
theory EngineTypes
  imports JsNumber
begin

text \<open>
  The engine's data model (\<open>web/src/pages/replay/engine/types.ts\<close>) and its level table
  (\<open>engine/levels.ts\<close>): the hat (\<open>Player\<close>), the racks and pickups (\<open>Entity\<close>), the parallel lanes
  of a fan-out, the input a history segment starts from (\<open>StartInput\<close>), the state of one tick
  (\<open>GameState\<close>), the events of the history and the ports through which outside values reach the
  engine. Record fields carry a short prefix naming their interface (\<open>pl\<close>, \<open>ent\<close>, \<open>ln\<close>, \<open>si\<close>, \<open>gs\<close>,
  \<open>lc\<close>), since HOL field names are global. The tips and comments shown to the player are not
  modelled.
\<close>

section \<open>View constants\<close>

abbreviation TICK_HZ :: int where "TICK_HZ \<equiv> 60"
abbreviation VIEW_W :: rat where "VIEW_W \<equiv> 480"
abbreviation GROUND_Y :: rat where "GROUND_Y \<equiv> 230"
abbreviation PLAYER_X :: rat where "PLAYER_X \<equiv> 80"
abbreviation SPAWN_X :: rat where "SPAWN_X \<equiv> 490"

section \<open>Data\<close>

datatype Level = L0 | L1 | L2 | L3 | L4 | L5

datatype PlayerInput = Jump | JumpEnd | SlideStart | SlideEnd

datatype InputKind = Key PlayerInput | Resume | Retry

datatype EntityKind = Low | High | Coin | Orb | Crate | Tall | Falling | Pit | Fanout

record Entity =
  ent_id :: int
  ent_kind :: EntityKind
  ent_x :: rat
  ent_y :: rat
  ent_w :: rat
  ent_h :: rat
  ent_taken :: bool
  ent_vy :: "rat option"

record Player =
  pl_y :: rat
  pl_vy :: rat
  pl_sliding :: bool
  pl_jumpHeld :: bool
  pl_coyoteUntil :: int
  pl_jumpBufferUntil :: int

record Lane =
  ln_player :: Player
  ln_entities :: "Entity list"
  ln_nextSpawnAt :: rat
  ln_coins :: int

record StartInput =
  si_level :: Level
  si_seed :: int
  si_score :: int
  si_elapsed :: int
  si_distance :: rat
  si_boss :: bool
  si_retries :: int
  si_shield :: int

datatype Status = Running | Failed | LevelDone | NeedsRetry

record Fan =
  fan_until :: int
  fan_lanes :: "Lane list"

record GameState =
  gs_level :: Level
  gs_tick :: int
  gs_elapsed :: int
  gs_rng :: u32
  gs_score :: int
  gs_multiplier :: int
  gs_multUntil :: int
  gs_player :: Player
  gs_scroll :: rat
  gs_distance :: rat
  gs_nextSpawnAt :: rat
  gs_nextId :: int
  gs_entities :: "Entity list"
  gs_bossUntil :: int
  gs_retries :: int
  gs_shield :: int
  gs_graceUntil :: int
  gs_failedAt :: int
  gs_fan :: "Fan option"
  gs_nextGateAt :: limit
  gs_status :: Status

text \<open>
  A history event: its tick first, then the fields of its \<open>type\<close> in the order of the source.
\<close>

datatype HistoryEvent =
    Input (ev_tick: int) (ev_kind: PlayerInput)
  | OrchestratorStarted (ev_tick: int)
  | RetryAttempt (ev_tick: int) (ev_attempt: int) (ev_failedAt: int)
  | ActivityCoinCollected (ev_tick: int) (ev_id: int) (ev_hash: u32)
  | ActivityCrateCollected (ev_tick: int) (ev_id: int) (ev_hash: u32) (ev_result: rat)
  | OrbTaken (ev_tick: int) (ev_id: int) (ev_hash: u32)
  | CircuitBreakerTripped (ev_tick: int) (ev_id: int) (ev_hash: u32)
  | BoostLost (ev_tick: int) (ev_id: int) (ev_hash: u32)
  | FanOut (ev_tick: int) (ev_hash: u32)
  | FanIn (ev_tick: int) (ev_hash: u32) (ev_results: "int list")

text \<open>
  The ports are closures over the outside world, so each call takes the world it reads and returns
  the one it leaves behind; the type of worlds is a parameter.
\<close>

record 'w Ports =
  impure :: "'w \<Rightarrow> rat \<times> 'w"
  crateValue :: "int \<Rightarrow> 'w \<Rightarrow> rat \<times> 'w"

datatype ReplayResult = ReplayOk GameState | ReplayDiverged int GameState

section \<open>Levels\<close>

record FanOutConfig =
  fo_everyPx :: rat
  fo_ticks :: int

type_synonym Weights = "EntityKind \<rightharpoonup> rat"

record LevelConfig =
  lc_name :: string
  lc_length :: limit
  lc_speed :: rat
  lc_ramp :: rat
  lc_maxSpeed :: rat
  lc_weights :: Weights
  lc_bossWeights :: Weights
  lc_laneWeights :: Weights
  lc_durable :: bool
  lc_chaosMeanTicks :: "rat option"
  lc_chaosFloorTicks :: "rat option"
  lc_firstCrashTicks :: "(int \<times> int) option"
  lc_scriptedCrashAt :: "int option"
  lc_crashAfterPickup :: "EntityKind list option"
  lc_retries :: int
  lc_shieldEnabled :: bool
  lc_fanOut :: "FanOutConfig option"

type_synonym LevelTable = "Level \<Rightarrow> LevelConfig"

definition CRASH_AFTER_PICKUP :: "int \<times> int" where
  "CRASH_AFTER_PICKUP = (60, 300)"

definition BOSS :: Weights where
  "BOSS = [Low \<mapsto> 3, High \<mapsto> 3]"

definition LANES :: Weights where
  "LANES = [Low \<mapsto> 2, Pit \<mapsto> 2, Coin \<mapsto> 4]"

fun LEVELS :: LevelTable where
  "LEVELS L0 = \<lparr>lc_name = ''No Safety Net'',
     lc_length = Infinity, lc_speed = 3, lc_ramp = 0, lc_maxSpeed = 3,
     lc_weights = [Low \<mapsto> 2, Coin \<mapsto> 3], lc_bossWeights = BOSS, lc_laneWeights = LANES,
     lc_durable = False, lc_chaosMeanTicks = None, lc_chaosFloorTicks = None,
     lc_firstCrashTicks = None, lc_scriptedCrashAt = Some 900, lc_crashAfterPickup = None,
     lc_retries = 0, lc_shieldEnabled = False, lc_fanOut = None\<rparr>"
| "LEVELS L1 = \<lparr>lc_name = ''Replay'',
     lc_length = Px 6300, lc_speed = 7 / 2, lc_ramp = 0, lc_maxSpeed = 7 / 2,
     lc_weights = [Low \<mapsto> 3, High \<mapsto> 2, Coin \<mapsto> 4, Pit \<mapsto> 2], lc_bossWeights = BOSS,
     lc_laneWeights = LANES,
     lc_durable = True, lc_chaosMeanTicks = Some 1200, lc_chaosFloorTicks = None,
     lc_firstCrashTicks = Some (480, 720), lc_scriptedCrashAt = None, lc_crashAfterPickup = None,
     lc_retries = 3, lc_shieldEnabled = True, lc_fanOut = None\<rparr>"
| "LEVELS L2 = \<lparr>lc_name = ''Temptation'',
     lc_length = Px 8000, lc_speed = 4, lc_ramp = 0, lc_maxSpeed = 4,
     lc_weights = [Low \<mapsto> 3, High \<mapsto> 2, Coin \<mapsto> 3, Orb \<mapsto> 2, Pit \<mapsto> 1, Falling \<mapsto> 2],
     lc_bossWeights = BOSS, lc_laneWeights = LANES,
     lc_durable = True, lc_chaosMeanTicks = Some 1200, lc_chaosFloorTicks = None,
     lc_firstCrashTicks = None, lc_scriptedCrashAt = None, lc_crashAfterPickup = Some [Orb],
     lc_retries = 3, lc_shieldEnabled = True, lc_fanOut = None\<rparr>"
| "LEVELS L3 = \<lparr>lc_name = ''Wrap It'',
     lc_length = Px 9000, lc_speed = 9 / 2, lc_ramp = 0, lc_maxSpeed = 9 / 2,
     lc_weights = [Low \<mapsto> 2, High \<mapsto> 2, Coin \<mapsto> 3, Orb \<mapsto> 1, Crate \<mapsto> 2, Pit \<mapsto> 1, Falling \<mapsto> 1,
       Tall \<mapsto> 2],
     lc_bossWeights = BOSS, lc_laneWeights = LANES,
     lc_durable = True, lc_chaosMeanTicks = Some 1200, lc_chaosFloorTicks = None,
     lc_firstCrashTicks = None, lc_scriptedCrashAt = None,
     lc_crashAfterPickup = Some [Orb, Crate],
     lc_retries = 3, lc_shieldEnabled = True, lc_fanOut = None\<rparr>"
| "LEVELS L4 = \<lparr>lc_name = ''Fan Out'',
     lc_length = Px 9000, lc_speed = 9 / 2, lc_ramp = 0, lc_maxSpeed = 9 / 2,
     lc_weights = [Low \<mapsto> 2, High \<mapsto> 2, Coin \<mapsto> 3, Crate \<mapsto> 1, Pit \<mapsto> 2, Falling \<mapsto> 1, Tall \<mapsto> 1],
     lc_bossWeights = BOSS, lc_laneWeights = LANES,
     lc_durable = True, lc_chaosMeanTicks = Some 1200, lc_chaosFloorTicks = None,
     lc_firstCrashTicks = None, lc_scriptedCrashAt = None, lc_crashAfterPickup = None,
     lc_retries = 3, lc_shieldEnabled = True,
     lc_fanOut = Some \<lparr>fo_everyPx = 2500, fo_ticks = 600\<rparr>\<rparr>"
| "LEVELS L5 = \<lparr>lc_name = ''Production'',
     lc_length = Infinity, lc_speed = 5, lc_ramp = 1 / 2, lc_maxSpeed = 9,
     lc_weights = [Low \<mapsto> 2, High \<mapsto> 2, Coin \<mapsto> 3, Orb \<mapsto> 1, Crate \<mapsto> 1, Pit \<mapsto> 2, Falling \<mapsto> 1,
       Tall \<mapsto> 1],
     lc_bossWeights = BOSS, lc_laneWeights = LANES,
     lc_durable = True, lc_chaosMeanTicks = Some 1200, lc_chaosFloorTicks = Some 480,
     lc_firstCrashTicks = None, lc_scriptedCrashAt = None, lc_crashAfterPickup = None,
     lc_retries = 3, lc_shieldEnabled = True,
     lc_fanOut = Some \<lparr>fo_everyPx = 4000, fo_ticks = 600\<rparr>\<rparr>"

definition speedAt :: "LevelConfig \<Rightarrow> int \<Rightarrow> rat" where
  "speedAt cfg elapsed =
     min (lc_maxSpeed cfg) (fadd (lc_speed cfg) (fmul (lc_ramp cfg) (fdiv (of_int elapsed) 3600)))"

lemma speedAt_code [code]:
  "speedAt cfg elapsed =
     (if lc_ramp cfg = 0 then min (lc_maxSpeed cfg) (fadd (lc_speed cfg) 0)
      else min (lc_maxSpeed cfg) (fadd (lc_speed cfg) (fmul (lc_ramp cfg) (fdiv (of_int elapsed) 3600))))"
  by (simp add: speedAt_def fmul_def)

definition chaosMeanTicks :: "LevelConfig \<Rightarrow> int \<Rightarrow> rat option" where
  "chaosMeanTicks cfg elapsed =
     (case lc_chaosMeanTicks cfg of None \<Rightarrow> None
      | Some m \<Rightarrow>
          (case lc_chaosFloorTicks cfg of None \<Rightarrow> Some m
           | Some f \<Rightarrow> Some (max f (fsub m (fdiv (of_int elapsed) 10)))))"

section \<open>Facts about the level table\<close>

text \<open>A level table the engine can run: every level starts moving and never slows down to a stop.\<close>

definition playable :: "LevelConfig \<Rightarrow> bool" where
  "playable cfg \<longleftrightarrow> 3 \<le> lc_speed cfg \<and> lc_speed cfg \<le> lc_maxSpeed cfg \<and> lc_maxSpeed cfg \<le> 9 \<and>
     0 \<le> lc_ramp cfg \<and> rnd (lc_speed cfg) = lc_speed cfg"

lemma rnd_halves: "\<bar>m\<bar> \<le> 2 ^ 53 \<Longrightarrow> rnd (of_int m / 2) = of_int m / 2"
  using rnd_exact[of m "-1"] by (simp add: power_int_minus field_simps)

lemma rnd_speed_values: "rnd 3 = 3" "rnd 4 = 4" "rnd 5 = 5" "rnd (7 / 2) = 7 / 2" "rnd (9 / 2) = 9 / 2"
  using rnd_of_int[of 3] rnd_of_int[of 4] rnd_of_int[of 5] rnd_halves[of 7] rnd_halves[of 9]
  by simp_all

lemma LEVELS_playable: "playable (LEVELS l)"
  by (cases l) (simp_all add: playable_def rnd_speed_values)

lemma speedAt_bounds:
  assumes "playable cfg" "0 \<le> elapsed"
  shows "3 \<le> speedAt cfg elapsed" "speedAt cfg elapsed \<le> 9"
proof -
  have "lc_speed cfg \<le> fadd (lc_speed cfg) (fmul (lc_ramp cfg) (fdiv (of_int elapsed) 3600))"
    using assms by (intro fadd_rnd_ge fmul_nonneg fdiv_nonneg) (auto simp: playable_def)
  then show "3 \<le> speedAt cfg elapsed" "speedAt cfg elapsed \<le> 9"
    using assms(1) by (auto simp: speedAt_def playable_def)
qed

end
