(* ===== verification/EngineRng.thy ===== *)
theory EngineRng
  imports EngineTypes
begin

unbundle bit_operations_syntax

text \<open>
  The seeded generator and the seeds (\<open>engine/rng.ts\<close>, \<open>engine/seed.ts\<close>). The generator state is a
  \<open>32 word\<close>, so \<open>>>> 0\<close>, \<open>Math.imul\<close> and the wrap-around of the additions are the word operations;
  the values it hands out are doubles in \<open>[0, 1)\<close>. Lemmas: the values are in range, the state walks
  through all \<open>2^32\<close> values before it repeats, the two conversions between words and doubles are
  exact, and \<open>mix\<close> undoes itself.
\<close>

section \<open>mulberry32\<close>

text \<open>The number a 32-bit unsigned value denotes.\<close>

definition num32 :: "u32 \<Rightarrow> rat" where
  "num32 w = of_int (uint w)"

definition mulberry :: "u32 \<Rightarrow> u32" where
  "mulberry state =
     (let t = (state XOR drop_bit 15 state) * (state OR 1);
          t' = t XOR (t + (t XOR drop_bit 7 t) * (t OR 61))
      in t' XOR drop_bit 14 t')"

definition nextRandom :: "u32 \<Rightarrow> u32 \<times> rat" where
  "nextRandom s =
     (let state = s + 0x6d2b79f5 in (state, fdiv (num32 (mulberry state)) 4294967296))"

definition mix :: "u32 \<Rightarrow> rat \<Rightarrow> u32" where
  "mix s v = s XOR word_of_int (mathFloor (fmul v 4294967296))"

definition seedFrom :: "u32 \<Rightarrow> u32" where
  "seedFrom s = word_of_int (mathFloor (fmul (snd (nextRandom s)) 4294967296))"

section \<open>Seeds by date\<close>

definition fnvByte :: "u32 \<Rightarrow> u32 \<Rightarrow> u32" where
  "fnvByte h b = (h XOR b) * 0x01000193"

definition seedForDate :: "string \<Rightarrow> u32" where
  "seedForDate date =
     foldl (\<lambda>h c. fnvByte h (of_char c AND 0xff)) 0x811c9dc5 (''replay:'' @ date)"

section \<open>Exactness of the conversions\<close>

lemma uint_bounds: "0 \<le> uint (w :: u32)" "uint (w :: u32) < 2 ^ 32"
  using uint_ge_0[of w] uint_lt2p[of w] by simp_all

lemma num32_bounds: "0 \<le> num32 w" "num32 w < 4294967296"
proof -
  have "of_int (uint w) < (of_int (2 ^ 32) :: rat)"
    using uint_bounds(2)[of w] by (simp only: of_int_less_iff)
  then show "num32 w < 4294967296" unfolding num32_def by simp
  show "0 \<le> num32 w" unfolding num32_def of_int_0_le_iff by (rule uint_bounds)
qed

lemma num32_floor [simp]: "\<lfloor>num32 w\<rfloor> = uint w"
  unfolding num32_def by (rule floor_of_int)

lemma powi_minus_32: "(2::rat) powi (- 32) = 1 / 4294967296"
  by (simp add: power_int_minus)

lemma fdiv_num32: "fdiv (num32 w) 4294967296 = num32 w / 4294967296"
proof -
  have "rnd (of_int (uint w) * 2 powi (- 32)) = of_int (uint w) * 2 powi (- 32)"
    using uint_bounds[of w] by (intro rnd_exact) simp
  then show ?thesis unfolding fdiv_def num32_def powi_minus_32 by simp
qed

lemma fmul_unit: "fmul (num32 w / 4294967296) 4294967296 = num32 w"
proof -
  have "rnd (of_int (uint w)) = of_int (uint w)"
    using uint_bounds[of w] by (intro rnd_of_int) simp
  then show ?thesis by (simp add: fmul_def num32_def)
qed

lemma nextRandom_state [simp]: "fst (nextRandom s) = s + 0x6d2b79f5"
  by (simp add: nextRandom_def Let_def)

lemma nextRandom_value: "snd (nextRandom s) = num32 (mulberry (s + 0x6d2b79f5)) / 4294967296"
  by (simp add: nextRandom_def Let_def fdiv_num32)

lemma nextRandom_range: "0 \<le> snd (nextRandom s)" "snd (nextRandom s) < 1"
  using num32_bounds[of "mulberry (s + 0x6d2b79f5)"] by (simp_all add: nextRandom_value)

lemma seedFrom_mulberry: "seedFrom s = mulberry (s + 0x6d2b79f5)"
  by (simp add: seedFrom_def nextRandom_value fmul_unit mathFloor_def)

lemma mix_unit: "mix s (num32 u / 4294967296) = s XOR u"
  by (simp add: mix_def fmul_unit mathFloor_def)

lemma mix_mix [simp]: "mix (mix s v) v = s"
  by (simp add: mix_def xor.assoc)

section \<open>Period of the generator\<close>

definition rngAfter :: "nat \<Rightarrow> u32 \<Rightarrow> u32" where
  "rngAfter n = ((\<lambda>s. fst (nextRandom s)) ^^ n)"

lemma rngAfter_eq: "rngAfter n s = s + of_nat n * 0x6d2b79f5"
  by (induction n arbitrary: s) (simp_all add: rngAfter_def algebra_simps)

lemma rngAfter_period_iff: "rngAfter n s = s \<longleftrightarrow> 2 ^ 32 dvd n"
proof -
  have "rngAfter n s = s \<longleftrightarrow> of_nat (n * 0x6d2b79f5) = (0 :: u32)"
    by (simp add: rngAfter_eq)
  also have "\<dots> \<longleftrightarrow> 2 ^ 32 dvd n * 0x6d2b79f5"
    by (simp only: word_of_nat_eq_0_iff) simp
  also have "\<dots> \<longleftrightarrow> 2 ^ 32 dvd n"
    by (rule coprime_dvd_mult_left_iff) (simp only: coprime_power_left_iff coprime_left_2_iff_odd, simp)
  finally show ?thesis .
qed

end
