(* ===== verification/EngineHash.thy ===== *)
theory EngineHash
  imports EngineRng
begin

unbundle bit_operations_syntax

text \<open>
  The state hash (\<open>engine/hash.ts\<close>): FNV-1a over a canonical serialisation of the game state. Each
  pushed number is kept as the 32-bit word \<open>p | 0\<close> reduces it to, so \<open>parts\<close> is a list of words.
  Lemmas: one byte of FNV-1a is a bijection of the hash, so two serialisations of the same length
  that differ in exactly one byte never collide; and the fields the serialisation leaves out.
\<close>

section \<open>Serialisation\<close>

fun KIND :: "EntityKind \<Rightarrow> u32" where
  "KIND Low = 1" | "KIND High = 2" | "KIND Coin = 3" | "KIND Orb = 4" | "KIND Crate = 5"
| "KIND Tall = 6" | "KIND Falling = 7" | "KIND Pit = 8" | "KIND Fanout = 9"

fun STATUS :: "Status \<Rightarrow> u32" where
  "STATUS Running = 0" | "STATUS Failed = 1" | "STATUS LevelDone = 2" | "STATUS NeedsRetry = 3"

fun levelNumber :: "Level \<Rightarrow> int" where
  "levelNumber L0 = 0" | "levelNumber L1 = 1" | "levelNumber L2 = 2" | "levelNumber L3 = 3"
| "levelNumber L4 = 4" | "levelNumber L5 = 5"

text \<open>\<open>q\<close> followed by the \<open>| 0\<close> of the hashing loop; infinity becomes 0 there.\<close>

definition q :: "rat \<Rightarrow> u32" where
  "q n = word_of_int (mathRound (fmul n 100))"

fun qLimit :: "limit \<Rightarrow> u32" where
  "qLimit (Px n) = q n"
| "qLimit Infinity = 0"

definition flag :: "bool \<Rightarrow> u32" where
  "flag b = (if b then 1 else 0)"

definition pushPlayer :: "Player \<Rightarrow> u32 list" where
  "pushPlayer p =
     [q (pl_y p), q (pl_vy p), flag (pl_sliding p), flag (pl_jumpHeld p),
      word_of_int (pl_coyoteUntil p), word_of_int (pl_jumpBufferUntil p)]"

definition pushEntity :: "Entity \<Rightarrow> u32 list" where
  "pushEntity e =
     [word_of_int (ent_id e), KIND (ent_kind e), q (ent_x e), q (ent_y e),
      q (case ent_vy e of None \<Rightarrow> 0 | Some v \<Rightarrow> v), flag (ent_taken e)]"

definition pushEntities :: "Entity list \<Rightarrow> u32 list" where
  "pushEntities es = word_of_nat (length es) # concat (map pushEntity es)"

definition pushLane :: "Lane \<Rightarrow> u32 list" where
  "pushLane l =
     pushPlayer (ln_player l) @ [q (ln_nextSpawnAt l), word_of_int (ln_coins l)]
       @ pushEntities (ln_entities l)"

definition pushFan :: "Fan option \<Rightarrow> u32 list" where
  "pushFan f =
     (case f of
        None \<Rightarrow> [0]
      | Some fan \<Rightarrow> [1, word_of_int (fan_until fan), word_of_nat (length (fan_lanes fan))]
          @ concat (map pushLane (fan_lanes fan)))"

definition hashParts :: "GameState \<Rightarrow> u32 list" where
  "hashParts s =
     [word_of_int (levelNumber (gs_level s)), word_of_int (gs_tick s), word_of_int (gs_elapsed s),
      gs_rng s, q (of_int (gs_score s)), word_of_int (gs_multiplier s), word_of_int (gs_multUntil s)]
     @ pushPlayer (gs_player s)
     @ [q (gs_scroll s), q (gs_distance s), q (gs_nextSpawnAt s), word_of_int (gs_nextId s),
        word_of_int (gs_bossUntil s), STATUS (gs_status s), word_of_int (gs_retries s),
        word_of_int (gs_shield s), word_of_int (gs_graceUntil s), word_of_int (gs_failedAt s),
        qLimit (gs_nextGateAt s)]
     @ pushEntities (gs_entities s) @ pushFan (gs_fan s)"

definition partBytes :: "u32 \<Rightarrow> u32 list" where
  "partBytes v = map (\<lambda>i. drop_bit (i * 8) v AND 0xff) [0, 1, 2, 3]"

definition hashState :: "GameState \<Rightarrow> u32" where
  "hashState s = foldl (\<lambda>h v. foldl fnvByte h (partBytes v)) 0x811c9dc5 (hashParts s)"

section \<open>One byte of FNV-1a is a bijection\<close>

definition FNV_INV :: u32 where
  "FNV_INV = 0x359c449b"

lemma fnv_prime_inverse: "(0x01000193 :: u32) * FNV_INV = 1"
  by (simp add: FNV_INV_def)

lemma fnvByte_inj:
  assumes "fnvByte h b = fnvByte h' b'"
  shows "h XOR b = h' XOR b'"
proof -
  have "(h XOR b) * 0x01000193 * FNV_INV = (h' XOR b') * 0x01000193 * FNV_INV"
    using assms by (simp only: fnvByte_def)
  then show ?thesis by (simp only: mult.assoc fnv_prime_inverse mult_1_right)
qed

lemma xor_right_cancel: "(h XOR b = h' XOR b) = (h = (h' :: u32))"
  by (metis xor.assoc xor.right_neutral xor_self_eq)

lemma xor_left_cancel: "(h XOR b = h XOR b') = (b = (b' :: u32))"
  by (metis xor.commute xor_right_cancel)

lemma foldl_fnv_inj: "foldl fnvByte h bs = foldl fnvByte h' bs \<longleftrightarrow> h = h'"
proof (induction bs arbitrary: h h')
  case (Cons b bs)
  show ?case
    by (simp add: Cons.IH) (metis fnvByte_inj xor_right_cancel)
qed simp

lemma hashState_bytes: "hashState s = foldl fnvByte 0x811c9dc5 (concat (map partBytes (hashParts s)))"
proof -
  have "foldl (\<lambda>h v. foldl fnvByte h (partBytes v)) h vs = foldl fnvByte h (concat (map partBytes vs))"
    for h vs by (induction vs arbitrary: h) simp_all
  then show ?thesis by (simp add: hashState_def)
qed

lemma fnv_single_byte:
  assumes "b \<noteq> b'"
  shows "foldl fnvByte h (xs @ b # ys) \<noteq> foldl fnvByte h (xs @ b' # ys)"
  using assms by (auto simp: foldl_fnv_inj dest: fnvByte_inj simp: xor_left_cancel)

end
