(* ===== verification/EngineStep.thy ===== *)
theory EngineStep
  imports EngineHash
begin

text \<open>
  One tick of the engine (\<open>engine/step.ts\<close>): movement, scrolling, spawning, fan-out and fan-in, the
  hit chain and pickups. \<open>step\<close> clones its input and then mutates the clone; here every helper takes
  the state and returns the new one, in the order of the source. A \<open>Track\<close> of the source is either
  the state itself or one lane of a fan-out; \<open>mapTracks\<close> and \<open>collide\<close> treat the two cases as
  \<open>tracks(s)\<close> does. The two spawn loops run \<open>while (scroll >= nextSpawnAt)\<close> and have no other exit,
  so they are partial functions and a tick that never leaves them is \<open>None\<close>; that the loops do end on
  every playable level is proved in \<open>EngineProgress\<close>.
\<close>

section \<open>Constants\<close>

abbreviation GRAVITY :: rat where "GRAVITY \<equiv> 1 / 2"
abbreviation JUMP_VY :: rat where "JUMP_VY \<equiv> - 9"
abbreviation PLAYER_W :: rat where "PLAYER_W \<equiv> 30"
abbreviation PLAYER_H :: rat where "PLAYER_H \<equiv> 16"
abbreviation SLIDE_H :: rat where "SLIDE_H \<equiv> 9"
abbreviation HAZARD_INSET_X :: rat where "HAZARD_INSET_X \<equiv> 3"
abbreviation BOOST_TICKS :: int where "BOOST_TICKS \<equiv> 10 * TICK_HZ"
abbreviation BOSS_TICKS :: int where "BOSS_TICKS \<equiv> 15 * TICK_HZ"
abbreviation SHIELD_FULL :: int where "SHIELD_FULL \<equiv> 10"
abbreviation GRACE_RESUME :: int where "GRACE_RESUME \<equiv> 60"
abbreviation GRACE_RETRY :: int where "GRACE_RETRY \<equiv> 60"
abbreviation GRACE_BOOST :: int where "GRACE_BOOST \<equiv> 60"
abbreviation GRACE_BARGE :: int where "GRACE_BARGE \<equiv> 30"
abbreviation FAN_LANES :: nat where "FAN_LANES \<equiv> 2"
abbreviation MERGE_LANE :: nat where "MERGE_LANE \<equiv> 0"
abbreviation FAN_CLEAR_PX :: rat where "FAN_CLEAR_PX \<equiv> 200"
abbreviation LANE_SCALE :: rat where "LANE_SCALE \<equiv> 3 / 4"
abbreviation GATE_W :: rat where "GATE_W \<equiv> 12"
abbreviation MIN_GAP :: rat where "MIN_GAP \<equiv> 150"
abbreviation GAP_RANGE :: rat where "GAP_RANGE \<equiv> 130"
abbreviation FIRST_SPAWN_AT :: rat where "FIRST_SPAWN_AT \<equiv> 240"
abbreviation PIT_HIT_DEPTH :: rat where "PIT_HIT_DEPTH \<equiv> 14"
abbreviation FALL_LEAD_TICKS :: rat where "FALL_LEAD_TICKS \<equiv> 60"
abbreviation RACK_GRAVITY :: rat where "RACK_GRAVITY \<equiv> 1"
abbreviation PIT_MIN_W :: rat where "PIT_MIN_W \<equiv> 30"
abbreviation PIT_RANGE_W :: rat where "PIT_RANGE_W \<equiv> 30"
abbreviation COYOTE_TICKS :: int where "COYOTE_TICKS \<equiv> 6"
abbreviation JUMP_BUFFER_TICKS :: int where "JUMP_BUFFER_TICKS \<equiv> 6"
abbreviation JUMP_CUT_VY :: rat where "JUMP_CUT_VY \<equiv> - 3"

definition LANE_SPAWN_X :: rat where
  "LANE_SPAWN_X = fadd (fdiv VIEW_W LANE_SCALE) 10"

definition BOSS_GAP_SCALE :: rat where
  "BOSS_GAP_SCALE = rnd (4 / 5)"

definition RACKS :: "EntityKind \<Rightarrow> bool" where
  "RACKS k \<longleftrightarrow> k \<in> {Low, High, Tall, Falling}"

definition HAZARDS :: "EntityKind \<Rightarrow> bool" where
  "HAZARDS k \<longleftrightarrow> RACKS k \<or> k = Pit"

fun SIZE :: "EntityKind \<Rightarrow> rat \<times> rat" where
  "SIZE Low = (14, 20)"
| "SIZE High = (22, 30)"
| "SIZE Coin = (10, 10)"
| "SIZE Orb = (12, 12)"
| "SIZE Crate = (14, 14)"
| "SIZE Tall = (16, 44)"
| "SIZE Falling = (18, 24)"
| "SIZE Pit = (PIT_MIN_W, 0)"
| "SIZE Fanout = (GATE_W, GROUND_Y)"

definition ORDER :: "EntityKind list" where
  "ORDER = [Low, High, Coin, Orb, Crate, Tall, Falling, Pit]"

section \<open>Starting a segment\<close>

definition newPlayer :: Player where
  "newPlayer = \<lparr>pl_y = GROUND_Y, pl_vy = 0, pl_sliding = False, pl_jumpHeld = False,
     pl_coyoteUntil = 0, pl_jumpBufferUntil = 0\<rparr>"

definition firstGate :: "LevelConfig \<Rightarrow> rat \<Rightarrow> limit" where
  "firstGate cfg travelled =
     (case lc_fanOut cfg of
        None \<Rightarrow> Infinity
      | Some f \<Rightarrow> Px (fmul (fadd (of_int (mathFloor (fdiv travelled (fo_everyPx f)))) 1) (fo_everyPx f)))"

definition initialState :: "StartInput \<Rightarrow> LevelTable \<Rightarrow> GameState" where
  "initialState start levels =
     \<lparr>gs_level = si_level start, gs_tick = 0, gs_elapsed = si_elapsed start,
      gs_rng = word_of_int (si_seed start), gs_score = si_score start, gs_multiplier = 1,
      gs_multUntil = 0, gs_player = newPlayer, gs_scroll = 0, gs_distance = si_distance start,
      gs_nextSpawnAt = FIRST_SPAWN_AT, gs_nextId = 1, gs_entities = [],
      gs_bossUntil = (if si_boss start then BOSS_TICKS else 0), gs_retries = si_retries start,
      gs_shield = si_shield start, gs_graceUntil = 0, gs_failedAt = 0, gs_fan = None,
      gs_nextGateAt = firstGate (levels (si_level start)) (si_distance start),
      gs_status = Running\<rparr>"

text \<open>The \<open>patch\<close> of \<open>continueAsNew\<close> is a record update.\<close>

definition continueAsNew :: "GameState \<Rightarrow> (StartInput \<Rightarrow> StartInput) \<Rightarrow> StartInput" where
  "continueAsNew s patch = patch
     \<lparr>si_level = gs_level s, si_seed = uint (seedFrom (gs_rng s)), si_score = gs_score s,
      si_elapsed = gs_elapsed s, si_distance = fadd (gs_distance s) (gs_scroll s), si_boss = False,
      si_retries = gs_retries s, si_shield = gs_shield s\<rparr>"

section \<open>Spawning one entity\<close>

definition weightOf :: "Weights \<Rightarrow> EntityKind \<Rightarrow> rat" where
  "weightOf ws k = (case ws k of None \<Rightarrow> 0 | Some w \<Rightarrow> w)"

fun pickKind :: "Weights \<Rightarrow> rat \<Rightarrow> EntityKind list \<Rightarrow> EntityKind" where
  "pickKind ws x [] = Coin"
| "pickKind ws x (k # ks) =
     (if x < weightOf ws k then k else pickKind ws (fsub x (weightOf ws k)) ks)"

definition chooseKind :: "Weights \<Rightarrow> rat \<Rightarrow> EntityKind" where
  "chooseKind ws r =
     (let total = foldl (\<lambda>n k. fadd n (weightOf ws k)) 0 ORDER in pickKind ws (fmul r total) ORDER)"

fun spawnY :: "EntityKind \<Rightarrow> rat \<Rightarrow> rat" where
  "spawnY Low r = GROUND_Y - 20"
| "spawnY High r = GROUND_Y - 42"
| "spawnY Tall r = GROUND_Y - 44"
| "spawnY Falling r = - snd (SIZE Falling)"
| "spawnY Pit r = GROUND_Y"
| "spawnY Coin r = (if r < 1 / 2 then GROUND_Y - 24 else GROUND_Y - 70)"
| "spawnY Orb r = (if r < 1 / 2 then GROUND_Y - 24 else GROUND_Y - 70)"
| "spawnY _ r = GROUND_Y - 60"

definition spawn :: "EntityKind \<Rightarrow> int \<Rightarrow> rat \<Rightarrow> rat \<Rightarrow> Entity" where
  "spawn kind eid x yRoll =
     \<lparr>ent_id = eid, ent_kind = kind, ent_x = x, ent_y = spawnY kind yRoll,
      ent_w = (if kind = Pit
               then fadd PIT_MIN_W (of_int (mathFloor (fmul yRoll (fadd PIT_RANGE_W 1))))
               else fst (SIZE kind)),
      ent_h = snd (SIZE kind), ent_taken = False,
      ent_vy = (if kind = Falling then Some 0 else None)\<rparr>"

section \<open>Movement\<close>

definition overPit :: "Entity list \<Rightarrow> Entity option" where
  "overPit es =
     (let foot = PLAYER_X + PLAYER_W / 2
      in find (\<lambda>e. ent_kind e = Pit \<and> ent_x e \<le> foot \<and> foot < fadd (ent_x e) (ent_w e)) es)"

definition launch :: "Player \<Rightarrow> Player" where
  "launch p = p\<lparr>pl_vy := JUMP_VY, pl_sliding := False, pl_coyoteUntil := 0, pl_jumpBufferUntil := 0\<rparr>"

fun moveInput :: "bool \<Rightarrow> int \<Rightarrow> Player \<Rightarrow> InputKind \<Rightarrow> Player" where
  "moveInput canJump tick p (Key Jump) =
     (let p = p\<lparr>pl_jumpHeld := True\<rparr>
      in if canJump \<or> tick < pl_coyoteUntil p then launch p
         else p\<lparr>pl_jumpBufferUntil := tick + JUMP_BUFFER_TICKS\<rparr>)"
| "moveInput canJump tick p (Key JumpEnd) =
     (let p = p\<lparr>pl_jumpHeld := False\<rparr>
      in if pl_vy p < JUMP_CUT_VY then p\<lparr>pl_vy := JUMP_CUT_VY\<rparr> else p)"
| "moveInput canJump tick p (Key SlideStart) = p\<lparr>pl_sliding := True\<rparr>"
| "moveInput canJump tick p (Key SlideEnd) = p\<lparr>pl_sliding := False\<rparr>"
| "moveInput canJump tick p Resume = p"
| "moveInput canJump tick p Retry = p"

definition movePlayer :: "Player \<Rightarrow> InputKind list \<Rightarrow> int \<Rightarrow> Entity list \<Rightarrow> Player" where
  "movePlayer p0 inputs tick es =
     (let pit = overPit es;
          atGround = (pl_y p0 = GROUND_Y \<and> pl_vy p0 = 0);
          standing = (atGround \<and> pit = None);
          edge = (atGround \<and> pit \<noteq> None);
          p = foldl (moveInput (standing \<or> edge) tick) p0 inputs;
          grounded = (pl_y p = GROUND_Y \<and> pl_vy p = 0)
      in if grounded \<and> pit = None then p
         else
           let p = (if grounded then p\<lparr>pl_coyoteUntil := tick + COYOTE_TICKS\<rparr> else p);
               y0 = pl_y p;
               p = p\<lparr>pl_vy := fadd (pl_vy p) GRAVITY\<rparr>;
               p = p\<lparr>pl_y := fadd (pl_y p) (pl_vy p)\<rparr>
           in if 0 \<le> pl_vy p \<and> y0 \<le> GROUND_Y \<and> GROUND_Y \<le> pl_y p \<and> overPit es = None
              then let p = p\<lparr>pl_y := GROUND_Y, pl_vy := 0\<rparr>
                   in if tick < pl_jumpBufferUntil p then launch p else p
              else p)"

definition updateFalling :: "Entity \<Rightarrow> rat \<Rightarrow> Entity" where
  "updateFalling e speed =
     (if ent_kind e \<noteq> Falling \<or> fmul FALL_LEAD_TICKS speed < fsub (ent_x e) PLAYER_X then e
      else let floor = fsub GROUND_Y (ent_h e) in
        if floor \<le> ent_y e then e
        else let vy = fadd (case ent_vy e of None \<Rightarrow> 0 | Some v \<Rightarrow> v) RACK_GRAVITY;
                 y = min floor (fadd (ent_y e) vy)
             in e\<lparr>ent_vy := Some (if floor \<le> y then 0 else vy), ent_y := y\<rparr>)"

definition scrollTrack :: "rat \<Rightarrow> Entity list \<Rightarrow> Entity list" where
  "scrollTrack speed es =
     filter (\<lambda>e. 0 < fadd (ent_x e) (ent_w e))
       (map (\<lambda>e. updateFalling (e\<lparr>ent_x := fsub (ent_x e) speed\<rparr>) speed) es)"

definition livePlayer :: "GameState \<Rightarrow> Player" where
  "livePlayer s =
     (case gs_fan s of None \<Rightarrow> gs_player s | Some f \<Rightarrow> ln_player (fan_lanes f ! MERGE_LANE))"

text \<open>The loops \<open>for (const t of tracks(s))\<close>: \<open>f\<close> updates the hat and the entities of one track.\<close>

definition mapTracks :: "(Player \<Rightarrow> Entity list \<Rightarrow> Player \<times> Entity list) \<Rightarrow> GameState \<Rightarrow> GameState" where
  "mapTracks f s =
     (case gs_fan s of
        None \<Rightarrow> (case f (gs_player s) (gs_entities s) of
                  (p, es) \<Rightarrow> s\<lparr>gs_player := p, gs_entities := es\<rparr>)
      | Some fan \<Rightarrow> s\<lparr>gs_fan := Some (fan\<lparr>fan_lanes :=
          map (\<lambda>l. case f (ln_player l) (ln_entities l) of
                 (p, es) \<Rightarrow> l\<lparr>ln_player := p, ln_entities := es\<rparr>) (fan_lanes fan)\<rparr>)\<rparr>)"

section \<open>Hits\<close>

record Box =
  bx_x :: rat
  bx_y :: rat
  bx_w :: rat
  bx_h :: rat

definition boxOf :: "Entity \<Rightarrow> Box" where
  "boxOf e = \<lparr>bx_x = ent_x e, bx_y = ent_y e, bx_w = ent_w e, bx_h = ent_h e\<rparr>"

definition overlaps :: "Box \<Rightarrow> Box \<Rightarrow> bool" where
  "overlaps a b \<longleftrightarrow>
     bx_x a < fadd (bx_x b) (bx_w b) \<and> bx_x b < fadd (bx_x a) (bx_w a) \<and>
     bx_y a < fadd (bx_y b) (bx_h b) \<and> bx_y b < fadd (bx_y a) (bx_h a)"

definition bounce :: "Player \<Rightarrow> Player" where
  "bounce p = p\<lparr>pl_vy := JUMP_VY, pl_sliding := False\<rparr>"

text \<open>\<open>resolveHit\<close> returns what it mutates: the state, the hat, the rack and the event list.\<close>

definition resolveHit ::
  "LevelConfig \<Rightarrow> GameState \<Rightarrow> Player \<Rightarrow> Entity option \<Rightarrow> bool \<Rightarrow> HistoryEvent list
    \<Rightarrow> GameState \<times> Player \<times> Entity option \<times> HistoryEvent list" where
  "resolveHit cfg s p rack pit events =
     (let eid = (if pit then 0 else case rack of None \<Rightarrow> 0 | Some e \<Rightarrow> ent_id e);
          p' = (if pit then bounce p else p)
      in if gs_tick s < gs_graceUntil s then (s, p', rack, events)
         else if lc_shieldEnabled cfg \<and> SHIELD_FULL \<le> gs_shield s then
           (s\<lparr>gs_shield := 0, gs_graceUntil := gs_tick s + GRACE_BARGE\<rparr>, p',
            (if pit then rack else map_option (\<lambda>e. e\<lparr>ent_taken := True\<rparr>) rack),
            events @ [CircuitBreakerTripped (gs_tick s) eid 0])
         else if 1 < gs_multiplier s then
           (s\<lparr>gs_multiplier := 1, gs_multUntil := gs_tick s,
              gs_graceUntil := gs_tick s + GRACE_BOOST\<rparr>, p', rack,
            events @ [BoostLost (gs_tick s) eid 0])
         else if 0 < gs_retries s then
           (s\<lparr>gs_status := NeedsRetry, gs_failedAt := gs_tick s\<rparr>, p, rack, events)
         else (s\<lparr>gs_status := Failed\<rparr>, p, rack, events))"

definition boost :: "GameState \<Rightarrow> GameState" where
  "boost s = s\<lparr>gs_multiplier := 3, gs_multUntil := gs_tick s + BOOST_TICKS\<rparr>"

section \<open>Spawn loops\<close>

definition roll :: "GameState \<Rightarrow> (rat \<times> rat \<times> rat) \<times> GameState" where
  "roll s =
     (case nextRandom (gs_rng s) of (r1, kind) \<Rightarrow>
      case nextRandom r1 of (r2, y) \<Rightarrow>
      case nextRandom r2 of (r3, gap) \<Rightarrow> ((kind, y, gap), s\<lparr>gs_rng := r3\<rparr>))"

text \<open>The distance to the next spawn, \<open>(MIN_GAP + r.gap * GAP_RANGE) * scale * (speed / 4)\<close>.\<close>

definition spawnGap :: "rat \<Rightarrow> rat \<Rightarrow> rat \<Rightarrow> rat" where
  "spawnGap gap scale speed =
     fmul (fmul (fadd MIN_GAP (fmul gap GAP_RANGE)) scale) (fdiv speed 4)"

definition spawnOne :: "Weights \<Rightarrow> bool \<Rightarrow> rat \<Rightarrow> GameState \<Rightarrow> GameState" where
  "spawnOne weights boss speed s =
     (case roll s of ((kind, y, gap), s) \<Rightarrow>
        s\<lparr>gs_entities := gs_entities s @ [spawn (chooseKind weights kind) (gs_nextId s) SPAWN_X y],
          gs_nextId := gs_nextId s + 1,
          gs_nextSpawnAt :=
            fadd (gs_nextSpawnAt s) (spawnGap gap (if boss then BOSS_GAP_SCALE else 1) speed)\<rparr>)"

partial_function (option) spawnLoop :: "Weights \<Rightarrow> bool \<Rightarrow> rat \<Rightarrow> GameState \<Rightarrow> GameState option" where
  "spawnLoop weights boss speed s =
     (if gs_nextSpawnAt s \<le> gs_scroll s
      then spawnLoop weights boss speed (spawnOne weights boss speed s) else Some s)"

declare spawnLoop.simps [code]

definition gateEntity :: "int \<Rightarrow> Entity" where
  "gateEntity eid = \<lparr>ent_id = eid, ent_kind = Fanout, ent_x = SPAWN_X, ent_y = 0, ent_w = GATE_W,
     ent_h = GROUND_Y, ent_taken = False, ent_vy = None\<rparr>"

definition spawnMain :: "GameState \<Rightarrow> LevelConfig \<Rightarrow> rat \<Rightarrow> GameState option" where
  "spawnMain s cfg speed =
     (let boss = (0 < gs_bossUntil s); pos = fadd (gs_distance s) (gs_scroll s)
      in if lc_fanOut cfg \<noteq> None \<and> \<not> boss \<and> reached pos (limitMinus (gs_nextGateAt s) FAN_CLEAR_PX)
         then Some (if reached pos (gs_nextGateAt s) \<and> \<not> (\<exists>e \<in> set (gs_entities s). ent_kind e = Fanout)
                    then s\<lparr>gs_entities := gs_entities s @ [gateEntity (gs_nextId s)],
                           gs_nextId := gs_nextId s + 1\<rparr>
                    else s)
         else spawnLoop (if boss then lc_bossWeights cfg else lc_weights cfg) boss speed s)"

definition spawnInLane :: "Weights \<Rightarrow> rat \<Rightarrow> GameState \<times> Lane \<Rightarrow> GameState \<times> Lane" where
  "spawnInLane weights speed sl =
     (case sl of (s, l) \<Rightarrow> case roll s of ((kind, y, gap), s) \<Rightarrow>
        (s\<lparr>gs_nextId := gs_nextId s + 1\<rparr>,
         l\<lparr>ln_entities :=
              ln_entities l @ [spawn (chooseKind weights kind) (gs_nextId s) LANE_SPAWN_X y],
           ln_nextSpawnAt := fadd (ln_nextSpawnAt l)
             (fmul (fadd MIN_GAP (fmul gap GAP_RANGE)) (fdiv speed 4))\<rparr>))"

partial_function (option) laneLoop ::
  "Weights \<Rightarrow> rat \<Rightarrow> GameState \<times> Lane \<Rightarrow> (GameState \<times> Lane) option" where
  "laneLoop weights speed sl =
     (if ln_nextSpawnAt (snd sl) \<le> gs_scroll (fst sl)
      then laneLoop weights speed (spawnInLane weights speed sl) else Some sl)"

declare laneLoop.simps [code]

fun eachLane :: "Weights \<Rightarrow> rat \<Rightarrow> GameState \<Rightarrow> Lane list \<Rightarrow> (GameState \<times> Lane list) option" where
  "eachLane weights speed s [] = Some (s, [])"
| "eachLane weights speed s (l # ls) =
     do { (s, l) \<leftarrow> laneLoop weights speed (s, l);
          (s, ls) \<leftarrow> eachLane weights speed s ls;
          Some (s, l # ls) }"

definition spawnLanes :: "GameState \<Rightarrow> LevelConfig \<Rightarrow> rat \<Rightarrow> GameState option" where
  "spawnLanes s cfg speed =
     (case gs_fan s of
        None \<Rightarrow> Some s
      | Some fan \<Rightarrow>
          if fmul (of_int (fan_until fan - gs_tick s)) speed
               \<le> fadd (fsub LANE_SPAWN_X PLAYER_X) FAN_CLEAR_PX then Some s
          else do { (s, ls) \<leftarrow> eachLane (lc_laneWeights cfg) speed s (fan_lanes fan);
                    Some (s\<lparr>gs_fan := Some (fan\<lparr>fan_lanes := ls\<rparr>)\<rparr>) })"

section \<open>Fan-out and fan-in\<close>

definition enterGate :: "GameState \<Rightarrow> LevelConfig \<Rightarrow> HistoryEvent list \<Rightarrow> GameState \<times> HistoryEvent list" where
  "enterGate s cfg events =
     (case (find (\<lambda>e. ent_kind e = Fanout) (gs_entities s), lc_fanOut cfg) of
        (Some gate, Some f) \<Rightarrow>
          if PLAYER_X < ent_x gate then (s, events)
          else (s\<lparr>gs_fan := Some \<lparr>fan_until = gs_tick s + fo_ticks f,
                   fan_lanes = replicate FAN_LANES
                     \<lparr>ln_player = gs_player s, ln_entities = [],
                      ln_nextSpawnAt = fadd (gs_scroll s) FAN_CLEAR_PX, ln_coins = 0\<rparr>\<rparr>,
                 gs_entities := []\<rparr>,
                events @ [FanOut (gs_tick s) 0])
      | _ \<Rightarrow> (s, events))"

definition fanIn :: "GameState \<Rightarrow> LevelConfig \<Rightarrow> HistoryEvent list \<Rightarrow> GameState \<times> HistoryEvent list" where
  "fanIn s cfg events =
     (case gs_fan s of
        None \<Rightarrow> (s, events)
      | Some fan \<Rightarrow>
          (s\<lparr>gs_player := ln_player (fan_lanes fan ! MERGE_LANE), gs_entities := [], gs_fan := None,
             gs_nextGateAt :=
               (case lc_fanOut cfg of
                  None \<Rightarrow> Infinity
                | Some f \<Rightarrow> Px (fadd (fadd (gs_distance s) (gs_scroll s)) (fo_everyPx f))),
             gs_nextSpawnAt := fadd (gs_scroll s) FAN_CLEAR_PX\<rparr>,
           events @ [FanIn (gs_tick s) 0 (map ln_coins (fan_lanes fan))]))"

section \<open>Collisions\<close>

text \<open>
  What the callback of \<open>collide\<close> reads and writes while it walks one track: the state, the hat of the
  track, the coins of its lane (unused on the main track), \<open>hitDone\<close>, the events and the world.
\<close>

record 'w Collision =
  co_s :: GameState
  co_p :: Player
  co_coins :: int
  co_hitDone :: bool
  co_events :: "HistoryEvent list"
  co_w :: 'w

definition pickup ::
  "LevelConfig \<Rightarrow> 'w Ports \<Rightarrow> bool \<Rightarrow> Entity \<Rightarrow> 'w Collision \<Rightarrow> Entity \<times> 'w Collision" where
  "pickup cfg ports isLane e c =
     (let s = co_s c; e' = e\<lparr>ent_taken := True\<rparr> in
      if ent_kind e = Coin then
        (e', c\<lparr>co_s := s\<lparr>gs_score := gs_score s + gs_multiplier s,
                 gs_shield := (if lc_shieldEnabled cfg then min SHIELD_FULL (gs_shield s + 1)
                               else gs_shield s)\<rparr>,
               co_coins := (if isLane then co_coins c + 1 else co_coins c),
               co_events := co_events c @ [ActivityCoinCollected (gs_tick s) (ent_id e) 0]\<rparr>)
      else if ent_kind e = Orb then
        (case impure ports (co_w c) of (v, w) \<Rightarrow>
          (e', c\<lparr>co_s := boost (s\<lparr>gs_rng := mix (gs_rng s) v\<rparr>), co_w := w,
                 co_events := co_events c @ [OrbTaken (gs_tick s) (ent_id e) 0]\<rparr>))
      else
        (case crateValue ports (ent_id e) (co_w c) of (result, w) \<Rightarrow>
           let s' = boost (s\<lparr>gs_rng := mix (gs_rng s) result\<rparr>) in
           (e', c\<lparr>co_s := s'\<lparr>gs_score := gs_score s' + gs_multiplier s'\<rparr>, co_w := w,
                  co_events := co_events c
                    @ [ActivityCrateCollected (gs_tick s) (ent_id e) 0 result]\<rparr>)))"

definition collideEntity ::
  "LevelConfig \<Rightarrow> 'w Ports \<Rightarrow> bool \<Rightarrow> Box \<Rightarrow> Box \<Rightarrow> Entity \<Rightarrow> 'w Collision \<Rightarrow> Entity \<times> 'w Collision" where
  "collideEntity cfg ports isLane box hazardBox e c =
     (if gs_status (co_s c) \<noteq> Running then (e, c)
      else if ent_taken e \<or> ent_kind e = Pit \<or> ent_kind e = Fanout then (e, c)
      else let rack = RACKS (ent_kind e) in
        if \<not> overlaps (if rack then hazardBox else box) (boxOf e) then (e, c)
        else if rack then
          if co_hitDone c then (e, c)
          else (case resolveHit cfg (co_s c) (co_p c) (Some e) False (co_events c) of
                  (s, p, r, evs) \<Rightarrow>
                    ((case r of None \<Rightarrow> e | Some e' \<Rightarrow> e'),
                     c\<lparr>co_s := s, co_p := p, co_events := evs, co_hitDone := True\<rparr>))
        else pickup cfg ports isLane e c)"

fun collideEntities ::
  "LevelConfig \<Rightarrow> 'w Ports \<Rightarrow> bool \<Rightarrow> Box \<Rightarrow> Box \<Rightarrow> Entity list \<Rightarrow> 'w Collision
    \<Rightarrow> Entity list \<times> 'w Collision" where
  "collideEntities cfg ports isLane box hazardBox [] c = ([], c)"
| "collideEntities cfg ports isLane box hazardBox (e # es) c =
     (case collideEntity cfg ports isLane box hazardBox e c of (e, c) \<Rightarrow>
      case collideEntities cfg ports isLane box hazardBox es c of (es, c) \<Rightarrow> (e # es, c))"

definition playerBox :: "Player \<Rightarrow> Box" where
  "playerBox p =
     (let height = (if pl_sliding p \<and> GROUND_Y \<le> pl_y p then SLIDE_H else PLAYER_H)
      in \<lparr>bx_x = PLAYER_X, bx_y = fsub (pl_y p) height, bx_w = PLAYER_W, bx_h = height\<rparr>)"

definition insetBox :: "Box \<Rightarrow> Box" where
  "insetBox b = b\<lparr>bx_x := fadd (bx_x b) HAZARD_INSET_X, bx_w := fsub (bx_w b) (2 * HAZARD_INSET_X)\<rparr>"

definition collideTrack ::
  "LevelConfig \<Rightarrow> 'w Ports \<Rightarrow> bool \<Rightarrow> Entity list \<Rightarrow> 'w Collision \<Rightarrow> Entity list \<times> 'w Collision" where
  "collideTrack cfg ports isLane es c =
     (let p = co_p c; box = playerBox p; hazardBox = insetBox box;
          c = (if \<not> co_hitDone c \<and> GROUND_Y + PIT_HIT_DEPTH \<le> pl_y p
               then (case resolveHit cfg (co_s c) p None True (co_events c) of
                       (s, p, r, evs) \<Rightarrow>
                         c\<lparr>co_s := s, co_p := p, co_events := evs, co_hitDone := True\<rparr>)
               else c)
      in collideEntities cfg ports isLane box hazardBox es c)"

fun collideLanes :: "LevelConfig \<Rightarrow> 'w Ports \<Rightarrow> Lane list \<Rightarrow> 'w Collision \<Rightarrow> Lane list \<times> 'w Collision" where
  "collideLanes cfg ports [] c = ([], c)"
| "collideLanes cfg ports (l # ls) c =
     (case collideTrack cfg ports True (ln_entities l)
             (c\<lparr>co_p := ln_player l, co_coins := ln_coins l\<rparr>) of (es, c) \<Rightarrow>
      let l = l\<lparr>ln_player := co_p c, ln_entities := es, ln_coins := co_coins c\<rparr> in
      case collideLanes cfg ports ls c of (ls, c) \<Rightarrow> (l # ls, c))"

definition collide ::
  "GameState \<Rightarrow> LevelConfig \<Rightarrow> 'w Ports \<Rightarrow> HistoryEvent list \<Rightarrow> 'w
    \<Rightarrow> GameState \<times> HistoryEvent list \<times> 'w" where
  "collide s cfg ports events w =
     (let c = \<lparr>co_s = s, co_p = gs_player s, co_coins = 0, co_hitDone = False, co_events = events,
               co_w = w\<rparr> in
      case gs_fan s of
        None \<Rightarrow>
          (case collideTrack cfg ports False (gs_entities s) c of (es, c) \<Rightarrow>
             ((co_s c)\<lparr>gs_player := co_p c, gs_entities := es\<rparr>, co_events c, co_w c))
      | Some fan \<Rightarrow>
          (case collideLanes cfg ports (fan_lanes fan) c of (ls, c) \<Rightarrow>
             ((co_s c)\<lparr>gs_fan := Some (fan\<lparr>fan_lanes := ls\<rparr>)\<rparr>, co_events c, co_w c)))"

section \<open>One tick\<close>

definition expireBoost :: "GameState \<Rightarrow> GameState" where
  "expireBoost s =
     (if 1 < gs_multiplier s \<and> gs_multUntil s \<le> gs_tick s then s\<lparr>gs_multiplier := 1\<rparr> else s)"

fun runtimeInput :: "GameState \<Rightarrow> InputKind \<Rightarrow> GameState" where
  "runtimeInput s Resume = s\<lparr>gs_graceUntil := max (gs_graceUntil s) (gs_tick s + GRACE_RESUME)\<rparr>"
| "runtimeInput s Retry =
     s\<lparr>gs_retries := max 0 (gs_retries s - 1),
       gs_graceUntil := max (gs_graceUntil s) (gs_tick s + GRACE_RETRY)\<rparr>"
| "runtimeInput s (Key k) = s"

definition stepMove :: "GameState \<Rightarrow> InputKind list \<Rightarrow> LevelConfig \<Rightarrow> GameState" where
  "stepMove s inputs cfg =
     (let s = foldl runtimeInput (expireBoost s) inputs;
          s = mapTracks (\<lambda>p es. (movePlayer p inputs (gs_tick s) es, es)) s;
          speed = speedAt cfg (gs_elapsed s);
          s = s\<lparr>gs_scroll := fadd (gs_scroll s) speed\<rparr>
      in mapTracks (\<lambda>p es. (p, scrollTrack speed es)) s)"

definition stepSpawn :: "GameState \<Rightarrow> LevelConfig \<Rightarrow> (GameState \<times> HistoryEvent list) option" where
  "stepSpawn s cfg =
     (let speed = speedAt cfg (gs_elapsed s) in
      case gs_fan s of
        Some _ \<Rightarrow> do { s \<leftarrow> spawnLanes s cfg speed; Some (s, []) }
      | None \<Rightarrow> do { s \<leftarrow> spawnMain s cfg speed; Some (enterGate s cfg []) })"

definition stepFinish ::
  "GameState \<Rightarrow> LevelConfig \<Rightarrow> HistoryEvent list \<Rightarrow> GameState \<times> HistoryEvent list" where
  "stepFinish s cfg events =
     (let (s, events) =
            (case gs_fan s of
               Some fan \<Rightarrow> if gs_status s = Running \<and> fan_until fan \<le> gs_tick s + 1
                           then fanIn s cfg events else (s, events)
             | None \<Rightarrow> (s, events));
          s = (if gs_status s = Running \<and> gs_fan s = None
                  \<and> reached (fadd (gs_distance s) (gs_scroll s)) (lc_length cfg)
               then s\<lparr>gs_status := LevelDone\<rparr> else s)
      in (s\<lparr>gs_tick := gs_tick s + 1, gs_elapsed := gs_elapsed s + 1\<rparr>, events))"

fun withHash :: "u32 \<Rightarrow> HistoryEvent \<Rightarrow> HistoryEvent" where
  "withHash h (ActivityCoinCollected t i _) = ActivityCoinCollected t i h"
| "withHash h (ActivityCrateCollected t i _ r) = ActivityCrateCollected t i h r"
| "withHash h (OrbTaken t i _) = OrbTaken t i h"
| "withHash h (CircuitBreakerTripped t i _) = CircuitBreakerTripped t i h"
| "withHash h (BoostLost t i _) = BoostLost t i h"
| "withHash h (FanOut t _) = FanOut t h"
| "withHash h (FanIn t _ rs) = FanIn t h rs"
| "withHash h e = e"

definition step ::
  "GameState \<Rightarrow> InputKind list \<Rightarrow> 'w Ports \<Rightarrow> LevelTable \<Rightarrow> 'w
    \<Rightarrow> (GameState \<times> HistoryEvent list \<times> 'w) option" where
  "step prev inputs ports levels w =
     (if gs_status prev \<noteq> Running then Some (prev, [], w)
      else
        let cfg = levels (gs_level prev) in
        do { (s, events) \<leftarrow> stepSpawn (stepMove prev inputs cfg) cfg;
             let (s, events, w) = collide s cfg ports events w;
                 (s, events) = stepFinish s cfg events
             in Some (s, map (withHash (hashState s)) events, w) })"

end
