(* ===== verification/EngineFacts.thy ===== *)
theory EngineFacts
  imports EngineStep
begin

text \<open>
  What one tick of the engine depends on and what it leaves alone. \<open>core\<close> and \<open>clock\<close> are the parts of
  the state no collision and no spawn writes. The events of a tick determine the calls it made on its
  ports (\<open>callsOf\<close>); \<open>step_explained\<close> shows that any other ports giving the same answers reproduce the
  tick exactly, which is what replaying a history rests on.
\<close>

section \<open>What a tick leaves alone\<close>

definition core :: "GameState \<Rightarrow> Level \<times> int \<times> int \<times> rat \<times> rat \<times> rat \<times> int \<times> int \<times> limit \<times> int" where
  "core s = (gs_level s, gs_tick s, gs_elapsed s, gs_scroll s, gs_distance s, gs_nextSpawnAt s,
     gs_nextId s, gs_bossUntil s, gs_nextGateAt s, gs_retries s)"

lemma core_eqD:
  assumes "core s = core t"
  shows "gs_level s = gs_level t" "gs_tick s = gs_tick t" "gs_elapsed s = gs_elapsed t"
    "gs_scroll s = gs_scroll t" "gs_distance s = gs_distance t" "gs_nextSpawnAt s = gs_nextSpawnAt t"
    "gs_nextId s = gs_nextId t" "gs_bossUntil s = gs_bossUntil t" "gs_nextGateAt s = gs_nextGateAt t"
    "gs_retries s = gs_retries t"
  using assms by (simp_all add: core_def)

lemma resolveHit_core:
  assumes "resolveHit cfg s p r pit evs = (s', p', r', evs')"
  shows "core s' = core s" "gs_rng s' = gs_rng s" "gs_score s' = gs_score s"
    "gs_fan s' = gs_fan s" "gs_player s' = gs_player s" "gs_entities s' = gs_entities s"
  using assms by (auto simp: resolveHit_def core_def Let_def split: if_splits)

text \<open>The identity and the fate of an entity, which is all the bookkeeping of pickups looks at.\<close>

definition tag :: "Entity \<Rightarrow> int \<times> bool" where
  "tag e = (ent_id e, ent_taken e)"

definition outcome :: "HistoryEvent \<Rightarrow> bool" where
  "outcome e \<longleftrightarrow> (case e of Input _ _ \<Rightarrow> False | OrchestratorStarted _ \<Rightarrow> False | RetryAttempt _ _ _ \<Rightarrow> False | _ \<Rightarrow> True)"

lemma resolveHit_events:
  assumes "resolveHit cfg s p r pit evs = (s', p', r', evs')"
  obtains new where "evs' = evs @ new" "length new \<le> 1" "\<forall>e \<in> set new. outcome e \<and> ev_tick e = gs_tick s"
  using assms by (force simp: resolveHit_def outcome_def Let_def split: if_splits)


section \<open>The calls a tick makes on its ports\<close>

datatype Call = OrbCall | CrateCall int

fun callsOf :: "HistoryEvent list \<Rightarrow> Call list" where
  "callsOf [] = []"
| "callsOf (OrbTaken _ _ _ # es) = OrbCall # callsOf es"
| "callsOf (ActivityCrateCollected _ i _ _ # es) = CrateCall i # callsOf es"
| "callsOf (_ # es) = callsOf es"

fun orbsOf :: "HistoryEvent list \<Rightarrow> nat" where
  "orbsOf [] = 0"
| "orbsOf (OrbTaken _ _ _ # es) = Suc (orbsOf es)"
| "orbsOf (_ # es) = orbsOf es"

fun answersOf :: "HistoryEvent list \<Rightarrow> rat list \<Rightarrow> rat list" where
  "answersOf [] vs = []"
| "answersOf (OrbTaken _ _ _ # es) (v # vs) = v # answersOf es vs"
| "answersOf (OrbTaken _ _ _ # es) [] = 0 # answersOf es []"
| "answersOf (ActivityCrateCollected _ _ _ r # es) vs = r # answersOf es vs"
| "answersOf (_ # es) vs = answersOf es vs"

fun ask :: "'w Ports \<Rightarrow> Call list \<Rightarrow> 'w \<Rightarrow> rat list \<times> 'w" where
  "ask ports [] w = ([], w)"
| "ask ports (c # cs) w =
     (case (case c of OrbCall \<Rightarrow> impure ports w | CrateCall i \<Rightarrow> crateValue ports i w) of
        (v, w) \<Rightarrow> case ask ports cs w of (vs, w) \<Rightarrow> (v # vs, w))"

lemma callsOf_append [simp]: "callsOf (a @ b) = callsOf a @ callsOf b"
  by (induction a rule: callsOf.induct) auto

lemma orbsOf_append [simp]: "orbsOf (a @ b) = orbsOf a + orbsOf b"
  by (induction a rule: orbsOf.induct) auto

lemma answersOf_append:
  "length u = orbsOf a \<Longrightarrow> answersOf (a @ b) (u @ v) = answersOf a u @ answersOf b v"
  by (induction a u rule: answersOf.induct) auto

lemma length_answersOf [simp]: "length (answersOf es vs) = length (callsOf es)"
  by (induction es vs rule: answersOf.induct) auto

lemma ask_append:
  "ask p (a @ b) w = (let (x, w1) = ask p a w; (y, w2) = ask p b w1 in (x @ y, w2))"
  by (induction a arbitrary: w) (auto split: prod.splits)

lemma length_ask [simp]: "length (fst (ask p cs w)) = length cs"
proof (induction cs arbitrary: w)
  case (Cons c cs)
  then show ?case by (auto split: prod.splits) (metis fst_conv)
qed simp

lemma ask_splitD:
  assumes "length u = orbsOf a" "ask p (callsOf (a @ b)) w = (answersOf (a @ b) (u @ v), w')"
  shows "\<exists>wm. ask p (callsOf a) w = (answersOf a u, wm) \<and> ask p (callsOf b) wm = (answersOf b v, w')"
proof -
  obtain x w1 where 1: "ask p (callsOf a) w = (x, w1)" by force
  obtain y w2 where 2: "ask p (callsOf b) w1 = (y, w2)" by force
  have "x @ y = answersOf a u @ answersOf b v" "w2 = w'"
    using assms 1 2 by (simp_all add: ask_append answersOf_append)
  moreover have "length x = length (answersOf a u)" using 1 length_ask[of p "callsOf a" w] by simp
  ultimately show ?thesis using 1 2 by simp
qed

definition withWorld :: "'a Collision \<Rightarrow> 'b \<Rightarrow> 'b Collision" where
  "withWorld c w = \<lparr>co_s = co_s c, co_p = co_p c, co_coins = co_coins c, co_hitDone = co_hitDone c,
     co_events = co_events c, co_w = w\<rparr>"

lemma withWorld_simps [simp]:
  "co_s (withWorld c w) = co_s c" "co_p (withWorld c w) = co_p c"
  "co_coins (withWorld c w) = co_coins c" "co_hitDone (withWorld c w) = co_hitDone c"
  "co_events (withWorld c w) = co_events c" "co_w (withWorld c w) = w"
  by (simp_all add: withWorld_def)

lemma withWorld_id [simp]: "withWorld c (co_w c) = c"
  by (simp add: withWorld_def)

lemma withWorld_update [simp]:
  "(withWorld c w)\<lparr>co_s := s\<rparr> = withWorld (c\<lparr>co_s := s\<rparr>) w"
  "(withWorld c w)\<lparr>co_p := p\<rparr> = withWorld (c\<lparr>co_p := p\<rparr>) w"
  "(withWorld c w)\<lparr>co_coins := k\<rparr> = withWorld (c\<lparr>co_coins := k\<rparr>) w"
  "(withWorld c w)\<lparr>co_hitDone := b\<rparr> = withWorld (c\<lparr>co_hitDone := b\<rparr>) w"
  "(withWorld c w)\<lparr>co_events := e\<rparr> = withWorld (c\<lparr>co_events := e\<rparr>) w"
  "(withWorld c w)\<lparr>co_w := w'\<rparr> = withWorld c w'"
  "withWorld (c\<lparr>co_w := w''\<rparr>) w = withWorld c w"
  by (simp_all add: withWorld_def)

definition explained ::
  "'w Ports \<Rightarrow> 'w Collision \<Rightarrow> HistoryEvent list \<Rightarrow> rat list \<Rightarrow> 'w Collision \<Rightarrow> bool" where
  "explained p c new os c' \<longleftrightarrow>
     co_events c' = co_events c @ new \<and> length os = orbsOf new \<and>
     ask p (callsOf new) (co_w c) = (answersOf new os, co_w c') \<and>
     (\<forall>e \<in> set new. outcome e \<and> ev_tick e = gs_tick (co_s c)) \<and>
     core (co_s c') = core (co_s c) \<and> gs_fan (co_s c') = gs_fan (co_s c)"

lemma explained_length: "explained p c new os c' \<Longrightarrow> length os = orbsOf new"
  by (simp add: explained_def)

lemma explained_refl [simp]: "explained p c [] [] c"
  by (simp add: explained_def)

lemma explained_trans:
  assumes "explained p c n1 o1 c1" "explained p c1 n2 o2 c2"
  shows "explained p c (n1 @ n2) (o1 @ o2) c2"
  using assms by (auto simp: explained_def answersOf_append ask_append dest: core_eqD)

text \<open>
  A part \<open>f\<close> of the walk went from \<open>c\<close> to \<open>c'\<close> with the events \<open>new\<close> and the orb values \<open>os\<close>: any
  other ports that give the same answers reproduce it.
\<close>

definition reproduces ::
  "('b Ports \<Rightarrow> 'b Collision \<Rightarrow> 'x \<times> 'b Collision) \<Rightarrow> 'a Collision \<Rightarrow> HistoryEvent list \<Rightarrow> rat list
    \<Rightarrow> 'x \<Rightarrow> 'a Collision \<Rightarrow> bool" where
  "reproduces f c new os x c' \<longleftrightarrow>
     (\<forall>p w w'. ask p (callsOf new) w = (answersOf new os, w') \<longrightarrow>
        f p (withWorld c w) = (x, withWorld c' w'))"

lemma reproduces_bind:
  fixes f :: "'p Ports \<Rightarrow> 'p Collision \<Rightarrow> 'x \<times> 'p Collision"
  assumes "length o1 = orbsOf n1" "reproduces f c n1 o1 x c1" "reproduces g c1 n2 o2 y c2"
  shows "reproduces (\<lambda>p c. case f p c of (x, c) \<Rightarrow> case g p c of (y, c) \<Rightarrow> (h x y, c))
    c (n1 @ n2) (o1 @ o2) (h x y) c2"
  unfolding reproduces_def
proof (intro allI impI)
  fix p :: "'p Ports" and w w'
  assume "ask p (callsOf (n1 @ n2)) w = (answersOf (n1 @ n2) (o1 @ o2), w')"
  from ask_splitD[OF assms(1) this] obtain wm where
    "ask p (callsOf n1) w = (answersOf n1 o1, wm)" "ask p (callsOf n2) wm = (answersOf n2 o2, w')"
    by blast
  then have "f p (withWorld c w) = (x, withWorld c1 wm)" "g p (withWorld c1 wm) = (y, withWorld c2 w')"
    using assms by (simp_all add: reproduces_def)
  then show "(case f p (withWorld c w) of (x, c) \<Rightarrow> case g p c of (y, c) \<Rightarrow> (h x y, c))
    = (h x y, withWorld c2 w')" by simp
qed

lemma pickup_explained:
  assumes "pickup cfg p1 isLane e c = (e', c')"
  obtains new os where "explained p1 c new os c'"
    "reproduces (\<lambda>p2. pickup cfg p2 isLane e) c new os e' c'"
proof (cases "ent_kind e = Coin")
  case True
  then show ?thesis using assms
    by (intro that[of "[ActivityCoinCollected (gs_tick (co_s c)) (ent_id e) 0]" "[]"])
      (auto simp: pickup_def explained_def reproduces_def core_def outcome_def Let_def)
next
  case nc: False
  show ?thesis
  proof (cases "ent_kind e = Orb")
    case True
    obtain v w where i: "impure p1 (co_w c) = (v, w)" by force
    show ?thesis using assms True i
      by (intro that[of "[OrbTaken (gs_tick (co_s c)) (ent_id e) 0]" "[v]"])
        (auto simp: pickup_def explained_def reproduces_def core_def outcome_def boost_def Let_def
          split: prod.splits)
  next
    case False
    obtain v w where i: "crateValue p1 (ent_id e) (co_w c) = (v, w)" by force
    show ?thesis using assms False nc i
      by (intro that[of "[ActivityCrateCollected (gs_tick (co_s c)) (ent_id e) 0 v]" "[]"])
        (auto simp: pickup_def explained_def reproduces_def core_def outcome_def boost_def Let_def
          split: prod.splits)
  qed
qed

lemma resolveHit_explained:
  assumes "resolveHit cfg (co_s c) p r pit (co_events c) = (s', p', r', evs')"
  obtains new where "explained ports c new [] (c\<lparr>co_s := s', co_p := p', co_events := evs', co_hitDone := True\<rparr>)"
    "callsOf new = []"
  using assms by (auto simp: resolveHit_def explained_def core_def outcome_def Let_def split: if_splits)


definition untouched :: "Box \<Rightarrow> Box \<Rightarrow> Entity \<Rightarrow> 'w Collision \<Rightarrow> bool" where
  "untouched b hb e c \<longleftrightarrow>
     gs_status (co_s c) \<noteq> Running \<or> ent_taken e \<or> ent_kind e = Pit \<or> ent_kind e = Fanout
     \<or> \<not> overlaps (if RACKS (ent_kind e) then hb else b) (boxOf e) \<or> RACKS (ent_kind e) \<and> co_hitDone c"

lemma untouched_withWorld [simp]: "untouched b hb e (withWorld c w) = untouched b hb e c"
  by (simp add: untouched_def)

lemma collideEntity_untouched: "untouched b hb e c \<Longrightarrow> collideEntity cfg p isLane b hb e c = (e, c)"
  unfolding untouched_def collideEntity_def Let_def by argo

lemma collideEntity_rack:
  "\<not> untouched b hb e c \<Longrightarrow> RACKS (ent_kind e) \<Longrightarrow> collideEntity cfg p isLane b hb e c =
     (case resolveHit cfg (co_s c) (co_p c) (Some e) False (co_events c) of
        (s, p, r, evs) \<Rightarrow> ((case r of None \<Rightarrow> e | Some e' \<Rightarrow> e'),
           c\<lparr>co_s := s, co_p := p, co_events := evs, co_hitDone := True\<rparr>))"
  unfolding untouched_def collideEntity_def Let_def by simp

lemma collideEntity_pickup:
  "\<not> untouched b hb e c \<Longrightarrow> \<not> RACKS (ent_kind e) \<Longrightarrow>
     collideEntity cfg p isLane b hb e c = pickup cfg p isLane e c"
  unfolding untouched_def collideEntity_def Let_def by simp

lemma collideEntity_explained:
  assumes "collideEntity cfg p1 isLane b hb e c = (e', c')"
  obtains new os where "explained p1 c new os c'"
    "reproduces (\<lambda>p2 :: 'b Ports. collideEntity cfg p2 isLane b hb e) c new os e' c'"
proof -
  consider "untouched b hb e c" | "\<not> untouched b hb e c" "RACKS (ent_kind e)"
    | "\<not> untouched b hb e c" "\<not> RACKS (ent_kind e)" by blast
  then show thesis
  proof cases
    case 1
    then show thesis using assms
      by (intro that[of "[]" "[]"]) (auto simp: collideEntity_untouched reproduces_def)
  next
    case 2
    obtain s p r evs where h: "resolveHit cfg (co_s c) (co_p c) (Some e) False (co_events c) = (s, p, r, evs)"
      by (metis prod_cases4)
    obtain new where n: "explained p1 c new [] (c\<lparr>co_s := s, co_p := p, co_events := evs, co_hitDone := True\<rparr>)"
      "callsOf new = []" using resolveHit_explained[OF h, of p1] by blast
    then show thesis using 2 h assms
      by (intro that[of new "[]"]) (auto simp: collideEntity_rack reproduces_def)
  next
    case 3
    then have "pickup cfg p1 isLane e c = (e', c')" using assms by (simp add: collideEntity_pickup)
    then obtain new os where "explained p1 c new os c'"
      "reproduces (\<lambda>p2 :: 'b Ports. pickup cfg p2 isLane e) c new os e' c'"
      by (rule pickup_explained)
    then show thesis using 3
      by (intro that[of new os]) (auto simp: collideEntity_pickup reproduces_def)
  qed
qed

lemma collideEntities_explained:
  assumes "collideEntities cfg p1 isLane b hb es c = (es', c')"
  obtains new os where "explained p1 c new os c'"
    "reproduces (\<lambda>p2 :: 'b Ports. collideEntities cfg p2 isLane b hb es) c new os es' c'"
  using assms
proof (induction es arbitrary: c es' c' thesis)
  case Nil
  from Nil.prems(2) show ?case by (intro Nil.prems(1)[of "[]" "[]"]) (auto simp: reproduces_def)
next
  case (Cons e es)
  obtain e1 c1 where 1: "collideEntity cfg p1 isLane b hb e c = (e1, c1)" by force
  obtain es2 c2 where 2: "collideEntities cfg p1 isLane b hb es c1 = (es2, c2)" by force
  have r: "es' = e1 # es2" "c' = c2" using Cons.prems(2) 1 2 by simp_all
  from 1 obtain n1 o1 where s1: "explained p1 c n1 o1 c1"
    "reproduces (\<lambda>p2 :: 'b Ports. collideEntity cfg p2 isLane b hb e) c n1 o1 e1 c1"
    by (rule collideEntity_explained)
  from Cons.IH[OF _ 2] obtain n2 o2 where s2: "explained p1 c1 n2 o2 c2"
    "reproduces (\<lambda>p2 :: 'b Ports. collideEntities cfg p2 isLane b hb es) c1 n2 o2 es2 c2" by blast
  show ?case
  proof (rule Cons.prems(1))
    show "explained p1 c (n1 @ n2) (o1 @ o2) c'" using s1(1) s2(1) r(2) explained_trans by blast
    show "reproduces (\<lambda>p2 :: 'b Ports. collideEntities cfg p2 isLane b hb (e # es)) c (n1 @ n2)
        (o1 @ o2) es' c'"
      using reproduces_bind[OF explained_length[OF s1(1)] s1(2) s2(2), of Cons] by (simp add: r reproduces_def)
  qed
qed

lemma collideTrack_explained:
  assumes "collideTrack cfg p1 isLane es c = (es', c')"
  obtains new os where "explained p1 c new os c'"
    "reproduces (\<lambda>p2 :: 'b Ports. collideTrack cfg p2 isLane es) c new os es' c'"
proof -
  define b where "b = playerBox (co_p c)"
  let ?hit = "\<not> co_hitDone c \<and> GROUND_Y + PIT_HIT_DEPTH \<le> pl_y (co_p c)"
  obtain s p r evs where h: "resolveHit cfg (co_s c) (co_p c) None True (co_events c) = (s, p, r, evs)"
    by (metis prod_cases4)
  define c1 where "c1 = (if ?hit
    then c\<lparr>co_s := s, co_p := p, co_events := evs, co_hitDone := True\<rparr> else c)"
  have "\<exists>n1. explained p1 c n1 [] c1 \<and> callsOf n1 = []"
  proof (cases ?hit)
    case True
    then show ?thesis using resolveHit_explained[OF h, of p1] unfolding c1_def by auto
  next
    case False
    then have "c1 = c" unfolding c1_def by (rule if_not_P)
    then show ?thesis by (intro exI[of _ "[]"]) simp
  qed
  then obtain n1 where s1: "explained p1 c n1 [] c1" "callsOf n1 = []" by blast
  have ct: "collideTrack cfg p2 isLane es (withWorld c w) =
      collideEntities cfg p2 isLane b (insetBox b) es (withWorld c1 w)" for p2 :: "'c Ports" and w
    by (simp add: collideTrack_def b_def c1_def h Let_def)
  have "collideEntities cfg p1 isLane b (insetBox b) es c1 = (es', c')"
    using assms ct[of p1 "co_w c"] s1 by (simp add: explained_def)
  then obtain n2 o2 where s2: "explained p1 c1 n2 o2 c'"
    "reproduces (\<lambda>p2 :: 'b Ports. collideEntities cfg p2 isLane b (insetBox b) es) c1 n2 o2 es' c'"
    by (rule collideEntities_explained)
  show thesis
  proof (rule that)
    show "explained p1 c (n1 @ n2) ([] @ o2) c'" using explained_trans[OF s1(1) s2(1)] by simp
    have "answersOf (n1 @ n2) o2 = answersOf n2 o2"
      using answersOf_append[of "[]" n1 n2 o2] s1 length_answersOf[of n1 "[]"]
      by (simp add: explained_def)
    then show "reproduces (\<lambda>p2 :: 'b Ports. collideTrack cfg p2 isLane es) c (n1 @ n2) ([] @ o2) es' c'"
      using s2(2) s1(2) by (simp add: reproduces_def ct)
  qed
qed


lemma collideLanes_explained:
  assumes "collideLanes cfg p1 ls c = (ls', c')"
  obtains new os where "explained p1 c new os c'"
    "reproduces (\<lambda>p2 :: 'b Ports. collideLanes cfg p2 ls) c new os ls' c'"
  using assms
proof (induction ls arbitrary: c ls' c' thesis)
  case Nil
  from Nil.prems(2) show ?case by (intro Nil.prems(1)[of "[]" "[]"]) (auto simp: reproduces_def)
next
  case (Cons l ls)
  define c0 where "c0 = c\<lparr>co_p := ln_player l, co_coins := ln_coins l\<rparr>"
  obtain es1 c1 where 1: "collideTrack cfg p1 True (ln_entities l) c0 = (es1, c1)" by force
  obtain ls2 c2 where 2: "collideLanes cfg p1 ls c1 = (ls2, c2)" by force
  let ?l = "l\<lparr>ln_player := co_p c1, ln_entities := es1, ln_coins := co_coins c1\<rparr>"
  have r: "ls' = ?l # ls2" "c' = c2"
    using Cons.prems(2) 1 2 by (simp_all add: c0_def Let_def)
  from 1 obtain n1 o1 where s1: "explained p1 c0 n1 o1 c1"
    "reproduces (\<lambda>p2 :: 'b Ports. collideTrack cfg p2 True (ln_entities l)) c0 n1 o1 es1 c1"
    by (rule collideTrack_explained)
  from Cons.IH[OF _ 2] obtain n2 o2 where s2: "explained p1 c1 n2 o2 c2"
    "reproduces (\<lambda>p2 :: 'b Ports. collideLanes cfg p2 ls) c1 n2 o2 ls2 c2" by blast
  have e0: "explained p1 c n1 o1 c1" using s1(1) by (simp add: explained_def c0_def)
  have "reproduces (\<lambda>(p2 :: 'b Ports) c. case collideTrack cfg p2 True (ln_entities l)
        (c\<lparr>co_p := ln_player l, co_coins := ln_coins l\<rparr>) of (es, c) \<Rightarrow>
      (l\<lparr>ln_player := co_p c, ln_entities := es, ln_coins := co_coins c\<rparr>, c)) c n1 o1 ?l c1"
    using s1(2) by (auto simp: reproduces_def c0_def)
  from reproduces_bind[OF explained_length[OF s1(1)] this s2(2), of Cons]
  have "reproduces (\<lambda>p2 :: 'b Ports. collideLanes cfg p2 (l # ls)) c (n1 @ n2) (o1 @ o2) ls' c'"
    by (simp add: reproduces_def r Let_def split: prod.splits)
  moreover have "explained p1 c (n1 @ n2) (o1 @ o2) c'" using e0 s2(1) r(2) explained_trans by blast
  ultimately show ?case by (intro Cons.prems(1))
qed

section \<open>The calls of a whole tick\<close>

text \<open>
  The events of a tick, the answers its ports gave, and the replayability of the tick: any ports that
  give the same answers produce the same state and the same events.
\<close>

lemma collide_explained:
  assumes "collide s cfg p1 evs w = (s', evs', w')"
  obtains new os where "evs' = evs @ new" "length os = orbsOf new"
    "ask p1 (callsOf new) w = (answersOf new os, w')"
    "\<forall>e \<in> set new. outcome e \<and> ev_tick e = gs_tick s" "core s' = core s"
    "\<forall>(p2 :: 'b Ports) w2 w2'. ask p2 (callsOf new) w2 = (answersOf new os, w2') \<longrightarrow>
       collide s cfg p2 evs w2 = (s', evs', w2')"
proof -
  define c where "c = \<lparr>co_s = s, co_p = gs_player s, co_coins = 0, co_hitDone = False,
    co_events = evs, co_w = w\<rparr>"
  have cw: "\<lparr>co_s = s, co_p = gs_player s, co_coins = 0, co_hitDone = False,
    co_events = evs, co_w = w2\<rparr> = withWorld c w2" for w2 :: 'c by (simp add: c_def withWorld_def)
  show thesis
  proof (cases "gs_fan s")
    case None
    obtain es c' where t: "collideTrack cfg p1 False (gs_entities s) c = (es, c')" by force
    from t obtain new os where e: "explained p1 c new os c'"
      "reproduces (\<lambda>p2 :: 'b Ports. collideTrack cfg p2 False (gs_entities s)) c new os es c'"
      by (rule collideTrack_explained)
    have r: "s' = (co_s c')\<lparr>gs_player := co_p c', gs_entities := es\<rparr>" "evs' = co_events c'" "w' = co_w c'"
      using assms None t by (auto simp: collide_def c_def Let_def)
    show thesis
    proof (rule that[of new os])
      show "\<forall>(p2 :: 'b Ports) w2 w2'. ask p2 (callsOf new) w2 = (answersOf new os, w2') \<longrightarrow>
        collide s cfg p2 evs w2 = (s', evs', w2')"
        using e(2) None by (simp add: collide_def cw reproduces_def r Let_def)
    qed (use e(1) r in \<open>auto simp: explained_def c_def core_def\<close>)
  next
    case (Some fan)
    obtain ls c' where t: "collideLanes cfg p1 (fan_lanes fan) c = (ls, c')" by force
    from t obtain new os where e: "explained p1 c new os c'"
      "reproduces (\<lambda>p2 :: 'b Ports. collideLanes cfg p2 (fan_lanes fan)) c new os ls c'"
      by (rule collideLanes_explained)
    have r: "s' = (co_s c')\<lparr>gs_fan := Some (fan\<lparr>fan_lanes := ls\<rparr>)\<rparr>" "evs' = co_events c'" "w' = co_w c'"
      using assms Some t by (auto simp: collide_def c_def Let_def)
    show thesis
    proof (rule that[of new os])
      show "\<forall>(p2 :: 'b Ports) w2 w2'. ask p2 (callsOf new) w2 = (answersOf new os, w2') \<longrightarrow>
        collide s cfg p2 evs w2 = (s', evs', w2')"
        using e(2) Some by (simp add: collide_def cw reproduces_def r Let_def)
    qed (use e(1) r in \<open>auto simp: explained_def c_def core_def\<close>)
  qed
qed


lemma withHash_simps [simp]:
  "callsOf (map (withHash h) evs) = callsOf evs"
  "orbsOf (map (withHash h) evs) = orbsOf evs"
  "answersOf (map (withHash h) evs) vs = answersOf evs vs"
  "outcome (withHash h e) = outcome e" "ev_tick (withHash h e) = ev_tick e"
proof -
  show "callsOf (map (withHash h) evs) = callsOf evs"
    by (induction evs rule: callsOf.induct) auto
  show "orbsOf (map (withHash h) evs) = orbsOf evs"
    by (induction evs rule: orbsOf.induct) auto
  show "answersOf (map (withHash h) evs) vs = answersOf evs vs"
    by (induction evs vs rule: answersOf.induct) auto
  show "outcome (withHash h e) = outcome e" "ev_tick (withHash h e) = ev_tick e"
    by (cases e; simp add: outcome_def)+
qed

lemma withHash_hash: "outcome e \<Longrightarrow> ev_hash (withHash h e) = h"
  by (cases e) (simp_all add: outcome_def)

definition openLanes :: "GameState \<Rightarrow> FanOutConfig \<Rightarrow> GameState" where
  "openLanes s f = s\<lparr>gs_fan := Some \<lparr>fan_until = gs_tick s + fo_ticks f,
     fan_lanes = replicate FAN_LANES \<lparr>ln_player = gs_player s, ln_entities = [],
       ln_nextSpawnAt = fadd (gs_scroll s) FAN_CLEAR_PX, ln_coins = 0\<rparr>\<rparr>, gs_entities := []\<rparr>"

lemma enterGate_cases:
  obtains "enterGate s cfg evs = (s, evs)"
  | f where "lc_fanOut cfg = Some f"
      "enterGate s cfg evs = (openLanes s f, evs @ [FanOut (gs_tick s) 0])"
proof (cases "find (\<lambda>e. ent_kind e = Fanout) (gs_entities s)")
  case None
  then show ?thesis by (intro that(1)) (simp add: enterGate_def)
next
  case gate: (Some gate)
  show ?thesis
  proof (cases "lc_fanOut cfg")
    case None
    then show ?thesis by (intro that(1)) (simp add: enterGate_def gate)
  next
    case (Some f)
    show ?thesis
    proof (cases "PLAYER_X < ent_x gate")
      case True
      then show ?thesis by (intro that(1)) (simp add: enterGate_def gate Some)
    next
      case False
      then show ?thesis by (intro that(2)[OF Some]) (simp add: enterGate_def gate Some openLanes_def)
    qed
  qed
qed

lemma enterGate_events:
  assumes "enterGate s cfg evs = (s', evs')"
  obtains new where "evs' = evs @ new" "callsOf new = []" "orbsOf new = 0"
    "\<forall>e \<in> set new. outcome e \<and> ev_tick e = gs_tick s" "core s' = core s"
proof (rule enterGate_cases[of s cfg evs])
  assume "enterGate s cfg evs = (s, evs)"
  then show thesis using assms by (intro that[of "[]"]) auto
next
  fix f
  assume "enterGate s cfg evs = (openLanes s f, evs @ [FanOut (gs_tick s) 0])"
  then show thesis using assms
    by (intro that[of "[FanOut (gs_tick s) 0]"]) (auto simp: openLanes_def core_def outcome_def)
qed

lemma stepFinish_events:
  assumes "stepFinish s cfg evs = (s', evs')"
  obtains new where "evs' = evs @ new" "callsOf new = []" "orbsOf new = 0"
    "\<forall>e \<in> set new. outcome e \<and> ev_tick e = gs_tick s" "gs_tick s' = gs_tick s + 1"
    "gs_elapsed s' = gs_elapsed s + 1"
proof (cases "gs_fan s")
  case None
  then have "evs' = evs" "gs_tick s' = gs_tick s + 1" "gs_elapsed s' = gs_elapsed s + 1"
    using assms by (auto simp: stepFinish_def Let_def)
  then show thesis by (intro that[of "[]"]) simp_all
next
  case (Some fan)
  show thesis
  proof (cases "gs_status s = Running \<and> fan_until fan \<le> gs_tick s + 1")
    case True
    then have "evs' = evs @ [FanIn (gs_tick s) 0 (map ln_coins (fan_lanes fan))]"
      "gs_tick s' = gs_tick s + 1" "gs_elapsed s' = gs_elapsed s + 1"
      using assms Some by (auto simp: stepFinish_def fanIn_def Let_def)
    then show thesis
      by (intro that[of "[FanIn (gs_tick s) 0 (map ln_coins (fan_lanes fan))]"])
        (simp_all add: outcome_def)
  next
    case False
    then have "evs' = evs" "gs_tick s' = gs_tick s + 1" "gs_elapsed s' = gs_elapsed s + 1"
      using assms Some by (auto simp: stepFinish_def Let_def)
    then show thesis by (intro that[of "[]"]) simp_all
  qed
qed

lemma answersOf_no_calls:
  assumes "callsOf a = []" "orbsOf a = 0"
  shows "answersOf (a @ b) vs = answersOf b vs" "answersOf (b @ a) vs = answersOf b vs"
proof -
  have a: "answersOf a u = []" for u using assms(1) by (metis length_0_conv length_answersOf)
  show "answersOf (a @ b) vs = answersOf b vs"
    using answersOf_append[of "[]" a b vs] assms by (simp add: a)
  show "answersOf (b @ a) vs = answersOf b vs"
    by (induction b vs rule: answersOf.induct) (auto simp: a)
qed


text \<open>The fields no spawn and no move writes.\<close>

definition clock :: "GameState \<Rightarrow> Level \<times> int \<times> int \<times> rat \<times> int" where
  "clock s = (gs_level s, gs_tick s, gs_elapsed s, gs_distance s, gs_bossUntil s)"

lemma core_clock: "core s = core t \<Longrightarrow> clock s = clock t"
  by (simp add: core_def clock_def)

lemma spawnOne_clock [simp]: "clock (spawnOne ws b v s) = clock s" "gs_scroll (spawnOne ws b v s) = gs_scroll s"
  by (auto simp: spawnOne_def clock_def roll_def split: prod.splits)

lemma spawnLoop_clock:
  assumes "spawnLoop ws b v s = Some s'"
  shows "clock s' = clock s \<and> gs_scroll s' = gs_scroll s"
proof (rule spawnLoop.raw_induct[where P = "\<lambda>ws b v s s'. clock s' = clock s \<and> gs_scroll s' = gs_scroll s", OF _ assms])
  fix f ws b v s s'
  assume IH: "\<And>ws b v s s'. f ws b v s = Some s' \<Longrightarrow> clock s' = clock s \<and> gs_scroll s' = gs_scroll s"
    and eq: "(if gs_nextSpawnAt s \<le> gs_scroll s then f ws b v (spawnOne ws b v s) else Some s) = Some s'"
  show "clock s' = clock s \<and> gs_scroll s' = gs_scroll s"
    using eq IH[of ws b v "spawnOne ws b v s" s'] by (auto split: if_splits)
qed

lemma spawnInLane_clock [simp]:
  "clock (fst (spawnInLane ws v sl)) = clock (fst sl)" "gs_scroll (fst (spawnInLane ws v sl)) = gs_scroll (fst sl)"
  "gs_fan (fst (spawnInLane ws v sl)) = gs_fan (fst sl)"
  by (auto simp: spawnInLane_def clock_def roll_def split: prod.splits)

lemma laneLoop_clock:
  assumes "laneLoop ws v sl = Some sl'"
  shows "clock (fst sl') = clock (fst sl) \<and> gs_scroll (fst sl') = gs_scroll (fst sl)"
proof (rule laneLoop.raw_induct[where P = "\<lambda>ws v sl sl'. clock (fst sl') = clock (fst sl) \<and> gs_scroll (fst sl') = gs_scroll (fst sl)", OF _ assms])
  fix f ws v and sl sl' :: "GameState \<times> Lane"
  assume IH: "\<And>ws v sl sl'. f ws v sl = Some sl' \<Longrightarrow> clock (fst sl') = clock (fst sl) \<and> gs_scroll (fst sl') = gs_scroll (fst sl)"
    and eq: "(if ln_nextSpawnAt (snd sl) \<le> gs_scroll (fst sl) then f ws v (spawnInLane ws v sl) else Some sl) = Some sl'"
  show "clock (fst sl') = clock (fst sl) \<and> gs_scroll (fst sl') = gs_scroll (fst sl)"
    using eq IH[of ws v "spawnInLane ws v sl" sl'] by (auto split: if_splits)
qed

lemma eachLane_clock:
  "eachLane ws v s ls = Some (s', ls') \<Longrightarrow> clock s' = clock s \<and> gs_scroll s' = gs_scroll s \<and> length ls' = length ls"
proof (induction ls arbitrary: s s' ls')
  case (Cons l ls)
  then obtain s1 l1 ls1 where 1: "laneLoop ws v (s, l) = Some (s1, l1)"
    "eachLane ws v s1 ls = Some (s', ls1)" "ls' = l1 # ls1"
    by (auto simp: bind_eq_Some_conv)
  with Cons.IH[OF 1(2)] laneLoop_clock[OF 1(1)] show ?case by simp
qed simp

lemma stepSpawn_clock:
  assumes "stepSpawn s cfg = Some (s', evs)"
  shows "clock s' = clock s" "gs_scroll s' = gs_scroll s" "callsOf evs = []" "orbsOf evs = 0"
    "\<forall>e \<in> set evs. outcome e \<and> ev_tick e = gs_tick s"
proof -
  have "clock s' = clock s \<and> gs_scroll s' = gs_scroll s \<and> callsOf evs = [] \<and> orbsOf evs = 0 \<and>
    (\<forall>e \<in> set evs. outcome e \<and> ev_tick e = gs_tick s)"
  proof (cases "gs_fan s")
    case None
    then obtain s1 where 1: "spawnMain s cfg (speedAt cfg (gs_elapsed s)) = Some s1"
      "enterGate s1 cfg [] = (s', evs)"
      using assms by (auto simp: stepSpawn_def bind_eq_Some_conv Let_def)
    have c: "clock s1 = clock s" "gs_scroll s1 = gs_scroll s"
      using 1(1) spawnLoop_clock by (auto simp: spawnMain_def clock_def Let_def split: if_splits)
    show ?thesis
      using enterGate_events[OF 1(2)] c by (auto simp: clock_def core_def)
  next
    case (Some fan)
    then have "spawnLanes s cfg (speedAt cfg (gs_elapsed s)) = Some s'" "evs = []"
      using assms by (auto simp: stepSpawn_def bind_eq_Some_conv Let_def)
    then show ?thesis using Some
      by (auto simp: spawnLanes_def bind_eq_Some_conv clock_def split: if_splits dest!: eachLane_clock)
  qed
  then show "clock s' = clock s" "gs_scroll s' = gs_scroll s" "callsOf evs = []" "orbsOf evs = 0"
    "\<forall>e \<in> set evs. outcome e \<and> ev_tick e = gs_tick s" by auto
qed

lemma mapTracks_clock [simp]: "clock (mapTracks f s) = clock s" "gs_scroll (mapTracks f s) = gs_scroll s"
  by (auto simp: mapTracks_def clock_def split: option.splits prod.splits)

lemma runtimeInput_clock [simp]: "clock (runtimeInput s i) = clock s" "gs_scroll (runtimeInput s i) = gs_scroll s"
  by (cases i; simp add: clock_def)+

lemma runtimeInputs_clock [simp]:
  "clock (foldl runtimeInput s is) = clock s" "gs_scroll (foldl runtimeInput s is) = gs_scroll s"
  by (induction "is" arbitrary: s) simp_all

lemma expireBoost_clock [simp]: "clock (expireBoost s) = clock s" "gs_scroll (expireBoost s) = gs_scroll s"
  by (simp_all add: expireBoost_def clock_def)

lemma clock_eqD: "clock s = clock t \<Longrightarrow> gs_level s = gs_level t \<and> gs_tick s = gs_tick t
    \<and> gs_elapsed s = gs_elapsed t \<and> gs_distance s = gs_distance t \<and> gs_bossUntil s = gs_bossUntil t"
  by (simp add: clock_def)

lemma clock_scroll [simp]: "clock (s\<lparr>gs_scroll := x\<rparr>) = clock s"
  by (simp add: clock_def)

lemma stepMove_clock [simp]: "clock (stepMove s is cfg) = clock s"
  by (simp add: stepMove_def Let_def)

lemma stepMove_scroll: "gs_scroll (stepMove s is cfg) = fadd (gs_scroll s) (speedAt cfg (gs_elapsed s))"
proof -
  have "gs_elapsed (mapTracks f (foldl runtimeInput (expireBoost s) is)) = gs_elapsed s" for f
    using clock_eqD[of "mapTracks f (foldl runtimeInput (expireBoost s) is)" s] by simp
  then show ?thesis by (simp add: stepMove_def Let_def)
qed


lemma step_stages:
  assumes "step s is p L w = Some (s', evs, w')" "gs_status s = Running"
  obtains s1 e1 s2 e2 e3 where
    "stepSpawn (stepMove s is (L (gs_level s))) (L (gs_level s)) = Some (s1, e1)"
    "collide s1 (L (gs_level s)) p e1 w = (s2, e2, w')"
    "stepFinish s2 (L (gs_level s)) e2 = (s', e3)" "evs = map (withHash (hashState s')) e3"
proof -
  let ?cfg = "L (gs_level s)"
  obtain s1 e1 where 1: "stepSpawn (stepMove s is ?cfg) ?cfg = Some (s1, e1)"
    using assms by (cases "stepSpawn (stepMove s is ?cfg) ?cfg") (auto simp: step_def)
  obtain s2 e2 w2 where 2: "collide s1 ?cfg p e1 w = (s2, e2, w2)" by (rule prod_cases3)
  obtain s3 e3 where 3: "stepFinish s2 ?cfg e2 = (s3, e3)" by force
  have "s3 = s'" "map (withHash (hashState s3)) e3 = evs" "w2 = w'"
    using assms by (auto simp: step_def 1 2 3)
  then show thesis using 1 2 3 by (intro that[of s1 e1 s2 e2 e3]) auto
qed

lemma step_stopped: "gs_status s \<noteq> Running \<Longrightarrow> step s is p L w = Some (s, [], w)"
  by (simp add: step_def)

lemma step_explained:
  assumes "step s is p1 L w = Some (s', evs, w')" "gs_status s = Running"
  obtains os where "length os = orbsOf evs" "ask p1 (callsOf evs) w = (answersOf evs os, w')"
    "\<forall>e \<in> set evs. outcome e \<and> ev_tick e = gs_tick s \<and> ev_hash e = hashState s'"
    "gs_tick s' = gs_tick s + 1" "gs_elapsed s' = gs_elapsed s + 1"
    "\<forall>(p2 :: 'b Ports) w2 w2'. ask p2 (callsOf evs) w2 = (answersOf evs os, w2') \<longrightarrow>
       step s is p2 L w2 = Some (s', evs, w2')"
proof -
  let ?cfg = "L (gs_level s)"
  from assms obtain s1 e1 s2 e2 e3 where
    sp: "stepSpawn (stepMove s is ?cfg) ?cfg = Some (s1, e1)" and
    co: "collide s1 ?cfg p1 e1 w = (s2, e2, w')" and
    fi: "stepFinish s2 ?cfg e2 = (s', e3)" and ev: "evs = map (withHash (hashState s')) e3"
    by (rule step_stages)
  note c1 = stepSpawn_clock[OF sp]
  have t1: "gs_tick s1 = gs_tick s" "gs_elapsed s1 = gs_elapsed s"
    using clock_eqD[OF c1(1)] clock_eqD[OF stepMove_clock[of s "is" ?cfg]] by simp_all
  from co obtain n2 os where 2: "e2 = e1 @ n2" "length os = orbsOf n2"
    "ask p1 (callsOf n2) w = (answersOf n2 os, w')"
    "\<forall>e \<in> set n2. outcome e \<and> ev_tick e = gs_tick s1" "core s2 = core s1"
    "\<forall>(p2 :: 'b Ports) w2 w2'. ask p2 (callsOf n2) w2 = (answersOf n2 os, w2') \<longrightarrow>
       collide s1 ?cfg p2 e1 w2 = (s2, e2, w2')"
    by (rule collide_explained)
  from fi obtain n3 where 3: "e3 = e2 @ n3" "callsOf n3 = []" "orbsOf n3 = 0"
    "\<forall>e \<in> set n3. outcome e \<and> ev_tick e = gs_tick s2" "gs_tick s' = gs_tick s2 + 1"
    "gs_elapsed s' = gs_elapsed s2 + 1" by (rule stepFinish_events)
  have t2: "gs_tick s2 = gs_tick s" "gs_elapsed s2 = gs_elapsed s"
    using core_eqD[OF 2(5)] t1 by simp_all
  have calls: "callsOf evs = callsOf n2" "orbsOf evs = orbsOf n2" "answersOf evs os = answersOf n2 os"
    using 2(1) 3 c1 by (simp_all add: ev answersOf_no_calls)
  show thesis
  proof (rule that[of os])
    show "\<forall>e \<in> set evs. outcome e \<and> ev_tick e = gs_tick s \<and> ev_hash e = hashState s'"
      using 2(1,4) 3(1,4) c1(5) t1 t2 clock_eqD[OF stepMove_clock[of s "is" ?cfg]]
      by (auto simp: ev withHash_hash)
    show "\<forall>(p2 :: 'b Ports) w2 w2'. ask p2 (callsOf evs) w2 = (answersOf evs os, w2') \<longrightarrow>
        step s is p2 L w2 = Some (s', evs, w2')"
      using assms(2) sp fi 2(6) calls by (simp add: step_def ev Let_def)
  qed (use 2 3 t2 calls in simp_all)
qed

end
