(* ===== verification/EngineIds.thy ===== *)
theory EngineIds
  imports EngineFacts "HOL-Library.Multiset"
begin

text \<open>
  The identity of entities. Every entity gets the next id of its segment, so a pickup in the history
  names one entity for good: an id is collected at most once. The bookkeeping is a multiset: the ids
  of the entities still on a track, \<open>live\<close>, only ever lose ids to pickups and gain fresh ones.
\<close>

definition untaken :: "Entity list \<Rightarrow> int multiset" where
  "untaken es = mset (map ent_id (filter (\<lambda>e. \<not> ent_taken e) es))"

definition live :: "GameState \<Rightarrow> int multiset" where
  "live s = (case gs_fan s of None \<Rightarrow> untaken (gs_entities s)
                            | Some f \<Rightarrow> untaken (concat (map ln_entities (fan_lanes f))))"

fun pickupIds :: "HistoryEvent list \<Rightarrow> int list" where
  "pickupIds [] = []"
| "pickupIds (ActivityCoinCollected _ i _ # es) = i # pickupIds es"
| "pickupIds (ActivityCrateCollected _ i _ _ # es) = i # pickupIds es"
| "pickupIds (OrbTaken _ i _ # es) = i # pickupIds es"
| "pickupIds (_ # es) = pickupIds es"

lemma pickupIds_append [simp]: "pickupIds (a @ b) = pickupIds a @ pickupIds b"
  by (induction a rule: pickupIds.induct) auto

lemma pickupIds_withHash [simp]: "pickupIds (map (withHash h) evs) = pickupIds evs"
  by (induction evs rule: pickupIds.induct) auto

lemma pickupIds_inputs: "\<forall>e \<in> set evs. \<not> outcome e \<Longrightarrow> pickupIds evs = []"
  by (induction evs rule: pickupIds.induct) (auto simp: outcome_def)

lemma untaken_simps [simp]: "untaken [] = {#}" "untaken (es @ fs) = untaken es + untaken fs"
  by (simp_all add: untaken_def)

lemma untaken_Cons: "untaken (e # es) = untaken [e] + untaken es"
  by (simp add: untaken_def)

lemma live_cong: "gs_fan s = gs_fan t \<Longrightarrow> gs_entities s = gs_entities t \<Longrightarrow> live s = live t"
  by (simp add: live_def split: option.split)

section \<open>Movement and scrolling\<close>

lemma updateFalling_tag [simp]:
  "ent_id (updateFalling e v) = ent_id e" "ent_taken (updateFalling e v) = ent_taken e"
  by (simp_all add: updateFalling_def Let_def)

lemma untaken_filter: "untaken (filter P es) \<subseteq># untaken es"
  unfolding untaken_def mset_map mset_filter
  by (intro image_mset_subseteq_mono multiset_filter_mono multiset_filter_subset)

lemma untaken_map:
  assumes "\<And>e. ent_id (f e) = ent_id e" "\<And>e. ent_taken (f e) = ent_taken e"
  shows "untaken (map f es) = untaken es"
  using assms by (induction es) (auto simp: untaken_def)

lemma untaken_scrollTrack: "untaken (scrollTrack v es) \<subseteq># untaken es"
proof -
  have "untaken (map (\<lambda>e. updateFalling (e\<lparr>ent_x := fsub (ent_x e) v\<rparr>) v) es) = untaken es"
    by (rule untaken_map) simp_all
  then show ?thesis unfolding scrollTrack_def by (rule subst) (rule untaken_filter)
qed

lemma untaken_lanes_mono:
  assumes "\<And>l. untaken (ln_entities (f l)) \<subseteq># untaken (ln_entities l)"
  shows "untaken (concat (map (ln_entities \<circ> f) ls)) \<subseteq># untaken (concat (map ln_entities ls))"
  using assms by (induction ls) (auto intro!: subset_mset.add_mono)

lemma mapTracks_live:
  assumes "\<And>p es. untaken (snd (f p es)) \<subseteq># untaken es"
  shows "live (mapTracks f s) \<subseteq># live s" "gs_nextId (mapTracks f s) = gs_nextId s"
proof -
  have "untaken (ln_entities (case f (ln_player l) (ln_entities l) of (p, es) \<Rightarrow> l\<lparr>ln_player := p, ln_entities := es\<rparr>))
      \<subseteq># untaken (ln_entities l)" for l
    using assms[of "ln_player l" "ln_entities l"] by (auto split: prod.splits)
  then show "live (mapTracks f s) \<subseteq># live s"
    using assms[of "gs_player s" "gs_entities s"]
    by (auto simp: mapTracks_def live_def intro!: untaken_lanes_mono split: option.splits prod.splits)
  show "gs_nextId (mapTracks f s) = gs_nextId s"
    by (auto simp: mapTracks_def split: option.splits prod.splits)
qed

lemma runtimeInputs_live:
  "live (foldl runtimeInput s is) = live s \<and> gs_nextId (foldl runtimeInput s is) = gs_nextId s"
proof (induction "is" arbitrary: s)
  case (Cons i "is")
  have "live (runtimeInput s i) = live s \<and> gs_nextId (runtimeInput s i) = gs_nextId s"
    by (cases i) (auto intro: live_cong)
  then show ?case using Cons by simp
qed simp

lemma stepMove_live: "live (stepMove s is cfg) \<subseteq># live s" "gs_nextId (stepMove s is cfg) = gs_nextId s"
proof -
  define s0 where "s0 = foldl runtimeInput (expireBoost s) is"
  define s1 where "s1 = mapTracks (\<lambda>p es. (movePlayer p is (gs_tick s0) es, es)) s0"
  have 0: "live s0 = live s" "gs_nextId s0 = gs_nextId s"
    using runtimeInputs_live[of "expireBoost s" "is"] by (auto simp: s0_def expireBoost_def intro: live_cong)
  have 1: "live s1 \<subseteq># live s0" "gs_nextId s1 = gs_nextId s0"
    unfolding s1_def by (rule mapTracks_live; simp)+
  have 2: "live (s1\<lparr>gs_scroll := x\<rparr>) = live s1" for x by (rule live_cong) simp_all
  show "live (stepMove s is cfg) \<subseteq># live s"
    unfolding stepMove_def Let_def s0_def[symmetric] s1_def[symmetric]
    by (rule subset_mset.order_trans[OF mapTracks_live(1)]) (use 0 1 2 untaken_scrollTrack in simp_all)
  show "gs_nextId (stepMove s is cfg) = gs_nextId s"
    unfolding stepMove_def Let_def s0_def[symmetric] s1_def[symmetric]
    using 0 1 by (subst mapTracks_live(2)) (auto simp: untaken_scrollTrack)
qed

section \<open>Spawning\<close>

text \<open>What a stretch of the tick may do with ids: drop some, and add the fresh ones it counted.\<close>

definition fresh :: "int \<Rightarrow> int \<Rightarrow> int multiset" where
  "fresh a b = mset [a..b - 1]"

lemma fresh_refl [simp]: "fresh a a = {#}"
  by (simp add: fresh_def)

lemma fresh_Suc: "fresh a (a + 1) = {#a#}"
  by (simp add: fresh_def)

lemma fresh_trans: "a \<le> b \<Longrightarrow> b \<le> c \<Longrightarrow> fresh a c = fresh a b + fresh b c"
proof -
  assume "a \<le> b" "b \<le> c"
  then have "[a..c - 1] = [a..b - 1] @ [b..c - 1]"
    by (cases "b = c") (simp_all add: upto_split1)
  then show ?thesis by (simp add: fresh_def)
qed

lemma set_fresh: "i \<in># fresh a b \<longleftrightarrow> a \<le> i \<and> i < b"
  by (auto simp: fresh_def)

lemma fresh_count: "count (fresh a b) i \<le> 1"
  using distinct_count_atmost_1[of "[a..b - 1]"] by (simp add: fresh_def)

definition accounts :: "GameState \<Rightarrow> GameState \<Rightarrow> bool" where
  "accounts s s' \<longleftrightarrow> gs_nextId s \<le> gs_nextId s' \<and> live s' \<subseteq># live s + fresh (gs_nextId s) (gs_nextId s')"

lemma accounts_refl [simp]: "accounts s s"
  by (simp add: accounts_def)

lemma accounts_trans:
  assumes "accounts s t" "accounts t u"
  shows "accounts s u"
proof -
  have "live u \<subseteq># live t + fresh (gs_nextId t) (gs_nextId u)" using assms by (simp add: accounts_def)
  also have "\<dots> \<subseteq># live s + fresh (gs_nextId s) (gs_nextId t) + fresh (gs_nextId t) (gs_nextId u)"
    using assms by (simp add: accounts_def)
  finally show ?thesis using assms fresh_trans[of "gs_nextId s" "gs_nextId t" "gs_nextId u"]
    by (simp add: accounts_def add.assoc)
qed

lemma untaken_spawn [simp]: "untaken [spawn k i x y] = {#i#}" "untaken [gateEntity i] = {#i#}"
  by (simp_all add: untaken_def spawn_def gateEntity_def)

lemma spawnOne_accounts:
  assumes "gs_fan s = None"
  shows "accounts s (spawnOne ws b v s)" "gs_fan (spawnOne ws b v s) = None"
  using assms by (auto simp: spawnOne_def roll_def accounts_def live_def fresh_Suc split: prod.splits)

lemma spawnLoop_accounts:
  assumes "spawnLoop ws b v s = Some s'" "gs_fan s = None"
  shows "accounts s s' \<and> gs_fan s' = None"
proof -
  have "gs_fan s = None \<longrightarrow> accounts s s' \<and> gs_fan s' = None"
  proof (rule spawnLoop.raw_induct[where P = "\<lambda>ws b v s s'. gs_fan s = None \<longrightarrow> accounts s s' \<and> gs_fan s' = None", OF _ assms(1)])
    fix f ws b v s s'
    assume IH: "\<And>ws b v s s'. f ws b v s = Some s' \<Longrightarrow> gs_fan s = None \<longrightarrow> accounts s s' \<and> gs_fan s' = None"
      and eq: "(if gs_nextSpawnAt s \<le> gs_scroll s then f ws b v (spawnOne ws b v s) else Some s) = Some s'"
    show "gs_fan s = None \<longrightarrow> accounts s s' \<and> gs_fan s' = None"
      using eq IH[of ws b v "spawnOne ws b v s" s'] spawnOne_accounts[of s ws b v] accounts_trans
      by (auto split: if_splits)
  qed
  then show ?thesis using assms(2) by simp
qed

lemma spawnMain_accounts:
  assumes "spawnMain s cfg v = Some s'" "gs_fan s = None"
  shows "accounts s s' \<and> gs_fan s' = None"
proof -
  let ?gate = "s\<lparr>gs_entities := gs_entities s @ [gateEntity (gs_nextId s)], gs_nextId := gs_nextId s + 1\<rparr>"
  have "accounts s ?gate" using assms(2) by (simp add: accounts_def live_def fresh_Suc)
  then show ?thesis using assms spawnLoop_accounts
    by (auto simp: spawnMain_def Let_def split: if_splits)
qed

lemma enterGate_accounts:
  assumes "enterGate s cfg evs = (s', evs')" "gs_fan s = None"
  shows "accounts s s'" "pickupIds evs' = pickupIds evs"
proof -
  have "accounts s s' \<and> pickupIds evs' = pickupIds evs"
    by (rule enterGate_cases[of s cfg evs])
      (use assms in \<open>auto simp: openLanes_def accounts_def live_def numeral_2_eq_2\<close>)
  then show "accounts s s'" "pickupIds evs' = pickupIds evs" by auto
qed

text \<open>A lane spawns on its own list while the state keeps the counter.\<close>

definition laneAccounts :: "GameState \<times> Lane \<Rightarrow> GameState \<times> Lane \<Rightarrow> bool" where
  "laneAccounts sl sl' \<longleftrightarrow> gs_nextId (fst sl) \<le> gs_nextId (fst sl') \<and>
     untaken (ln_entities (snd sl'))
       \<subseteq># untaken (ln_entities (snd sl)) + fresh (gs_nextId (fst sl)) (gs_nextId (fst sl'))"

lemma spawnInLane_accounts: "laneAccounts sl (spawnInLane ws v sl)"
  by (auto simp: spawnInLane_def roll_def laneAccounts_def fresh_Suc split: prod.splits)

lemma laneAccounts_trans:
  assumes "laneAccounts a b" "laneAccounts b c"
  shows "laneAccounts a c"
proof -
  let ?n = "\<lambda>x. gs_nextId (fst x)" and ?u = "\<lambda>x. untaken (ln_entities (snd x))"
  have "?u c \<subseteq># ?u b + fresh (?n b) (?n c)" using assms by (simp add: laneAccounts_def)
  also have "\<dots> \<subseteq># ?u a + fresh (?n a) (?n b) + fresh (?n b) (?n c)"
    using assms by (simp add: laneAccounts_def)
  finally show ?thesis using assms fresh_trans[of "?n a" "?n b" "?n c"]
    by (simp add: laneAccounts_def add.assoc)
qed

lemma laneLoop_accounts:
  assumes "laneLoop ws v sl = Some sl'"
  shows "laneAccounts sl sl'"
proof (rule laneLoop.raw_induct[where P = "\<lambda>ws v sl sl'. laneAccounts sl sl'", OF _ assms])
  fix f ws v and sl sl' :: "GameState \<times> Lane"
  assume IH: "\<And>ws v sl sl'. f ws v sl = Some sl' \<Longrightarrow> laneAccounts sl sl'"
    and eq: "(if ln_nextSpawnAt (snd sl) \<le> gs_scroll (fst sl) then f ws v (spawnInLane ws v sl) else Some sl) = Some sl'"
  show "laneAccounts sl sl'"
  proof (cases "ln_nextSpawnAt (snd sl) \<le> gs_scroll (fst sl)")
    case True
    then have "laneAccounts (spawnInLane ws v sl) sl'" using eq IH by simp
    then show ?thesis using spawnInLane_accounts laneAccounts_trans by blast
  next
    case False
    then show ?thesis using eq by (simp add: laneAccounts_def)
  qed
qed

lemma eachLane_accounts:
  assumes "eachLane ws v s ls = Some (s', ls')"
  shows "gs_nextId s \<le> gs_nextId s' \<and> untaken (concat (map ln_entities ls'))
     \<subseteq># untaken (concat (map ln_entities ls)) + fresh (gs_nextId s) (gs_nextId s')"
  using assms
proof (induction ls arbitrary: s s' ls')
  case (Cons l ls)
  then obtain s1 l1 ls1 where 1: "laneLoop ws v (s, l) = Some (s1, l1)"
    "eachLane ws v s1 ls = Some (s', ls1)" "ls' = l1 # ls1"
    by (auto simp: bind_eq_Some_conv)
  note a = laneLoop_accounts[OF 1(1), unfolded laneAccounts_def, simplified] and b = Cons.IH[OF 1(2)]
  have f: "fresh (gs_nextId s) (gs_nextId s') = fresh (gs_nextId s) (gs_nextId s1) + fresh (gs_nextId s1) (gs_nextId s')"
    using a b fresh_trans by blast
  have "untaken (ln_entities l1) + untaken (concat (map ln_entities ls1))
      \<subseteq># (untaken (ln_entities l) + fresh (gs_nextId s) (gs_nextId s1))
        + (untaken (concat (map ln_entities ls)) + fresh (gs_nextId s1) (gs_nextId s'))"
    using a b by (intro subset_mset.add_mono) auto
  then show ?case using a b 1(3) by (simp add: f ac_simps)
qed simp

lemma spawnLanes_accounts:
  assumes "spawnLanes s cfg v = Some s'" "gs_fan s = Some fan"
  shows "accounts s s'"
proof (cases "fmul (of_int (fan_until fan - gs_tick s)) v \<le> fadd (fsub LANE_SPAWN_X PLAYER_X) FAN_CLEAR_PX")
  case False
  then obtain s1 ls where "eachLane (lc_laneWeights cfg) v s (fan_lanes fan) = Some (s1, ls)"
    "s' = s1\<lparr>gs_fan := Some (fan\<lparr>fan_lanes := ls\<rparr>)\<rparr>"
    using assms by (auto simp: spawnLanes_def bind_eq_Some_conv)
  with eachLane_accounts[OF this(1)] assms(2) show ?thesis by (simp add: accounts_def live_def)
qed (use assms in \<open>auto simp: spawnLanes_def\<close>)

lemma stepSpawn_accounts:
  assumes "stepSpawn s cfg = Some (s', evs)"
  shows "accounts s s'" "pickupIds evs = []"
proof -
  have "accounts s s' \<and> pickupIds evs = []"
  proof (cases "gs_fan s")
    case None
    then obtain s1 where 1: "spawnMain s cfg (speedAt cfg (gs_elapsed s)) = Some s1"
      "enterGate s1 cfg [] = (s', evs)"
      using assms by (auto simp: stepSpawn_def bind_eq_Some_conv Let_def)
    from spawnMain_accounts[OF 1(1) None] enterGate_accounts[OF 1(2)] show ?thesis
      using accounts_trans by auto
  next
    case (Some fan)
    with assms show ?thesis
      by (auto simp: stepSpawn_def bind_eq_Some_conv Let_def intro: spawnLanes_accounts)
  qed
  then show "accounts s s'" "pickupIds evs = []" by auto
qed

section \<open>Collisions\<close>

text \<open>What is on the track and what has been picked up, together, never grows.\<close>

definition settled :: "Entity list \<Rightarrow> 'w Collision \<Rightarrow> int multiset" where
  "settled es c = untaken es + mset (pickupIds (co_events c))"

lemma pickup_settled:
  assumes "pickup cfg ports isLane e c = (e', c')" "\<not> ent_taken e"
  shows "settled [e'] c' = settled [e] c"
  using assms by (auto simp: pickup_def settled_def untaken_def Let_def split: if_splits prod.splits)

lemma resolveHit_pickups:
  assumes "resolveHit cfg s p r pit evs = (s', p', r', evs')"
  shows "pickupIds evs' = pickupIds evs" "r' = r \<or> r' = map_option (\<lambda>e. e\<lparr>ent_taken := True\<rparr>) r"
  using assms by (auto simp: resolveHit_def Let_def split: if_splits)

lemma collideEntity_settled:
  assumes "collideEntity cfg ports isLane b hb e c = (e', c')"
  shows "settled [e'] c' \<subseteq># settled [e] c"
proof -
  consider "untouched b hb e c" | "\<not> untouched b hb e c" "RACKS (ent_kind e)"
    | "\<not> untouched b hb e c" "\<not> RACKS (ent_kind e)" by blast
  then show ?thesis
  proof cases
    case 2
    obtain s p r evs where h: "resolveHit cfg (co_s c) (co_p c) (Some e) False (co_events c) = (s, p, r, evs)"
      by (metis prod_cases4)
    then show ?thesis using assms 2 resolveHit_pickups[OF h]
      by (auto simp: collideEntity_rack settled_def untaken_def)
  next
    case 3
    then have "\<not> ent_taken e" by (simp add: untouched_def)
    then show ?thesis using 3 assms pickup_settled[of cfg ports isLane e c e' c']
      by (simp add: collideEntity_pickup)
  qed (use assms in \<open>simp add: collideEntity_untouched\<close>)
qed

lemma settled_Cons: "settled (e # es) c = untaken [e] + settled es c"
  by (simp add: settled_def untaken_Cons[of e es] ac_simps)

lemma collideEntities_settled:
  assumes "collideEntities cfg ports isLane b hb es c = (es', c')"
  shows "settled es' c' \<subseteq># settled es c"
  using assms
proof (induction es arbitrary: c es' c')
  case (Cons e es)
  obtain e1 c1 where 1: "collideEntity cfg ports isLane b hb e c = (e1, c1)" by force
  obtain es2 c2 where 2: "collideEntities cfg ports isLane b hb es c1 = (es2, c2)" by force
  have "settled (e1 # es2) c2 \<subseteq># untaken [e1] + settled es c1"
    using Cons.IH[OF 2] by (simp add: settled_Cons)
  also have "\<dots> = settled [e1] c1 + untaken es" by (simp add: settled_def ac_simps)
  also have "\<dots> \<subseteq># settled [e] c + untaken es" using collideEntity_settled[OF 1] by simp
  also have "\<dots> = settled (e # es) c" by (simp add: settled_def untaken_Cons[of e es] ac_simps)
  finally show ?case using Cons.prems 1 2 by simp
qed simp

lemma collideTrack_settled:
  assumes "collideTrack cfg ports isLane es c = (es', c')"
  shows "settled es' c' \<subseteq># settled es c"
proof -
  obtain s p r evs where h: "resolveHit cfg (co_s c) (co_p c) None True (co_events c) = (s, p, r, evs)"
    by (metis prod_cases4)
  have "settled es (c\<lparr>co_s := s, co_p := p, co_events := evs, co_hitDone := True\<rparr>) = settled es c"
    using resolveHit_pickups[OF h] by (simp add: settled_def)
  then show ?thesis using assms h
    by (auto simp: collideTrack_def Let_def dest!: collideEntities_settled split: if_splits)
qed

lemma collideLanes_settled:
  assumes "collideLanes cfg ports ls c = (ls', c')"
  shows "settled (concat (map ln_entities ls')) c' \<subseteq># settled (concat (map ln_entities ls)) c"
  using assms
proof (induction ls arbitrary: c ls' c')
  case (Cons l ls)
  define c0 where "c0 = c\<lparr>co_p := ln_player l, co_coins := ln_coins l\<rparr>"
  let ?all = "\<lambda>ls. concat (map ln_entities ls)"
  obtain es1 c1 where 1: "collideTrack cfg ports True (ln_entities l) c0 = (es1, c1)" by force
  obtain ls2 c2 where 2: "collideLanes cfg ports ls c1 = (ls2, c2)" by force
  have r: "?all ls' = es1 @ ?all ls2" "c' = c2"
    using Cons.prems 1 2 by (auto simp: c0_def Let_def)
  have "settled (?all ls') c' = untaken es1 + settled (?all ls2) c2"
    by (simp add: r settled_def ac_simps)
  also have "\<dots> \<subseteq># untaken es1 + settled (?all ls) c1" using Cons.IH[OF 2] by simp
  also have "\<dots> = settled es1 c1 + untaken (?all ls)" by (simp add: settled_def ac_simps)
  also have "\<dots> \<subseteq># settled (ln_entities l) c0 + untaken (?all ls)" using collideTrack_settled[OF 1] by simp
  also have "\<dots> = settled (?all (l # ls)) c" by (simp add: settled_def c0_def ac_simps)
  finally show ?case .
qed simp

lemma collide_settled:
  assumes "collide s cfg ports evs w = (s', evs', w')"
  shows "live s' + mset (pickupIds evs') \<subseteq># live s + mset (pickupIds evs)" "gs_nextId s' = gs_nextId s"
proof -
  define c where "c = \<lparr>co_s = s, co_p = gs_player s, co_coins = 0, co_hitDone = False, co_events = evs, co_w = w\<rparr>"
  show "live s' + mset (pickupIds evs') \<subseteq># live s + mset (pickupIds evs)"
  proof (cases "gs_fan s")
    case None
    obtain es c' where t: "collideTrack cfg ports False (gs_entities s) c = (es, c')" by force
    then have r: "s' = (co_s c')\<lparr>gs_player := co_p c', gs_entities := es\<rparr>" "evs' = co_events c'"
      using assms None by (auto simp: collide_def c_def Let_def)
    have "gs_fan (co_s c') = gs_fan s"
      by (rule collideTrack_explained[OF t]) (simp add: explained_def c_def)
    then show ?thesis using collideTrack_settled[OF t] None
      by (simp add: r live_def settled_def c_def)
  next
    case (Some fan)
    obtain ls c' where t: "collideLanes cfg ports (fan_lanes fan) c = (ls, c')" by force
    then have r: "s' = (co_s c')\<lparr>gs_fan := Some (fan\<lparr>fan_lanes := ls\<rparr>)\<rparr>" "evs' = co_events c'"
      using assms Some by (auto simp: collide_def c_def Let_def)
    show ?thesis using collideLanes_settled[OF t] Some by (simp add: r live_def settled_def c_def)
  qed
  show "gs_nextId s' = gs_nextId s"
    by (rule collide_explained[OF assms]) (simp add: core_def)
qed

section \<open>One tick\<close>

lemma stepFinish_live:
  assumes "stepFinish s cfg evs = (s', evs')"
  shows "live s' \<subseteq># live s" "gs_nextId s' = gs_nextId s" "pickupIds evs' = pickupIds evs"
  using assms
  by (auto simp: stepFinish_def fanIn_def live_def Let_def split: option.splits if_splits)

theorem step_ids:
  assumes "step s is p L w = Some (s', evs, w')"
  shows "gs_nextId s \<le> gs_nextId s'"
    "live s' + mset (pickupIds evs) \<subseteq># live s + fresh (gs_nextId s) (gs_nextId s')"
proof -
  have "gs_nextId s \<le> gs_nextId s' \<and>
    live s' + mset (pickupIds evs) \<subseteq># live s + fresh (gs_nextId s) (gs_nextId s')"
  proof (cases "gs_status s = Running")
    case True
    from assms True obtain s1 e1 s2 e2 e3 where
      sp: "stepSpawn (stepMove s is (L (gs_level s))) (L (gs_level s)) = Some (s1, e1)" and
      co: "collide s1 (L (gs_level s)) p e1 w = (s2, e2, w')" and
      fi: "stepFinish s2 (L (gs_level s)) e2 = (s', e3)" and ev: "evs = map (withHash (hashState s')) e3"
      by (rule step_stages)
    note m = stepMove_live[of s "is" "L (gs_level s)"] and a = stepSpawn_accounts[OF sp]
      and c = collide_settled[OF co] and f = stepFinish_live[OF fi]
    have n: "gs_nextId s' = gs_nextId s1" using c f by simp
    have "live s' + mset (pickupIds evs) \<subseteq># live s2 + mset (pickupIds e2)" using f by (simp add: ev)
    also have "\<dots> \<subseteq># live s1" using c(1) a(2) by simp
    also have "\<dots> \<subseteq># live (stepMove s is (L (gs_level s))) + fresh (gs_nextId s) (gs_nextId s')"
      using a(1) m(2) n by (simp add: accounts_def)
    also have "\<dots> \<subseteq># live s + fresh (gs_nextId s) (gs_nextId s')" using m(1) by simp
    finally show ?thesis using a(1) m(2) n by (simp add: accounts_def)
  qed (use assms in \<open>simp add: step_stopped\<close>)
  then show "gs_nextId s \<le> gs_nextId s'"
    "live s' + mset (pickupIds evs) \<subseteq># live s + fresh (gs_nextId s) (gs_nextId s')" by auto
qed

end
