(* ===== verification/EngineProgress.thy ===== *)
theory EngineProgress
  imports EngineFacts
begin

text \<open>
  Every tick returns. The spawn loops run while \<open>scroll >= nextSpawnAt\<close>, so they end because each
  round moves \<open>nextSpawnAt\<close> ahead by at least 83 px, which holds in double arithmetic as long as
  distances stay below \<open>2^52\<close>. A segment scrolls at most 9 px a tick, so that covers \<open>2^48\<close> ticks, more
  than a hundred thousand years of play at 60 Hz.
\<close>

abbreviation TICK_LIMIT :: int where "TICK_LIMIT \<equiv> 2 ^ 48"

definition lanesPaced :: "GameState \<Rightarrow> bool" where
  "lanesPaced s \<longleftrightarrow>
     (case gs_fan s of None \<Rightarrow> True | Some f \<Rightarrow> \<forall>l \<in> set (fan_lanes f). 0 \<le> ln_nextSpawnAt l)"

definition paced :: "GameState \<Rightarrow> bool" where
  "paced s \<longleftrightarrow> 0 \<le> gs_tick s \<and> 0 \<le> gs_elapsed s \<and> 0 \<le> gs_scroll s \<and> gs_scroll s \<le> of_int (9 * gs_tick s)
     \<and> 0 \<le> gs_nextSpawnAt s \<and> lanesPaced s"

lemma initialState_paced: "0 \<le> si_elapsed start \<Longrightarrow> paced (initialState start L)"
  by (simp add: paced_def initialState_def lanesPaced_def)

section \<open>The gap between spawns\<close>

lemma rnd_quarters: "\<bar>m\<bar> \<le> 2 ^ 53 \<Longrightarrow> rnd (of_int m / 4) = of_int m / 4"
  using rnd_exact[of m "-2"] by (simp add: power_int_minus field_simps)

lemma fmul_ge: "of_int k \<le> x * y \<Longrightarrow> \<bar>k\<bar> \<le> 2 ^ 53 \<Longrightarrow> of_int k \<le> fmul x y"
  by (simp add: fmul_def rnd_ge_int)

lemma BOSS_GAP_SCALE_ge: "3 / 4 \<le> BOSS_GAP_SCALE"
  using rnd_mono[of "3 / 4" "4 / 5"] rnd_quarters[of 3] by (simp add: BOSS_GAP_SCALE_def)

lemma quarterSpeed_ge: "3 \<le> v \<Longrightarrow> 3 / 4 \<le> fdiv v 4"
  using rnd_mono[of "3 / 4" "v / 4"] rnd_quarters[of 3] by (simp add: fdiv_def)

lemma minGap_ge: "0 \<le> g \<Longrightarrow> 150 \<le> fadd MIN_GAP (fmul g GAP_RANGE)"
  using rnd_ge_int[of 150 "150 + fmul g 130"] fmul_nonneg[of g 130] by (simp add: fadd_def)

lemma gap_ge:
  assumes "0 \<le> g" "3 \<le> v"
  shows "112 \<le> fmul (fadd MIN_GAP (fmul g GAP_RANGE)) (fdiv v 4)"
proof -
  have "(112::rat) \<le> 150 * (3 / 4)" by simp
  also have "\<dots> \<le> fadd MIN_GAP (fmul g GAP_RANGE) * fdiv v 4"
    using minGap_ge[OF assms(1)] quarterSpeed_ge[OF assms(2)] by (intro mult_mono) auto
  finally show ?thesis using fmul_ge[of 112] by simp
qed

lemma spawnGap_ge:
  assumes "0 \<le> g" "3 \<le> v" "3 / 4 \<le> c"
  shows "84 \<le> spawnGap g c v"
proof -
  have "(112::rat) \<le> 150 * (3 / 4)" by simp
  also have "\<dots> \<le> fadd MIN_GAP (fmul g GAP_RANGE) * c"
    using minGap_ge[OF assms(1)] assms(3) by (intro mult_mono) auto
  finally have "112 \<le> fmul (fadd MIN_GAP (fmul g GAP_RANGE)) c" using fmul_ge[of 112] by simp
  then have "112 * (3 / 4) \<le> fmul (fadd MIN_GAP (fmul g GAP_RANGE)) c * fdiv v 4"
    using quarterSpeed_ge[OF assms(2)] by (intro mult_mono) auto
  then show ?thesis using fmul_ge[of 84] by (simp add: spawnGap_def)
qed

lemma advance_83:
  assumes "84 \<le> g" "0 \<le> a" "a \<le> 2 ^ 52"
  shows "a + 83 < fadd a g"
  using fadd_progress[of 84 g a] assms by simp

section \<open>The spawn loops end\<close>

lemma roll_gap:
  assumes "roll s = ((k, y, g), s')"
  shows "0 \<le> g" "s' = s\<lparr>gs_rng := gs_rng s'\<rparr>"
  using assms nextRandom_range by (auto simp: roll_def split: prod.splits) (metis snd_conv)

lemma spawnOne_progress:
  assumes "3 \<le> v" "0 \<le> gs_nextSpawnAt s" "gs_nextSpawnAt s \<le> 2 ^ 52"
  shows "gs_nextSpawnAt s + 83 < gs_nextSpawnAt (spawnOne ws b v s)"
proof -
  obtain k y g s' where r: "roll s = ((k, y, g), s')" by (metis prod_cases3 surj_pair)
  have "84 \<le> spawnGap g (if b then BOSS_GAP_SCALE else 1) v"
    using roll_gap(1)[OF r] assms(1) BOSS_GAP_SCALE_ge by (intro spawnGap_ge) auto
  moreover have "gs_nextSpawnAt s' = gs_nextSpawnAt s"
    by (subst roll_gap(2)[OF r]) simp
  ultimately show ?thesis using advance_83 assms by (simp add: spawnOne_def r)
qed

lemma spawnOne_fan [simp]: "gs_fan (spawnOne ws b v s) = gs_fan s"
  by (auto simp: spawnOne_def roll_def split: prod.splits)

lemma spawnLoop_ends:
  assumes "3 \<le> v" "0 \<le> gs_nextSpawnAt s" "gs_scroll s \<le> 2 ^ 52"
  shows "\<exists>s'. spawnLoop ws b v s = Some s' \<and> 0 \<le> gs_nextSpawnAt s' \<and> gs_fan s' = gs_fan s"
  using assms
proof (induction "nat \<lceil>gs_scroll s - gs_nextSpawnAt s + 1\<rceil>" arbitrary: s rule: less_induct)
  case less
  show ?case
  proof (cases "gs_nextSpawnAt s \<le> gs_scroll s")
    case True
    let ?t = "spawnOne ws b v s"
    have p: "gs_nextSpawnAt s + 83 < gs_nextSpawnAt ?t"
      using less.prems True by (intro spawnOne_progress) auto
    have "gs_scroll s - gs_nextSpawnAt ?t + 1 \<le> gs_scroll s - gs_nextSpawnAt s + 1 - 1" using p by simp
    then have "\<lceil>gs_scroll s - gs_nextSpawnAt ?t + 1\<rceil> \<le> \<lceil>gs_scroll s - gs_nextSpawnAt s + 1\<rceil> - 1"
      by (metis ceiling_diff_one ceiling_mono)
    moreover have "0 < \<lceil>gs_scroll s - gs_nextSpawnAt s + 1\<rceil>" using True by simp
    ultimately have "nat \<lceil>gs_scroll ?t - gs_nextSpawnAt ?t + 1\<rceil> < nat \<lceil>gs_scroll s - gs_nextSpawnAt s + 1\<rceil>"
      by simp
    from less.hyps[OF this] show ?thesis
      using less.prems p True by (simp add: spawnLoop.simps[of ws b v s])
  next
    case False
    then show ?thesis using less.prems by (simp add: spawnLoop.simps[of ws b v s])
  qed
qed

lemma spawnInLane_progress:
  assumes "3 \<le> v" "0 \<le> ln_nextSpawnAt (snd sl)" "ln_nextSpawnAt (snd sl) \<le> 2 ^ 52"
  shows "ln_nextSpawnAt (snd sl) + 83 < ln_nextSpawnAt (snd (spawnInLane ws v sl))"
proof -
  obtain s l where sl: "sl = (s, l)" by force
  obtain k y g s' where r: "roll s = ((k, y, g), s')" by (metis prod_cases3 surj_pair)
  have "84 \<le> fmul (fadd MIN_GAP (fmul g GAP_RANGE)) (fdiv v 4)"
    using gap_ge[OF roll_gap(1)[OF r] assms(1)] by simp
  then show ?thesis using advance_83 assms by (simp add: spawnInLane_def r sl)
qed

lemma laneLoop_ends:
  assumes "3 \<le> v" "0 \<le> ln_nextSpawnAt (snd sl)" "gs_scroll (fst sl) \<le> 2 ^ 52"
  shows "\<exists>sl'. laneLoop ws v sl = Some sl' \<and> 0 \<le> ln_nextSpawnAt (snd sl')"
  using assms
proof (induction "nat \<lceil>gs_scroll (fst sl) - ln_nextSpawnAt (snd sl) + 1\<rceil>" arbitrary: sl rule: less_induct)
  case less
  show ?case
  proof (cases "ln_nextSpawnAt (snd sl) \<le> gs_scroll (fst sl)")
    case True
    let ?t = "spawnInLane ws v sl"
    have p: "ln_nextSpawnAt (snd sl) + 83 < ln_nextSpawnAt (snd ?t)"
      using less.prems True by (intro spawnInLane_progress) auto
    have "gs_scroll (fst sl) - ln_nextSpawnAt (snd ?t) + 1
        \<le> gs_scroll (fst sl) - ln_nextSpawnAt (snd sl) + 1 - 1" using p by simp
    then have "\<lceil>gs_scroll (fst sl) - ln_nextSpawnAt (snd ?t) + 1\<rceil>
        \<le> \<lceil>gs_scroll (fst sl) - ln_nextSpawnAt (snd sl) + 1\<rceil> - 1"
      by (metis ceiling_diff_one ceiling_mono)
    moreover have "0 < \<lceil>gs_scroll (fst sl) - ln_nextSpawnAt (snd sl) + 1\<rceil>" using True by simp
    ultimately have "nat \<lceil>gs_scroll (fst ?t) - ln_nextSpawnAt (snd ?t) + 1\<rceil>
        < nat \<lceil>gs_scroll (fst sl) - ln_nextSpawnAt (snd sl) + 1\<rceil>" by simp
    from less.hyps[OF this] show ?thesis
      using less.prems p True by (simp add: laneLoop.simps[of ws v sl])
  next
    case False
    then show ?thesis using less.prems by (simp add: laneLoop.simps[of ws v sl])
  qed
qed

lemma eachLane_ends:
  assumes "3 \<le> v" "gs_scroll s \<le> 2 ^ 52" "\<forall>l \<in> set ls. 0 \<le> ln_nextSpawnAt l"
  shows "\<exists>s' ls'. eachLane ws v s ls = Some (s', ls') \<and> (\<forall>l \<in> set ls'. 0 \<le> ln_nextSpawnAt l)"
  using assms
proof (induction ls arbitrary: s)
  case (Cons l ls)
  from Cons.prems laneLoop_ends[of v "(s, l)" ws] obtain s1 l1
    where 1: "laneLoop ws v (s, l) = Some (s1, l1)" "0 \<le> ln_nextSpawnAt l1" by auto
  have "gs_scroll s1 \<le> 2 ^ 52" using laneLoop_clock[OF 1(1)] Cons.prems by simp
  with Cons obtain s2 ls2 where "eachLane ws v s1 ls = Some (s2, ls2)" "\<forall>l \<in> set ls2. 0 \<le> ln_nextSpawnAt l"
    by fastforce
  with 1 show ?case by simp
qed simp

lemma spawnInLane_nextSpawnAt [simp]:
  "gs_nextSpawnAt (fst (spawnInLane ws v sl)) = gs_nextSpawnAt (fst sl)"
  by (auto simp: spawnInLane_def roll_def split: prod.splits)

lemma laneLoop_nextSpawnAt:
  assumes "laneLoop ws v sl = Some sl'"
  shows "gs_nextSpawnAt (fst sl') = gs_nextSpawnAt (fst sl)"
proof (rule laneLoop.raw_induct[where P = "\<lambda>ws v sl sl'. gs_nextSpawnAt (fst sl') = gs_nextSpawnAt (fst sl)", OF _ assms])
  fix f ws v and sl sl' :: "GameState \<times> Lane"
  assume IH: "\<And>ws v sl sl'. f ws v sl = Some sl' \<Longrightarrow> gs_nextSpawnAt (fst sl') = gs_nextSpawnAt (fst sl)"
    and eq: "(if ln_nextSpawnAt (snd sl) \<le> gs_scroll (fst sl) then f ws v (spawnInLane ws v sl) else Some sl) = Some sl'"
  show "gs_nextSpawnAt (fst sl') = gs_nextSpawnAt (fst sl)"
    using eq IH[of ws v "spawnInLane ws v sl" sl'] by (auto split: if_splits)
qed

lemma eachLane_nextSpawnAt:
  "eachLane ws v s ls = Some (s', ls') \<Longrightarrow> gs_nextSpawnAt s' = gs_nextSpawnAt s"
proof (induction ls arbitrary: s s' ls')
  case (Cons l ls)
  then obtain s1 l1 ls1 where 1: "laneLoop ws v (s, l) = Some (s1, l1)" "eachLane ws v s1 ls = Some (s', ls1)"
    by (auto simp: bind_eq_Some_conv)
  with Cons.IH[OF 1(2)] laneLoop_nextSpawnAt[OF 1(1)] show ?case by simp
qed simp

section \<open>Every tick ends\<close>

lemma mapTracks_paced [simp]:
  "lanesPaced (mapTracks f s) = lanesPaced s" "gs_nextSpawnAt (mapTracks f s) = gs_nextSpawnAt s"
  by (auto simp: mapTracks_def lanesPaced_def split: option.splits prod.splits)

lemma runtimeInputs_paced:
  "lanesPaced (foldl runtimeInput s is) = lanesPaced s \<and> gs_nextSpawnAt (foldl runtimeInput s is) = gs_nextSpawnAt s"
proof (induction "is" arbitrary: s)
  case (Cons i "is")
  have "lanesPaced (runtimeInput s i) = lanesPaced s \<and> gs_nextSpawnAt (runtimeInput s i) = gs_nextSpawnAt s"
    by (cases i) (simp_all add: lanesPaced_def)
  then show ?case using Cons by simp
qed simp

lemma lanesPaced_scroll [simp]: "lanesPaced (s\<lparr>gs_scroll := x\<rparr>) = lanesPaced s"
  by (simp add: lanesPaced_def)

lemma expireBoost_paced [simp]:
  "lanesPaced (expireBoost s) = lanesPaced s" "gs_nextSpawnAt (expireBoost s) = gs_nextSpawnAt s"
  by (simp_all add: expireBoost_def lanesPaced_def)

lemma stepMove_paced:
  "lanesPaced (stepMove s is cfg) = lanesPaced s" "gs_nextSpawnAt (stepMove s is cfg) = gs_nextSpawnAt s"
  by (simp_all add: stepMove_def Let_def runtimeInputs_paced)

lemma stepMove_scroll_bounds:
  assumes "paced s" "gs_tick s < TICK_LIMIT" "playable cfg"
  shows "0 \<le> gs_scroll (stepMove s is cfg)" "gs_scroll (stepMove s is cfg) \<le> of_int (9 * (gs_tick s + 1))"
proof -
  let ?v = "speedAt cfg (gs_elapsed s)"
  have v: "3 \<le> ?v" "?v \<le> 9" using speedAt_bounds[OF assms(3)] assms(1) by (auto simp: paced_def)
  show "0 \<le> gs_scroll (stepMove s is cfg)"
    using v assms(1) by (simp add: stepMove_scroll paced_def fadd_nonneg)
  have "gs_scroll s + ?v \<le> of_int (9 * (gs_tick s + 1))" using assms(1) v by (simp add: paced_def)
  then show "gs_scroll (stepMove s is cfg) \<le> of_int (9 * (gs_tick s + 1))"
    unfolding stepMove_scroll fadd_def
    using assms(1,2) by (intro rnd_le_int) (auto simp: paced_def)
qed

lemma stepSpawn_ends:
  assumes "playable cfg" "0 \<le> gs_elapsed s" "0 \<le> gs_scroll s" "gs_scroll s \<le> 2 ^ 52"
    "0 \<le> gs_nextSpawnAt s" "lanesPaced s"
  shows "\<exists>s' evs. stepSpawn s cfg = Some (s', evs) \<and> 0 \<le> gs_nextSpawnAt s' \<and> lanesPaced s'"
proof -
  let ?v = "speedAt cfg (gs_elapsed s)"
  have v: "3 \<le> ?v" using speedAt_bounds[OF assms(1,2)] by simp
  show ?thesis
  proof (cases "gs_fan s")
    case None
    obtain s1 where 1: "spawnMain s cfg ?v = Some s1" "0 \<le> gs_nextSpawnAt s1" "gs_fan s1 = None"
    proof (cases "lc_fanOut cfg \<noteq> None \<and> \<not> 0 < gs_bossUntil s \<and>
        reached (fadd (gs_distance s) (gs_scroll s)) (limitMinus (gs_nextGateAt s) FAN_CLEAR_PX)")
      case True
      let ?gate = "s\<lparr>gs_entities := gs_entities s @ [gateEntity (gs_nextId s)], gs_nextId := gs_nextId s + 1\<rparr>"
      from True have "spawnMain s cfg ?v = Some s \<or> spawnMain s cfg ?v = Some ?gate"
        by (simp add: spawnMain_def)
      then show ?thesis
      proof
        assume "spawnMain s cfg ?v = Some ?gate"
        then show ?thesis by (rule that) (use assms(5) None in simp_all)
      qed (rule that, use assms(5) None in simp_all)
    next
      case False
      let ?b = "0 < gs_bossUntil s"
      obtain s1 where "spawnLoop (if ?b then lc_bossWeights cfg else lc_weights cfg) ?b ?v s = Some s1"
        "0 \<le> gs_nextSpawnAt s1" "gs_fan s1 = None"
        using spawnLoop_ends[OF v assms(5,4)] None by metis
      then show ?thesis using False by (intro that[of s1]) (auto simp: spawnMain_def Let_def)
    qed
    have "gs_scroll s1 = gs_scroll s" using 1(1) spawnLoop_clock
      by (auto simp: spawnMain_def Let_def split: if_splits)
    then have "0 \<le> fadd (gs_scroll s1) FAN_CLEAR_PX" using assms(3) by (simp add: fadd_nonneg)
    then have "0 \<le> gs_nextSpawnAt (fst (enterGate s1 cfg [])) \<and> lanesPaced (fst (enterGate s1 cfg []))"
      by (rule_tac enterGate_cases[of s1 cfg "[]"]) (use 1 in \<open>auto simp: openLanes_def lanesPaced_def\<close>)
    then show ?thesis using None 1
      by (cases "enterGate s1 cfg []") (simp add: stepSpawn_def)
  next
    case (Some fan)
    then have "\<forall>l \<in> set (fan_lanes fan). 0 \<le> ln_nextSpawnAt l" using assms(6) by (simp add: lanesPaced_def)
    from eachLane_ends[OF v assms(4) this, of "lc_laneWeights cfg"] obtain s1 ls where
      "eachLane (lc_laneWeights cfg) ?v s (fan_lanes fan) = Some (s1, ls)" "\<forall>l \<in> set ls. 0 \<le> ln_nextSpawnAt l"
      by blast
    moreover from eachLane_nextSpawnAt[OF this(1)] have "gs_nextSpawnAt s1 = gs_nextSpawnAt s" .
    ultimately show ?thesis using Some assms(5,6)
      by (simp add: stepSpawn_def spawnLanes_def Let_def lanesPaced_def)
  qed
qed

lemma lanesPaced_image:
  "lanesPaced s \<longleftrightarrow> (case gs_fan s of None \<Rightarrow> True | Some f \<Rightarrow> \<forall>x \<in> ln_nextSpawnAt ` set (fan_lanes f). 0 \<le> x)"
  by (simp add: lanesPaced_def split: option.splits)

lemma collideLanes_nextSpawnAt:
  "collideLanes cfg p ls c = (ls', c') \<Longrightarrow> map ln_nextSpawnAt ls' = map ln_nextSpawnAt ls"
  by (induction ls arbitrary: c ls' c') (auto simp: Let_def split: prod.splits)

lemma collide_paced:
  assumes "collide s cfg p evs w = (s', evs', w')"
  shows "lanesPaced s' = lanesPaced s"
proof (cases "gs_fan s")
  case None
  define c where "c = \<lparr>co_s = s, co_p = gs_player s, co_coins = 0, co_hitDone = False, co_events = evs, co_w = w\<rparr>"
  obtain es c' where t: "collideTrack cfg p False (gs_entities s) c = (es, c')" by force
  then have "gs_fan s' = gs_fan (co_s c')" using assms None by (auto simp: collide_def c_def Let_def)
  also have "\<dots> = gs_fan s" by (rule collideTrack_explained[OF t]) (simp add: explained_def c_def)
  finally show ?thesis by (simp add: lanesPaced_def)
next
  case (Some fan)
  define c where "c = \<lparr>co_s = s, co_p = gs_player s, co_coins = 0, co_hitDone = False, co_events = evs, co_w = w\<rparr>"
  obtain ls c' where t: "collideLanes cfg p (fan_lanes fan) c = (ls, c')" by force
  then have "gs_fan s' = Some (fan\<lparr>fan_lanes := ls\<rparr>)" using assms Some by (auto simp: collide_def c_def Let_def)
  moreover have "ln_nextSpawnAt ` set ls = ln_nextSpawnAt ` set (fan_lanes fan)"
    using collideLanes_nextSpawnAt[OF t] by (metis list.set_map)
  ultimately show ?thesis using Some lanesPaced_image by (simp add: lanesPaced_image)
qed

lemma stepFinish_paced:
  assumes "stepFinish s cfg evs = (s', evs')" "lanesPaced s" "0 \<le> gs_nextSpawnAt s" "0 \<le> gs_scroll s"
  shows "lanesPaced s'" "0 \<le> gs_nextSpawnAt s'" "gs_scroll s' = gs_scroll s"
  using assms by (auto simp: stepFinish_def fanIn_def lanesPaced_def fadd_nonneg Let_def split: option.splits if_splits)

theorem step_ends:
  fixes p :: "'w Ports"
  assumes "paced s" "gs_tick s < TICK_LIMIT" "\<forall>l. playable (L l)"
  shows "\<exists>s' evs w'. step s is p L w = Some (s', evs, w') \<and> paced s'"
proof (cases "gs_status s = Running")
  case True
  let ?cfg = "L (gs_level s)"
  let ?m = "stepMove s is ?cfg"
  note b = stepMove_scroll_bounds[OF assms(1,2) assms(3)[rule_format, of "gs_level s"], of "is"]
  have c: "gs_tick ?m = gs_tick s" "gs_elapsed ?m = gs_elapsed s"
    using clock_eqD[OF stepMove_clock[of s "is" ?cfg]] by simp_all
  have "gs_scroll ?m \<le> 2 ^ 52"
    using b(2) assms(2) of_int_le_iff[of "9 * (gs_tick s + 1)" "2 ^ 52", where 'a = rat]
    by (simp del: of_int_le_iff)
  with b(1) c assms(1,3) stepMove_paced[of s "is" ?cfg] obtain s1 e1 where
    sp: "stepSpawn ?m ?cfg = Some (s1, e1)" "0 \<le> gs_nextSpawnAt s1" "lanesPaced s1"
    using stepSpawn_ends[of ?cfg ?m] by (auto simp: paced_def)
  obtain s2 e2 w2 where co: "collide s1 ?cfg p e1 w = (s2, e2, w2)" by (rule prod_cases3)
  obtain s3 e3 where fi: "stepFinish s2 ?cfg e2 = (s3, e3)" by force
  have 2: "core s2 = core s1" by (rule collide_explained[OF co])
  have st: "step s is p L w = Some (s3, map (withHash (hashState s3)) e3, w2)"
    by (simp add: step_def True sp(1) co fi)
  note f = stepFinish_paced[OF fi]
  have "lanesPaced s2" "0 \<le> gs_nextSpawnAt s2" "gs_scroll s2 = gs_scroll ?m"
    using collide_paced[OF co] sp core_eqD[OF 2] stepSpawn_clock(2)[OF sp(1)] by simp_all
  moreover have "gs_tick s3 = gs_tick s + 1" "gs_elapsed s3 = gs_elapsed s + 1"
    by (rule step_explained[OF st True]; simp)+
  ultimately have "paced s3" using f b assms(1) by (simp add: paced_def)
  then show ?thesis using st by blast
qed (use assms in \<open>simp add: step_stopped\<close>)

end
