(* ===== verification/Replayer.thy ===== *)
theory Replayer
  imports EngineIds EngineProgress
begin

text \<open>
  The replayer (\<open>engine/replay.ts\<close>). \<open>createReplayer\<close> returns an object that closes over \<open>state\<close>,
  \<open>cursor\<close>, \<open>divergedAt\<close> and \<open>done\<close>; here it is a record, and \<open>advance\<close> takes and returns it together
  with the world that \<open>impure\<close> reads. \<open>maxTicks\<close> is a natural number; \<open>replay\<close> passes
  \<open>Number.POSITIVE_INFINITY\<close>, so its loop is the partial function \<open>runToEnd\<close>.
\<close>

definition isInputEvent :: "HistoryEvent \<Rightarrow> bool" where
  "isInputEvent e \<longleftrightarrow>
     (case e of Input _ _ \<Rightarrow> True | OrchestratorStarted _ \<Rightarrow> True | RetryAttempt _ _ _ \<Rightarrow> True | _ \<Rightarrow> False)"

fun inputOf :: "HistoryEvent \<Rightarrow> InputKind" where
  "inputOf (Input _ k) = Key k"
| "inputOf (OrchestratorStarted _) = Resume"
| "inputOf _ = Retry"

fun idOf :: "HistoryEvent \<Rightarrow> int" where
  "idOf (ActivityCoinCollected _ i _) = i"
| "idOf (ActivityCrateCollected _ i _ _) = i"
| "idOf (OrbTaken _ i _) = i"
| "idOf (CircuitBreakerTripped _ i _) = i"
| "idOf (BoostLost _ i _) = i"
| "idOf _ = 0"

text \<open>The \<open>type\<close> of an event, the tag of the union.\<close>

fun eventType :: "HistoryEvent \<Rightarrow> string" where
  "eventType (Input _ _) = ''Input''"
| "eventType (OrchestratorStarted _) = ''OrchestratorStarted''"
| "eventType (RetryAttempt _ _ _) = ''RetryAttempt''"
| "eventType (ActivityCoinCollected _ _ _) = ''ActivityCoinCollected''"
| "eventType (ActivityCrateCollected _ _ _ _) = ''ActivityCrateCollected''"
| "eventType (OrbTaken _ _ _) = ''OrbTaken''"
| "eventType (CircuitBreakerTripped _ _ _) = ''CircuitBreakerTripped''"
| "eventType (BoostLost _ _ _) = ''BoostLost''"
| "eventType (FanOut _ _) = ''FanOut''"
| "eventType (FanIn _ _ _) = ''FanIn''"

definition matches :: "HistoryEvent list \<Rightarrow> HistoryEvent list \<Rightarrow> bool" where
  "matches expected actual \<longleftrightarrow>
     length expected = length actual \<and>
     list_all (\<lambda>(e, a). eventType e = eventType a \<and> idOf e = idOf a \<and> ev_hash e = ev_hash a)
       (zip expected actual)"

definition crateResults :: "HistoryEvent list \<Rightarrow> (int \<rightharpoonup> rat)" where
  "crateResults history =
     foldl (\<lambda>m e. case e of ActivityCrateCollected _ i _ r \<Rightarrow> m(i \<mapsto> r) | _ \<Rightarrow> m) Map.empty history"

definition replayPorts :: "('w \<Rightarrow> rat \<times> 'w) \<Rightarrow> (int \<rightharpoonup> rat) \<Rightarrow> 'w Ports" where
  "replayPorts imp crates =
     \<lparr>impure = imp, crateValue = (\<lambda>i w. case crates i of Some r \<Rightarrow> (r, w) | None \<Rightarrow> imp w)\<rparr>"

record Replayer =
  rp_state :: GameState
  rp_cursor :: nat
  rp_divergedAt :: "nat option"
  rp_done :: bool

definition createReplayer :: "StartInput \<Rightarrow> int \<Rightarrow> LevelTable \<Rightarrow> Replayer" where
  "createReplayer start toTick levels =
     \<lparr>rp_state = initialState start levels, rp_cursor = 0, rp_divergedAt = None, rp_done = (toTick \<le> 0)\<rparr>"

text \<open>The inner loop: the events due at \<open>tick\<close>, as inputs and expected outcomes, and how many there are.\<close>

fun due :: "int \<Rightarrow> HistoryEvent list \<Rightarrow> InputKind list \<times> HistoryEvent list \<times> nat" where
  "due tick [] = ([], [], 0)"
| "due tick (e # es) =
     (if ev_tick e \<le> tick then
        (case due tick es of (inputs, expected, n) \<Rightarrow>
           if isInputEvent e then (inputOf e # inputs, expected, Suc n)
           else (inputs, e # expected, Suc n))
      else ([], [], 0))"

text \<open>Where a mismatch between \<open>firstIndex\<close> and \<open>cursor\<close> is reported: the first outcome among them, or \<open>cursor\<close>.\<close>

definition firstOutcome :: "HistoryEvent list \<Rightarrow> nat \<Rightarrow> nat \<Rightarrow> nat" where
  "firstOutcome history firstIndex cursor =
     (let slice = take (cursor - firstIndex) (drop firstIndex history);
          i = length (takeWhile isInputEvent slice)
      in if i < length slice then firstIndex + i else cursor)"

text \<open>What the loop body does with the step's result: compare, stop on a death, or move on.\<close>

definition observe ::
  "HistoryEvent list \<Rightarrow> int \<Rightarrow> HistoryEvent list \<Rightarrow> nat \<Rightarrow> GameState \<Rightarrow> HistoryEvent list
    \<Rightarrow> Replayer \<Rightarrow> Replayer" where
  "observe history toTick expected n next events r =
     (let firstIndex = rp_cursor r;
          cursor = firstIndex + n;
          divergedAt =
            (if rp_divergedAt r = None \<and> \<not> matches expected events
             then Some (firstOutcome history firstIndex cursor) else rp_divergedAt r)
      in if gs_status next = Failed \<or> gs_status next = NeedsRetry
         then r\<lparr>rp_cursor := cursor,
                rp_divergedAt := (if divergedAt = None then Some cursor else divergedAt),
                rp_done := True\<rparr>
         else r\<lparr>rp_state := next, rp_cursor := cursor, rp_divergedAt := divergedAt,
                rp_done := (if toTick \<le> gs_tick next \<or> gs_status next \<noteq> Running
                            then True else rp_done r)\<rparr>)"

definition advanceOne ::
  "HistoryEvent list \<Rightarrow> int \<Rightarrow> ('w \<Rightarrow> rat \<times> 'w) \<Rightarrow> LevelTable \<Rightarrow> Replayer \<times> 'w \<Rightarrow> (Replayer \<times> 'w) option" where
  "advanceOne history toTick imp levels rw =
     (case rw of (r, w) \<Rightarrow>
      case due (gs_tick (rp_state r)) (drop (rp_cursor r) history) of (inputs, expected, n) \<Rightarrow>
      do { (next, events, w) \<leftarrow>
             step (rp_state r) inputs (replayPorts imp (crateResults history)) levels w;
           Some (observe history toTick expected n next events r, w) })"

fun advance ::
  "nat \<Rightarrow> HistoryEvent list \<Rightarrow> int \<Rightarrow> ('w \<Rightarrow> rat \<times> 'w) \<Rightarrow> LevelTable \<Rightarrow> Replayer \<times> 'w
    \<Rightarrow> (Replayer \<times> 'w) option" where
  "advance 0 history toTick imp levels rw = Some rw"
| "advance (Suc n) history toTick imp levels rw =
     (if rp_done (fst rw) then Some rw
      else do { rw \<leftarrow> advanceOne history toTick imp levels rw;
                advance n history toTick imp levels rw })"

definition result :: "Replayer \<Rightarrow> ReplayResult" where
  "result r = (case rp_divergedAt r of None \<Rightarrow> ReplayOk (rp_state r)
                                     | Some i \<Rightarrow> ReplayDiverged (int i) (rp_state r))"

partial_function (option) runToEnd ::
  "HistoryEvent list \<Rightarrow> int \<Rightarrow> ('w \<Rightarrow> rat \<times> 'w) \<Rightarrow> LevelTable \<Rightarrow> Replayer \<times> 'w \<Rightarrow> (Replayer \<times> 'w) option" where
  "runToEnd history toTick imp levels rw =
     (if rp_done (fst rw) then Some rw
      else do { rw \<leftarrow> advanceOne history toTick imp levels rw;
                runToEnd history toTick imp levels rw })"

declare runToEnd.simps [code]

definition replay ::
  "StartInput \<Rightarrow> HistoryEvent list \<Rightarrow> int \<Rightarrow> ('w \<Rightarrow> rat \<times> 'w) \<Rightarrow> LevelTable \<Rightarrow> 'w
    \<Rightarrow> (ReplayResult \<times> 'w) option" where
  "replay start history toTick imp levels w =
     do { (r, w) \<leftarrow> runToEnd history toTick imp levels (createReplayer start toTick levels, w);
          Some (result r, w) }"

section \<open>Advancing in chunks\<close>

lemma advance_done: "rp_done (fst rw) \<Longrightarrow> advance n h t imp L rw = Some rw"
  by (cases n) simp_all

lemma advance_add:
  "advance (m + n) h t imp L rw = advance m h t imp L rw \<bind> advance n h t imp L"
proof (induction m arbitrary: rw)
  case (Suc m)
  show ?case
  proof (cases "rp_done (fst rw)")
    case False
    then show ?thesis
      by (cases "advanceOne h t imp L rw") (simp_all add: Suc.IH)
  qed (simp add: advance_done)
qed simp

lemma advance_last:
  assumes "advance n h t imp L rw = Some rw'" "\<not> rp_done (fst rw')"
  shows "advance (Suc n) h t imp L rw = advanceOne h t imp L rw'"
proof -
  have "advance 1 h t imp L rw' = advanceOne h t imp L rw'"
    using assms(2) by (cases "advanceOne h t imp L rw'") simp_all
  then show ?thesis using advance_add[of n 1 h t imp L rw] assms(1) by simp
qed

lemma advanceOne_cases:
  assumes "advanceOne h toTick imp L (r, w) = Some (r', w')"
  obtains inputs expected n s' evs where
    "due (gs_tick (rp_state r)) (drop (rp_cursor r) h) = (inputs, expected, n)"
    "step (rp_state r) inputs (replayPorts imp (crateResults h)) L w = Some (s', evs, w')"
    "r' = observe h toTick expected n s' evs r"
proof -
  obtain inputs expected n where d: "due (gs_tick (rp_state r)) (drop (rp_cursor r) h) = (inputs, expected, n)"
    by (rule prod_cases3)
  with assms obtain s' evs where
    "step (rp_state r) inputs (replayPorts imp (crateResults h)) L w = Some (s', evs, w')"
    "r' = observe h toTick expected n s' evs r"
    by (auto simp: advanceOne_def bind_eq_Some_conv)
  with d that show thesis by blast
qed

lemma advanceOne_divergedAt:
  assumes "advanceOne h t imp L (r, w) = Some (r', w')" "rp_divergedAt r = Some i"
  shows "rp_divergedAt r' = Some i"
  by (rule advanceOne_cases[OF assms(1)]) (simp add: observe_def assms(2) Let_def)

lemma advance_divergedAt:
  assumes "advance n h t imp L (r, w) = Some (r', w')" "rp_divergedAt r' = None"
  shows "rp_divergedAt r = None"
  using assms
proof (induction n arbitrary: r w)
  case (Suc n)
  then show ?case
    by (cases "rp_divergedAt r")
      (auto simp: bind_eq_Some_conv split: if_splits dest: advanceOne_divergedAt)
qed simp

lemma runToEnd_advance:
  assumes "advance n h t imp L rw = Some rw'" "rp_done (fst rw')"
  shows "runToEnd h t imp L rw = Some rw'"
  using assms
proof (induction n arbitrary: rw)
  case 0
  then show ?case by (simp add: runToEnd.simps)
next
  case (Suc n)
  then show ?case
    by (cases "advanceOne h t imp L rw")
      (auto simp: runToEnd.simps[of h t imp L rw] split: if_splits)
qed

section \<open>What is due\<close>

lemma isInputEvent_outcome: "isInputEvent e \<longleftrightarrow> \<not> outcome e"
  by (cases e) (simp_all add: isInputEvent_def outcome_def)

lemma due_split:
  assumes "\<forall>e \<in> set now. ev_tick e \<le> t" "\<forall>e \<in> set later. t < ev_tick e"
  shows "due t (now @ later) =
    (map inputOf (filter isInputEvent now), filter (\<lambda>e. \<not> isInputEvent e) now, length now)"
  using assms
proof (induction now)
  case Nil
  then show ?case by (cases later) auto
qed auto

lemma matches_refl: "matches es es"
  by (auto simp: matches_def list_all_iff in_set_zip)

section \<open>Crate results\<close>

fun crateEvents :: "HistoryEvent list \<Rightarrow> (int \<times> rat) list" where
  "crateEvents [] = []"
| "crateEvents (ActivityCrateCollected _ i _ r # es) = (i, r) # crateEvents es"
| "crateEvents (_ # es) = crateEvents es"

lemma crateEvents_append [simp]: "crateEvents (a @ b) = crateEvents a @ crateEvents b"
  by (induction a rule: crateEvents.induct) auto

lemma crateResults_fold:
  "foldl (\<lambda>m e. case e of ActivityCrateCollected _ i _ r \<Rightarrow> m(i \<mapsto> r) | _ \<Rightarrow> m) m h
    = m ++ map_of (rev (crateEvents h))"
  by (induction h arbitrary: m rule: crateEvents.induct) (simp_all add: map_add_upd_left map_add_def fun_eq_iff split: option.splits)

lemma crateResults_map: "crateResults h = map_of (rev (crateEvents h))"
  by (simp add: crateResults_def crateResults_fold)

lemma crateEvents_ids: "fst ` set (crateEvents h) \<subseteq> set (pickupIds h)"
  by (induction h rule: crateEvents.induct) auto

lemma crateEvents_distinct: "distinct (pickupIds h) \<Longrightarrow> distinct (map fst (crateEvents h))"
  by (induction h rule: crateEvents.induct) (use crateEvents_ids in fastforce)+

lemma crateResults_event:
  assumes "distinct (pickupIds h)" "(i, r) \<in> set (crateEvents h)"
  shows "crateResults h i = Some r"
  using crateEvents_distinct[OF assms(1)] assms(2) by (simp add: crateResults_map rev_map[symmetric])

section \<open>Recorded segments\<close>

text \<open>
  Ports that hand out a given list of values. By \<open>step_explained\<close> every tick is the tick such ports
  give, with the list of the answers it received.
\<close>

fun nextValue :: "rat list \<Rightarrow> rat \<times> rat list" where
  "nextValue [] = (0, [])"
| "nextValue (v # vs) = (v, vs)"

definition scripted :: "rat list Ports" where
  "scripted = \<lparr>impure = nextValue, crateValue = (\<lambda>_. nextValue)\<rparr>"

lemma ask_scripted: "length vs = length cs \<Longrightarrow> ask scripted cs vs = (vs, [])"
proof (induction cs arbitrary: vs)
  case (Cons c cs)
  then obtain v us where "vs = v # us" "length us = length cs" by (cases vs) auto
  then show ?case using Cons.IH by (cases c) (simp_all add: scripted_def)
qed (simp add: scripted_def)

text \<open>
  \<open>segment L start h s vs\<close>: live play from \<open>start\<close> recorded the history \<open>h\<close> and reached \<open>s\<close>, with \<open>vs\<close>
  the values its orbs drew. At each tick the runtime appends the inputs of the tick and then the
  outcomes \<open>step\<close> reports; a tick that ends in \<open>failed\<close> or \<open>retry\<close> is not part of a segment (the game is
  over, or the runtime rewinds).
\<close>

inductive segment ::
  "LevelTable \<Rightarrow> StartInput \<Rightarrow> HistoryEvent list \<Rightarrow> GameState \<Rightarrow> rat list \<Rightarrow> bool" for L start where
  segment_start: "segment L start [] (initialState start L) []"
| segment_tick: "segment L start h s vs \<Longrightarrow> gs_status s = Running \<Longrightarrow>
    \<forall>e \<in> set ins. isInputEvent e \<and> ev_tick e = gs_tick s \<Longrightarrow>
    step s (map inputOf ins) scripted L (answersOf evs us) = Some (s', evs, []) \<Longrightarrow>
    length us = orbsOf evs \<Longrightarrow>
    gs_status s' = Running \<or> gs_status s' = LevelDone \<Longrightarrow>
    segment L start (h @ ins @ evs) s' (vs @ us)"

inductive_cases segment_cases: "segment L start h s vs"

lemma segment_live:
  assumes "segment L start h s vs" "gs_status s = Running"
    "\<forall>e \<in> set ins. isInputEvent e \<and> ev_tick e = gs_tick s"
    "step s (map inputOf ins) ports L w = Some (s', evs, w')"
    "ask ports (callsOf evs) w = (answersOf evs us, w')" "length us = orbsOf evs"
    "gs_status s' = Running \<or> gs_status s' = LevelDone"
  shows "segment L start (h @ ins @ evs) s' (vs @ us)"
proof (rule segment_tick[OF assms(1-3) _ assms(6,7)])
  from assms(4,2) obtain os where o: "length os = orbsOf evs"
    "ask ports (callsOf evs) w = (answersOf evs os, w')"
    "\<forall>(p2 :: rat list Ports) w2 w2'. ask p2 (callsOf evs) w2 = (answersOf evs os, w2') \<longrightarrow>
       step s (map inputOf ins) p2 L w2 = Some (s', evs, w2')"
    by (rule step_explained[where 'b = "rat list"])
  then show "step s (map inputOf ins) scripted L (answersOf evs us) = Some (s', evs, [])"
    using assms(5) by (simp add: ask_scripted)
qed

definition collected :: "HistoryEvent list \<Rightarrow> GameState \<Rightarrow> bool" where
  "collected h s \<longleftrightarrow> 1 \<le> gs_nextId s \<and> live s + mset (pickupIds h) \<subseteq># fresh 1 (gs_nextId s)"

lemma collected_start: "collected [] (initialState start L)"
  by (simp add: collected_def initialState_def live_def)

lemma collected_step:
  assumes "collected h s" "step s is p L w = Some (s', evs, w')" "\<forall>e \<in> set ins. isInputEvent e"
  shows "collected (h @ ins @ evs) s'"
proof -
  have "pickupIds ins = []" using assms(3) by (intro pickupIds_inputs) (simp add: isInputEvent_outcome)
  then have "live s' + mset (pickupIds (h @ ins @ evs)) = live s' + mset (pickupIds evs) + mset (pickupIds h)"
    by simp
  also have "\<dots> \<subseteq># live s + fresh (gs_nextId s) (gs_nextId s') + mset (pickupIds h)"
    using step_ids(2)[OF assms(2)] by simp
  also have "\<dots> \<subseteq># fresh 1 (gs_nextId s) + fresh (gs_nextId s) (gs_nextId s')"
    using assms(1) by (simp add: collected_def ac_simps)
  also have "\<dots> = fresh 1 (gs_nextId s')"
    by (rule fresh_trans[symmetric]) (use assms(1) step_ids(1)[OF assms(2)] in \<open>auto simp: collected_def\<close>)
  finally show ?thesis using assms(1) step_ids(1)[OF assms(2)] by (simp add: collected_def)
qed

lemma collected_distinct:
  assumes "collected h s"
  shows "distinct (pickupIds h)"
proof -
  have "mset (pickupIds h) \<subseteq># fresh 1 (gs_nextId s)"
    using assms mset_subset_eq_add_right[of "mset (pickupIds h)" "live s"]
    by (auto simp: collected_def elim: subset_mset.order_trans[rotated])
  then have "count (mset (pickupIds h)) i \<le> 1" for i
    using fresh_count[of 1 "gs_nextId s" i] by (meson le_trans mset_subset_eq_count)
  moreover have "count (mset (pickupIds h)) i = 0 \<longleftrightarrow> i \<notin> set (pickupIds h)" for i
    by (simp only: count_eq_zero_iff set_mset_mset)
  ultimately have "count (mset (pickupIds h)) i = (if i \<in> set (pickupIds h) then 1 else 0)" for i
    by (cases "i \<in> set (pickupIds h)") (simp_all add: le_Suc_eq)
  then show ?thesis unfolding distinct_count_atmost_1 by blast
qed

lemma segment_collected: "segment L start h s vs \<Longrightarrow> collected h s"
  by (induction rule: segment.induct) (auto intro: collected_start collected_step)

lemma segment_ticks:
  "segment L start h s vs \<Longrightarrow> 0 \<le> gs_tick s \<and> (\<forall>e \<in> set h. ev_tick e < gs_tick s)"
proof (induction rule: segment.induct)
  case segment_start
  then show ?case by (simp add: initialState_def)
next
  case (segment_tick h s vs ins evs us s')
  from segment_tick.hyps(4,2) have "gs_tick s' = gs_tick s + 1" "\<forall>e \<in> set evs. ev_tick e = gs_tick s"
    by (rule step_explained; blast)+
  then show ?case using segment_tick.IH segment_tick.hyps(3) by fastforce
qed

lemma segment_orbs: "segment L start h s vs \<Longrightarrow> length vs = orbsOf h"
proof (induction rule: segment.induct)
  case (segment_tick h s vs ins evs us s')
  have "orbsOf ins = 0" using segment_tick.hyps(3)
    by (induction ins rule: orbsOf.induct) (auto simp: isInputEvent_def)
  then show ?case using segment_tick by simp
qed simp

section \<open>Replaying a recorded segment\<close>

text \<open>The values the next \<open>n\<close> calls of \<open>impure\<close> return.\<close>

fun draws :: "('w \<Rightarrow> rat \<times> 'w) \<Rightarrow> nat \<Rightarrow> 'w \<Rightarrow> rat list \<times> 'w" where
  "draws imp 0 w = ([], w)"
| "draws imp (Suc n) w = (case imp w of (v, w) \<Rightarrow> case draws imp n w of (vs, w) \<Rightarrow> (v # vs, w))"

lemma length_draws: "length (fst (draws imp n w)) = n"
  by (induction n arbitrary: w) (auto split: prod.splits, metis fst_conv)

lemma draws_add:
  "draws imp (m + n) w = (case draws imp m w of (us, w) \<Rightarrow> case draws imp n w of (vs, w) \<Rightarrow> (us @ vs, w))"
  by (induction m arbitrary: w) (auto split: prod.splits)

lemma draws_split:
  assumes "draws imp (m + n) w = (us @ vs, w')" "length us = m"
  obtains w1 where "draws imp m w = (us, w1)" "draws imp n w1 = (vs, w')"
proof -
  obtain xs w1 where 1: "draws imp m w = (xs, w1)" by force
  obtain ys w2 where 2: "draws imp n w1 = (ys, w2)" by force
  have "length xs = m" using length_draws[of imp m w] 1 by simp
  then show thesis using that[of w1] assms 1 2 by (simp add: draws_add)
qed

lemma ask_replayPorts:
  assumes "\<forall>(i, r) \<in> set (crateEvents evs). crates i = Some r" "draws imp (orbsOf evs) w = (us, w')"
  shows "ask (replayPorts imp crates) (callsOf evs) w = (answersOf evs us, w')"
  using assms
  by (induction evs arbitrary: w us rule: callsOf.induct)
    (auto simp: replayPorts_def split: prod.splits)

lemma orbsOf_inputs: "\<forall>e \<in> set ins. isInputEvent e \<Longrightarrow> orbsOf ins = 0"
  by (induction ins rule: orbsOf.induct) (auto simp: isInputEvent_def)

lemma advanceOne_faithful:
  assumes "\<forall>e \<in> set ins. isInputEvent e \<and> ev_tick e = gs_tick s"
    "\<forall>e \<in> set later. gs_tick s < ev_tick e" "gs_status s = Running"
    "step s (map inputOf ins) scripted L (answersOf evs us) = Some (s', evs, [])" "length us = orbsOf evs"
    "gs_status s' = Running \<or> gs_status s' = LevelDone"
    "distinct (pickupIds (h @ ins @ evs @ later))" "draws imp (orbsOf evs) w = (us, w')"
  shows "advanceOne (h @ ins @ evs @ later) toTick imp L
      (\<lparr>rp_state = s, rp_cursor = length h, rp_divergedAt = None, rp_done = False\<rparr>, w)
    = Some (\<lparr>rp_state = s', rp_cursor = length (h @ ins @ evs), rp_divergedAt = None,
             rp_done = (toTick \<le> gs_tick s' \<or> gs_status s' \<noteq> Running)\<rparr>, w')"
proof -
  let ?h = "h @ ins @ evs @ later"
  from assms(4,3) obtain os where o: "length os = orbsOf evs"
    "ask scripted (callsOf evs) (answersOf evs us) = (answersOf evs os, [])"
    "\<forall>e \<in> set evs. outcome e \<and> ev_tick e = gs_tick s \<and> ev_hash e = hashState s'"
    "\<forall>(p2 :: 'a Ports) w2 w2'. ask p2 (callsOf evs) w2 = (answersOf evs os, w2') \<longrightarrow>
       step s (map inputOf ins) p2 L w2 = Some (s', evs, w2')"
    by (rule step_explained[where 'b = 'a])
  have same: "answersOf evs os = answersOf evs us" using o(2) by (simp add: ask_scripted)
  have "\<forall>(i, r) \<in> set (crateEvents evs). crateResults ?h i = Some r"
    using crateResults_event[OF assms(7)] by auto
  from ask_replayPorts[OF this assms(8)] o(4) same
  have st: "step s (map inputOf ins) (replayPorts imp (crateResults ?h)) L w = Some (s', evs, w')" by simp
  have out: "\<forall>e \<in> set evs. \<not> isInputEvent e" using o(3) by (simp add: isInputEvent_outcome)
  have "due (gs_tick s) ((ins @ evs) @ later) = (map inputOf (filter isInputEvent (ins @ evs)),
      filter (\<lambda>e. \<not> isInputEvent e) (ins @ evs), length (ins @ evs))"
    using assms(1,2) o(3) by (intro due_split) auto
  then have d: "due (gs_tick s) (ins @ evs @ later) = (map inputOf ins, evs, length ins + length evs)"
    using assms(1) out by simp
  show ?thesis using assms(6) by (auto simp: advanceOne_def observe_def st d matches_refl Let_def)
qed

theorem advance_segment:
  assumes "segment L start h s vs" "\<forall>e \<in> set later. gs_tick s \<le> ev_tick e"
    "distinct (pickupIds (h @ later))" "gs_tick s \<le> toTick" "draws imp (orbsOf h) w = (vs, w')"
  shows "advance (nat (gs_tick s)) (h @ later) toTick imp L (createReplayer start toTick L, w)
    = Some (\<lparr>rp_state = s, rp_cursor = length h, rp_divergedAt = None,
             rp_done = (toTick \<le> gs_tick s \<or> gs_status s \<noteq> Running)\<rparr>, w')"
  using assms
proof (induction arbitrary: later w' rule: segment.induct)
  case segment_start
  then show ?case by (simp add: createReplayer_def initialState_def)
next
  case (segment_tick h s vs ins evs us s')
  have t: "gs_tick s' = gs_tick s + 1" "\<forall>e \<in> set evs. ev_tick e = gs_tick s"
    using segment_tick.hyps(2,4) by (auto elim: step_explained)
  have pos: "0 \<le> gs_tick s" using segment_ticks[OF segment_tick.hyps(1)] by simp
  have "orbsOf (h @ ins @ evs) = orbsOf h + orbsOf evs" using segment_tick.hyps(3) by (simp add: orbsOf_inputs)
  then obtain w1 where w: "draws imp (orbsOf h) w = (vs, w1)" "draws imp (orbsOf evs) w1 = (us, w')"
    using segment_tick.prems(4) segment_orbs[OF segment_tick.hyps(1)] by (auto elim: draws_split)
  have "\<not> toTick \<le> gs_tick s" using segment_tick.prems(3) t by simp
  moreover have "\<forall>e \<in> set (ins @ evs @ later). gs_tick s \<le> ev_tick e"
    using segment_tick.prems(1) segment_tick.hyps(3) t by force
  ultimately have "advance (nat (gs_tick s)) (h @ ins @ evs @ later) toTick imp L (createReplayer start toTick L, w)
    = Some (\<lparr>rp_state = s, rp_cursor = length h, rp_divergedAt = None, rp_done = False\<rparr>, w1)"
    using segment_tick.prems(2) segment_tick.hyps(2) w(1) segment_tick.IH[of "ins @ evs @ later" w1] by simp
  moreover have "advanceOne (h @ ins @ evs @ later) toTick imp L
      (\<lparr>rp_state = s, rp_cursor = length h, rp_divergedAt = None, rp_done = False\<rparr>, w1)
    = Some (\<lparr>rp_state = s', rp_cursor = length (h @ ins @ evs), rp_divergedAt = None,
             rp_done = (toTick \<le> gs_tick s' \<or> gs_status s' \<noteq> Running)\<rparr>, w')"
    using segment_tick.prems(1,2) t
    by (intro advanceOne_faithful[OF segment_tick.hyps(3) _ segment_tick.hyps(2,4,5,6) _ w(2)]) auto
  moreover have "nat (gs_tick s') = nat (gs_tick s) + 1" using t pos by simp
  ultimately show ?case by (simp add: advance_last del: advance.simps)
qed

theorem replay_segment:
  assumes "segment L start h s vs" "\<forall>e \<in> set pending. isInputEvent e \<and> gs_tick s \<le> ev_tick e"
    "draws imp (orbsOf h) w = (vs, w')"
  shows "replay start (h @ pending) (gs_tick s) imp L w = Some (ReplayOk s, w')"
proof -
  have "pickupIds pending = []" using assms(2) by (intro pickupIds_inputs) (simp add: isInputEvent_outcome)
  then have "distinct (pickupIds (h @ pending))"
    using collected_distinct[OF segment_collected[OF assms(1)]] by simp
  from advance_segment[OF assms(1) _ this, of "gs_tick s" imp w w'] assms(2,3)
  have "runToEnd (h @ pending) (gs_tick s) imp L (createReplayer start (gs_tick s) L, w)
    = Some (\<lparr>rp_state = s, rp_cursor = length h, rp_divergedAt = None, rp_done = True\<rparr>, w')"
    by (intro runToEnd_advance) auto
  then show ?thesis by (simp add: replay_def result_def)
qed

section \<open>Every replay ends\<close>

lemma advanceOne_progress:
  assumes "\<forall>l. playable (L l)" "paced (rp_state r)" "gs_status (rp_state r) = Running"
    "gs_tick (rp_state r) < TICK_LIMIT"
  obtains r' w' where "advanceOne h toTick imp L (r, w) = Some (r', w')"
    "rp_done r' \<or> (gs_tick (rp_state r') = gs_tick (rp_state r) + 1 \<and> gs_tick (rp_state r') < toTick \<and>
       gs_status (rp_state r') = Running)" "paced (rp_state r')"
    "gs_status (rp_state r') = Running \<or> gs_status (rp_state r') = LevelDone"
proof -
  obtain inputs expected n where d: "due (gs_tick (rp_state r)) (drop (rp_cursor r) h) = (inputs, expected, n)"
    by (rule prod_cases3)
  obtain s' evs w' where st:
    "step (rp_state r) inputs (replayPorts imp (crateResults h)) L w = Some (s', evs, w')" "paced s'"
    using step_ends[OF assms(2,4,1), of inputs "replayPorts imp (crateResults h)" w] by blast
  have t: "gs_tick s' = gs_tick (rp_state r) + 1" by (rule step_explained[OF st(1) assms(3)])
  show thesis
  proof (rule that)
    show "advanceOne h toTick imp L (r, w) = Some (observe h toTick expected n s' evs r, w')"
      by (simp add: advanceOne_def d st(1))
  qed (use assms(2,3) st(2) t in \<open>cases "gs_status s'"; simp add: observe_def Let_def\<close>)+
qed

lemma advance_ends:
  assumes "\<forall>l. playable (L l)" "paced (rp_state r)" "gs_status (rp_state r) = Running"
    "\<not> rp_done r" "gs_tick (rp_state r) < toTick" "toTick \<le> TICK_LIMIT"
  shows "\<exists>n r' w'. advance n h toTick imp L (r, w) = Some (r', w') \<and> rp_done r'
    \<and> int n \<le> toTick - gs_tick (rp_state r)
    \<and> (gs_status (rp_state r') = Running \<or> gs_status (rp_state r') = LevelDone)"
  using assms(2-5)
proof (induction "nat (toTick - gs_tick (rp_state r))" arbitrary: r w rule: less_induct)
  case less
  from less.prems assms(6) obtain r' w' where a: "advanceOne h toTick imp L (r, w) = Some (r', w')"
    "rp_done r' \<or> (gs_tick (rp_state r') = gs_tick (rp_state r) + 1 \<and> gs_tick (rp_state r') < toTick \<and>
       gs_status (rp_state r') = Running)" "paced (rp_state r')"
    "gs_status (rp_state r') = Running \<or> gs_status (rp_state r') = LevelDone"
    by (rule_tac advanceOne_progress[OF assms(1)]) auto
  show ?case
  proof (cases "rp_done r'")
    case True
    then show ?thesis using a less.prems by (intro exI[of _ 1]) (auto simp: advance_done)
  next
    case False
    with a(2) have b: "gs_tick (rp_state r') = gs_tick (rp_state r) + 1" "gs_tick (rp_state r') < toTick"
      "gs_status (rp_state r') = Running" by auto
    have "nat (toTick - gs_tick (rp_state r')) < nat (toTick - gs_tick (rp_state r))"
      using b less.prems by simp
    from less.hyps[OF this a(3) b(3) False b(2), of w'] obtain n r'' w'' where
      "advance n h toTick imp L (r', w') = Some (r'', w'')" "rp_done r''"
      "int n \<le> toTick - gs_tick (rp_state r')"
      "gs_status (rp_state r'') = Running \<or> gs_status (rp_state r'') = LevelDone" by blast
    then show ?thesis using a(1) less.prems(3) b by (intro exI[of _ "Suc n"]) auto
  qed
qed

theorem replay_ends:
  assumes "\<forall>l. playable (L l)" "0 \<le> si_elapsed start" "toTick \<le> TICK_LIMIT"
  shows "\<exists>res w'. replay start h toTick imp L w = Some (res, w')"
proof (cases "toTick \<le> 0")
  case True
  then show ?thesis by (simp add: replay_def createReplayer_def runToEnd.simps)
next
  case False
  let ?r = "createReplayer start toTick L"
  have "rp_state ?r = initialState start L" by (simp add: createReplayer_def)
  then have "paced (rp_state ?r)" "gs_status (rp_state ?r) = Running" "\<not> rp_done ?r"
    "gs_tick (rp_state ?r) < toTick"
    using False initialState_paced[OF assms(2), of L] by (simp_all add: createReplayer_def) (simp_all add: initialState_def)
  from advance_ends[OF assms(1) this assms(3), of h imp w] obtain n r' w'
    where "advance n h toTick imp L (?r, w) = Some (r', w')" "rp_done r'" by blast
  from runToEnd_advance[OF this(1)] this(2) show ?thesis by (simp add: replay_def)
qed

section \<open>What a replay without divergence certifies\<close>

abbreviation inputsOf :: "HistoryEvent list \<Rightarrow> HistoryEvent list" where
  "inputsOf \<equiv> filter isInputEvent"

abbreviation outcomesOf :: "HistoryEvent list \<Rightarrow> HistoryEvent list" where
  "outcomesOf \<equiv> filter (\<lambda>e. \<not> isInputEvent e)"

lemma matches_append: "matches a b \<Longrightarrow> matches c d \<Longrightarrow> matches (a @ c) (b @ d)"
  by (auto simp: matches_def)

text \<open>
  The part of the history behind the cursor is, up to the fields \<open>matches\<close> compares, the recording of a
  run that reaches the replayer's state; the rest lies at or after its tick.
\<close>

definition certified :: "LevelTable \<Rightarrow> StartInput \<Rightarrow> HistoryEvent list \<Rightarrow> Replayer \<Rightarrow> bool" where
  "certified L start h r \<longleftrightarrow>
     (\<forall>e \<in> set (drop (rp_cursor r) h). gs_tick (rp_state r) \<le> ev_tick e) \<and>
     (\<exists>g vs. segment L start g (rp_state r) vs \<and> inputsOf g = inputsOf (take (rp_cursor r) h) \<and>
        matches (outcomesOf (take (rp_cursor r) h)) (outcomesOf g))"

lemma due_sorted:
  assumes "sorted (map ev_tick es)" "\<forall>e \<in> set es. t \<le> ev_tick e"
  obtains now later where "es = now @ later" "\<forall>e \<in> set now. ev_tick e = t" "\<forall>e \<in> set later. t < ev_tick e"
    "due t es = (map inputOf (inputsOf now), outcomesOf now, length now)"
proof -
  define now where "now = takeWhile (\<lambda>e. ev_tick e = t) es"
  define later where "later = dropWhile (\<lambda>e. ev_tick e = t) es"
  have e: "es = now @ later" by (simp add: now_def later_def)
  have n: "\<forall>e \<in> set now. ev_tick e = t" by (auto simp: now_def dest: set_takeWhileD)
  have l: "\<forall>e \<in> set later. t < ev_tick e"
  proof (cases later)
    case (Cons x xs)
    then have "ev_tick x \<noteq> t" using hd_dropWhile[of "\<lambda>e. ev_tick e = t" es] by (simp add: later_def)
    moreover have "t \<le> ev_tick x" using assms(2) e Cons by simp
    moreover have "\<forall>y \<in> set xs. ev_tick x \<le> ev_tick y" using assms(1) by (simp add: e Cons sorted_append)
    ultimately show ?thesis by (auto simp: Cons)
  qed simp
  have "due t es = (map inputOf (inputsOf now), outcomesOf now, length now)"
    unfolding e by (rule due_split) (use n l in auto)
  with that[OF e n l] show thesis .
qed

lemma advanceOne_certified:
  assumes "certified L start h r" "sorted (map ev_tick h)" "gs_status (rp_state r) = Running"
    "advanceOne h toTick imp L (r, w) = Some (r', w')" "rp_divergedAt r' = None"
  shows "certified L start h r'" "rp_divergedAt r = None"
proof -
  let ?s = "rp_state r" and ?c = "rp_cursor r"
  have rest: "\<forall>e \<in> set (drop ?c h). gs_tick ?s \<le> ev_tick e" using assms(1) by (simp add: certified_def)
  have "sorted (map ev_tick (drop ?c h))" using assms(2) by (simp add: drop_map[symmetric] sorted_wrt_drop)
  from due_sorted[OF this rest] obtain now later where d: "drop ?c h = now @ later"
    "\<forall>e \<in> set now. ev_tick e = gs_tick ?s" "\<forall>e \<in> set later. gs_tick ?s < ev_tick e"
    "due (gs_tick ?s) (drop ?c h) = (map inputOf (inputsOf now), outcomesOf now, length now)" by blast
  obtain s' evs where st: "step ?s (map inputOf (inputsOf now)) (replayPorts imp (crateResults h)) L w = Some (s', evs, w')"
    "r' = observe h toTick (outcomesOf now) (length now) s' evs r"
    using assms(4) d(4) by (auto simp: advanceOne_def bind_eq_Some_conv)
  have o: "rp_divergedAt r = None" "matches (outcomesOf now) evs" "rp_state r' = s'"
    "rp_cursor r' = ?c + length now" "gs_status s' = Running \<or> gs_status s' = LevelDone"
    using assms(5) by (cases "gs_status s'"; auto simp: st(2) observe_def Let_def split: if_splits)+
  then show "rp_divergedAt r = None" by simp
  from st(1) assms(3) obtain us where us: "length us = orbsOf evs"
    "ask (replayPorts imp (crateResults h)) (callsOf evs) w = (answersOf evs us, w')"
    "\<forall>e \<in> set evs. outcome e \<and> ev_tick e = gs_tick ?s \<and> ev_hash e = hashState s'"
    "gs_tick s' = gs_tick ?s + 1"
    by (rule step_explained[where 'b = unit])
  from assms(1) obtain g vs where g: "segment L start g ?s vs" "inputsOf g = inputsOf (take ?c h)"
    "matches (outcomesOf (take ?c h)) (outcomesOf g)" by (auto simp: certified_def)
  have seg: "segment L start (g @ inputsOf now @ evs) s' (vs @ us)"
    using d(2) by (intro segment_live[OF g(1) assms(3) _ st(1) us(2,1) o(5)]) auto
  have out: "inputsOf evs = []" "outcomesOf evs = evs"
    using us(3) by (auto simp: isInputEvent_outcome filter_empty_conv filter_id_conv)
  have tk: "take (?c + length now) h = take ?c h @ now" "drop (?c + length now) h = later"
    using d(1) by (simp_all add: take_add) (metis add.commute append_eq_conv_conj drop_drop)
  show "certified L start h r'"
    unfolding certified_def o(3,4) tk
  proof (intro conjI exI)
    show "\<forall>e \<in> set later. gs_tick s' \<le> ev_tick e" using d(3) us(4) by force
    show "segment L start (g @ inputsOf now @ evs) s' (vs @ us)" by (rule seg)
  qed (use g(2,3) o(2) out matches_append in auto)
qed

lemma observe_running: "rp_done (observe h t ex n s evs r) \<or> gs_status (rp_state (observe h t ex n s evs r)) = Running"
  by (simp add: observe_def Let_def)

lemma advanceOne_running:
  assumes "advanceOne h toTick imp L (r, w) = Some (r', w')"
  shows "rp_done r' \<or> gs_status (rp_state r') = Running"
  by (rule advanceOne_cases[OF assms]) (use observe_running in blast)

lemma advance_certified:
  assumes "certified L start h r" "sorted (map ev_tick h)"
    "rp_done r \<or> gs_status (rp_state r) = Running"
    "advance n h toTick imp L (r, w) = Some (r', w')" "rp_divergedAt r' = None"
  shows "certified L start h r'"
  using assms
proof (induction n arbitrary: r w)
  case (Suc n)
  show ?case
  proof (cases "rp_done r")
    case False
    then have run: "gs_status (rp_state r) = Running" using Suc.prems(3) by simp
    from Suc.prems(4) False obtain r1 w1 where a: "advanceOne h toTick imp L (r, w) = Some (r1, w1)"
      "advance n h toTick imp L (r1, w1) = Some (r', w')" by (auto simp: bind_eq_Some_conv)
    have keep: "rp_divergedAt r1 = None" by (rule advance_divergedAt[OF a(2) Suc.prems(5)])
    have "rp_done r1 \<or> gs_status (rp_state r1) = Running" by (rule advanceOne_running[OF a(1)])
    then show ?thesis
      using Suc.IH[OF advanceOne_certified(1)[OF Suc.prems(1,2) run a(1) keep] Suc.prems(2) _ a(2) Suc.prems(5)]
      by blast
  qed (use Suc.prems in auto)
qed simp

lemma createReplayer_certified:
  "\<forall>e \<in> set h. 0 \<le> ev_tick e \<Longrightarrow> certified L start h (createReplayer start toTick L)"
  using segment_start[of L start]
  by (auto simp: certified_def createReplayer_def matches_refl) (simp add: initialState_def)

lemma runToEnd_advances:
  assumes "runToEnd h t imp L rw = Some rw'"
  obtains n where "advance n h t imp L rw = Some rw'" "rp_done (fst rw')"
proof -
  have "\<exists>n. advance n h t imp L rw = Some rw' \<and> rp_done (fst rw')"
  proof (rule runToEnd.raw_induct[where P = "\<lambda>h t imp L rw rw'. \<exists>n. advance n h t imp L rw = Some rw' \<and> rp_done (fst rw')", OF _ assms])
    fix f h t imp L and rw rw' :: "Replayer \<times> 'a"
    assume IH: "\<And>h t imp L rw rw'. f h t imp L rw = Some rw' \<Longrightarrow>
        \<exists>n. advance n h t imp L rw = Some rw' \<and> rp_done (fst rw')"
      and eq: "(if rp_done (fst rw) then Some rw else advanceOne h t imp L rw \<bind> f h t imp L) = Some rw'"
    show "\<exists>n. advance n h t imp L rw = Some rw' \<and> rp_done (fst rw')"
    proof (cases "rp_done (fst rw)")
      case True
      then show ?thesis using eq by (intro exI[of _ 0]) auto
    next
      case False
      then obtain rw1 where 1: "advanceOne h t imp L rw = Some rw1" "f h t imp L rw1 = Some rw'"
        using eq by (auto simp: bind_eq_Some_conv)
      from IH[OF 1(2)] obtain n where "advance n h t imp L rw1 = Some rw'" "rp_done (fst rw')" by blast
      then show ?thesis using 1(1) False by (intro exI[of _ "Suc n"]) simp
    qed
  qed
  then show thesis using that by blast
qed

theorem replay_ok_certified:
  assumes "replay start h toTick imp L w = Some (ReplayOk s, w')"
    "sorted (map ev_tick h)" "\<forall>e \<in> set h. 0 \<le> ev_tick e"
  obtains g vs n where "segment L start g s vs" "inputsOf g = inputsOf (take n h)"
    "matches (outcomesOf (take n h)) (outcomesOf g)" "\<forall>e \<in> set (drop n h). gs_tick s \<le> ev_tick e"
proof -
  obtain r where r: "runToEnd h toTick imp L (createReplayer start toTick L, w) = Some (r, w')"
    "rp_divergedAt r = None" "rp_state r = s"
    using assms(1) by (auto simp: replay_def result_def bind_eq_Some_conv split: option.splits)
  from runToEnd_advances[OF r(1)] obtain n where
    "advance n h toTick imp L (createReplayer start toTick L, w) = Some (r, w')" by blast
  from advance_certified[OF createReplayer_certified[OF assms(3)] assms(2) _ this r(2)]
  have "certified L start h r" by (simp add: createReplayer_def initialState_def)
  then show thesis using that r(3) by (auto simp: certified_def)
qed

lemma segment_paced:
  assumes "segment L start h s vs" "\<forall>l. playable (L l)" "0 \<le> si_elapsed start" "gs_tick s \<le> TICK_LIMIT"
  shows "paced s"
  using assms
proof (induction rule: segment.induct)
  case segment_start
  then show ?case by (intro initialState_paced)
next
  case (segment_tick h s vs ins evs us s')
  have "gs_tick s' = gs_tick s + 1" by (rule step_explained[OF segment_tick.hyps(4,2)])
  then have "paced s" "gs_tick s < TICK_LIMIT" using segment_tick by auto
  from step_ends[OF this assms(2), of "map inputOf ins" scripted "answersOf evs us"]
  show ?case using segment_tick.hyps(4) by auto
qed

end
