(* ===== verification/EngineTheorems.thy ===== *)
theory EngineTheorems
  imports Replayer
begin

text \<open>
  The engine's correctness properties, over whole recorded segments. \<open>recordRun\<close> plays a segment with
  given inputs and outside values the way the runtime does, so that the properties can be exercised
  on concrete runs.
\<close>

section \<open>Recording a run\<close>

text \<open>The values the orbs of a tick drew, out of all the answers the tick received.\<close>

fun orbAnswers :: "HistoryEvent list \<Rightarrow> rat list \<Rightarrow> rat list" where
  "orbAnswers (OrbTaken _ _ _ # es) (v # vs) = v # orbAnswers es vs"
| "orbAnswers (ActivityCrateCollected _ _ _ _ # es) (v # vs) = orbAnswers es vs"
| "orbAnswers (_ # es) vs = orbAnswers es vs"
| "orbAnswers [] vs = []"

lemma orbAnswers_answersOf: "length us = orbsOf evs \<Longrightarrow> orbAnswers evs (answersOf evs us) = us"
  by (induction evs us rule: answersOf.induct) auto

fun recordRun ::
  "LevelTable \<Rightarrow> HistoryEvent list list \<Rightarrow> rat list \<Rightarrow> GameState
    \<Rightarrow> (HistoryEvent list \<times> GameState \<times> rat list) option" where
  "recordRun L [] vs s = Some ([], s, [])"
| "recordRun L (ins # rest) vs s =
     (if gs_status s \<noteq> Running \<or> \<not> list_all (\<lambda>e. isInputEvent e \<and> ev_tick e = gs_tick s) ins then None
      else do { (s', evs, vs') \<leftarrow> step s (map inputOf ins) scripted L vs;
                (h, s'', us) \<leftarrow> recordRun L rest vs' s';
                Some (ins @ evs @ h, s'', orbAnswers evs (fst (ask scripted (callsOf evs) vs)) @ us) })"

lemma recordRun_segment:
  assumes "recordRun L inss vs s = Some (h', s', us)" "segment L start h s us0"
    "gs_status s' = Running \<or> gs_status s' = LevelDone"
  shows "segment L start (h @ h') s' (us0 @ us)"
  using assms
proof (induction inss arbitrary: vs s h h' us us0)
  case (Cons ins inss)
  from Cons.prems(1) obtain s1 evs vs1 h1 us1 where a: "gs_status s = Running"
    "\<forall>e \<in> set ins. isInputEvent e \<and> ev_tick e = gs_tick s"
    "step s (map inputOf ins) scripted L vs = Some (s1, evs, vs1)"
    "recordRun L inss vs1 s1 = Some (h1, s', us1)" "h' = ins @ evs @ h1"
    "us = orbAnswers evs (fst (ask scripted (callsOf evs) vs)) @ us1"
    by (auto simp: bind_eq_Some_conv list_all_iff split: if_splits)
  have ok: "gs_status s1 = Running \<or> gs_status s1 = LevelDone"
    using a(4) Cons.prems(3) by (cases inss) (auto split: if_splits)
  from a(3,1) obtain os where o: "length os = orbsOf evs"
    "ask scripted (callsOf evs) vs = (answersOf evs os, vs1)" by (rule step_explained[where 'b = unit])
  from segment_live[OF Cons.prems(2) a(1,2,3) o(2,1) ok]
  have "segment L start (h @ ins @ evs) s1 (us0 @ os)" .
  from Cons.IH[OF a(4) this Cons.prems(3)]
  show ?case using a(5,6) o by (simp add: orbAnswers_answersOf)
qed simp

section \<open>Runs for the witnesses\<close>

text \<open>
  Two fast levels, one that spawns only orbs and one that spawns only coins, and runs of seven ticks
  that take the first of them.
\<close>

definition fastTable :: "EntityKind \<Rightarrow> LevelTable" where
  "fastTable k l =
     (LEVELS l)\<lparr>lc_speed := 100, lc_maxSpeed := 100, lc_weights := [k \<mapsto> 1], lc_length := Infinity\<rparr>"

definition demoStart :: StartInput where
  "demoStart = \<lparr>si_level = L2, si_seed = 7, si_score = 0, si_elapsed = 0, si_distance = 0,
     si_boss = False, si_retries = 3, si_shield = 0\<rparr>"

definition demoInputs :: "HistoryEvent list list" where
  "demoInputs = [Input 0 SlideEnd] # replicate 6 []"

definition demoRun :: "EntityKind \<Rightarrow> (HistoryEvent list \<times> GameState \<times> rat list) option" where
  "demoRun k = recordRun (fastTable k) demoInputs [1 / 4] (initialState demoStart (fastTable k))"

definition demoHistory :: "EntityKind \<Rightarrow> HistoryEvent list" where
  "demoHistory k = fst (the (demoRun k))"

definition demoState :: "EntityKind \<Rightarrow> GameState" where
  "demoState k = fst (snd (the (demoRun k)))"

lemma demoRun_orb:
  "case demoRun Orb of None \<Rightarrow> False
   | Some (h, s, us) \<Rightarrow> gs_status s = Running \<and> gs_tick s = 7 \<and> us = [1 / 4] \<and> orbsOf h = 1 \<and> length h = 2"
  by code_simp

lemma demoRun_coin:
  "case demoRun Coin of None \<Rightarrow> False
   | Some (h, s, us) \<Rightarrow> gs_status s = Running \<and> gs_tick s = 7 \<and> us = [] \<and> orbsOf h = 0 \<and> pickupIds h = [1]
       \<and> gs_score s = 1 \<and> length h = 2"
  by code_simp

lemma demo_segment_orb:
  "segment (fastTable Orb) demoStart (demoHistory Orb) (demoState Orb) [1 / 4]"
  "gs_tick (demoState Orb) = 7" "orbsOf (demoHistory Orb) = 1"
proof -
  obtain h s us where r: "demoRun Orb = Some (h, s, us)" "gs_status s = Running" "gs_tick s = 7"
    "us = [1 / 4]" "orbsOf h = 1" using demoRun_orb by (auto split: option.splits)
  with recordRun_segment[OF r(1)[unfolded demoRun_def] segment_start]
  show "segment (fastTable Orb) demoStart (demoHistory Orb) (demoState Orb) [1 / 4]"
    "gs_tick (demoState Orb) = 7" "orbsOf (demoHistory Orb) = 1"
    by (simp_all add: demoHistory_def demoState_def)
qed

lemma demo_segment_coin:
  "segment (fastTable Coin) demoStart (demoHistory Coin) (demoState Coin) []"
  "gs_tick (demoState Coin) = 7" "orbsOf (demoHistory Coin) = 0" "pickupIds (demoHistory Coin) = [1]"
proof -
  obtain h s us where r: "demoRun Coin = Some (h, s, us)" "gs_status s = Running" "gs_tick s = 7"
    "us = []" "orbsOf h = 0" "pickupIds h = [1]" using demoRun_coin by (auto split: option.splits)
  with recordRun_segment[OF r(1)[unfolded demoRun_def] segment_start]
  show "segment (fastTable Coin) demoStart (demoHistory Coin) (demoState Coin) []"
    "gs_tick (demoState Coin) = 7" "orbsOf (demoHistory Coin) = 0" "pickupIds (demoHistory Coin) = [1]"
    by (simp_all add: demoHistory_def demoState_def)
qed

section \<open>Replaying what was recorded\<close>

text \<open>
  C1. Crash recovery is exact. Replaying the history of a recorded segment up to its last tick, with
  any runtime inputs already queued at that tick behind it, ends without divergence in exactly the
  live state, provided that the calls the orbs make draw the values they drew when live. Crate
  results are read back from the history, so they need no provision.
\<close>

theorem replay_recorded:
  assumes "segment L start h s vs" "\<forall>e \<in> set queued. isInputEvent e \<and> gs_tick s \<le> ev_tick e"
    "draws imp (orbsOf h) w = (vs, w')"
  shows "replay start (h @ queued) (gs_tick s) imp L w = Some (ReplayOk s, w')"
  using assms by (rule replay_segment)

theorem replay_recorded_witness:
  "replay demoStart (demoHistory Orb @ [OrchestratorStarted 7]) 7 nextValue (fastTable Orb) [1 / 4, 1 / 2]
    = Some (ReplayOk (demoState Orb), [1 / 2])"
  using replay_recorded[OF demo_segment_orb(1), of "[OrchestratorStarted 7]" nextValue "[1 / 4, 1 / 2]" "[1 / 2]"]
  by (simp add: demo_segment_orb isInputEvent_def)

text \<open>
  C2. A segment in which no orb was taken is deterministic: its replay ends in exactly the live state
  whatever the outside world returns, and never even looks at it.
\<close>

theorem replay_orb_free:
  assumes "segment L start h s vs" "orbsOf h = 0"
  shows "replay start h (gs_tick s) imp L w = Some (ReplayOk s, w)"
  using replay_segment[OF assms(1), of "[]" imp w w] segment_orbs[OF assms(1)] assms(2) by simp

theorem replay_orb_free_witness:
  "replay demoStart (demoHistory Coin) 7 nextValue (fastTable Coin) [1 / 2]
    = Some (ReplayOk (demoState Coin), [1 / 2])"
  using replay_orb_free[OF demo_segment_coin(1,3), of nextValue "[1 / 2]"] by (simp add: demo_segment_coin)

lemma matches_all2:
  "matches es as \<longleftrightarrow> list_all2 (\<lambda>e a. eventType e = eventType a \<and> idOf e = idOf a \<and> ev_hash e = ev_hash a) es as"
  by (auto simp: matches_def list_all2_iff list_all_iff split_def)

text \<open>
  C3. A replay that reports success certifies the history it was given: some recorded run from the
  same start has exactly the inputs of the history up to the end tick, outcomes that agree with it in
  type, id and state hash, and ends in the state the replay returns; what is left of the history lies
  at or after that state's tick.
\<close>

theorem replay_ok_sound:
  assumes "replay start h toTick imp L w = Some (ReplayOk s, w')"
    "sorted (map ev_tick h)" "\<forall>e \<in> set h. 0 \<le> ev_tick e"
  shows "\<exists>g vs n. segment L start g s vs \<and> filter isInputEvent g = filter isInputEvent (take n h) \<and>
    list_all2 (\<lambda>e a. eventType e = eventType a \<and> idOf e = idOf a \<and> ev_hash e = ev_hash a)
      (filter (\<lambda>e. \<not> isInputEvent e) (take n h)) (filter (\<lambda>e. \<not> isInputEvent e) g) \<and>
    (\<forall>e \<in> set (drop n h). gs_tick s \<le> ev_tick e)"
proof -
  obtain g vs n where "segment L start g s vs" "filter isInputEvent g = filter isInputEvent (take n h)"
    "matches (filter (\<lambda>e. \<not> isInputEvent e) (take n h)) (filter (\<lambda>e. \<not> isInputEvent e) g)"
    "\<forall>e \<in> set (drop n h). gs_tick s \<le> ev_tick e"
    by (rule replay_ok_certified[OF assms])
  then show ?thesis unfolding matches_all2 by (intro exI conjI)
qed

theorem replay_ok_sound_witness:
  "\<exists>g vs n. segment LEVELS demoStart g (initialState demoStart LEVELS) vs \<and>
    filter isInputEvent g = filter isInputEvent (take n [Input 0 Jump]) \<and>
    list_all2 (\<lambda>e a. eventType e = eventType a \<and> idOf e = idOf a \<and> ev_hash e = ev_hash a)
      (filter (\<lambda>e. \<not> isInputEvent e) (take n [Input 0 Jump])) (filter (\<lambda>e. \<not> isInputEvent e) g) \<and>
    (\<forall>e \<in> set (drop n [Input 0 Jump]). gs_tick (initialState demoStart LEVELS) \<le> ev_tick e)"
  by (rule replay_ok_sound[where toTick = 0 and imp = nextValue and w = "[]" and w' = "[]"])
    (simp_all add: replay_def createReplayer_def runToEnd.simps result_def)

text \<open>
  C4. Every replay returns, for any history and any outside world, on every level table whose speeds
  lie between 3 and 9 px per tick, up to \<open>2^48\<close> ticks.
\<close>

theorem replay_terminates:
  assumes "\<forall>l. playable (L l)" "0 \<le> si_elapsed start" "toTick \<le> TICK_LIMIT"
  shows "\<exists>res w'. replay start h toTick imp L w = Some (res, w')"
  using assms by (rule replay_ends)

theorem replay_terminates_witness:
  "\<exists>res w'. replay demoStart [Input 0 Jump, OrbTaken 5 1 0] 100000 nextValue LEVELS [] = Some (res, w')"
  by (rule replay_terminates) (simp_all add: LEVELS_playable demoStart_def)

text \<open>
  How a replay is cut into frames does not matter: advancing \<open>m\<close> and then \<open>n\<close> ticks is advancing
  \<open>m + n\<close> ticks, with the same calls on the outside world.
\<close>

theorem advance_chunks:
  "advance (m + n) h toTick imp L rw = advance m h toTick imp L rw \<bind> advance n h toTick imp L"
  by (rule advance_add)

text \<open>
  C5. Live play never hangs: on a playable level table, the next tick of every state a recorded segment
  reaches returns, whatever the inputs and the outside world, for the first \<open>2^48\<close> ticks.
\<close>

theorem step_returns:
  assumes "\<forall>l. playable (L l)" "0 \<le> si_elapsed start" "segment L start h s vs" "gs_tick s < TICK_LIMIT"
  shows "\<exists>s' evs w'. step s inputs ports L w = Some (s', evs, w')"
  using step_ends[OF segment_paced[OF assms(3,1,2)] assms(4,1)] assms(4) by force

theorem step_returns_witness:
  "\<exists>s' evs w'. step (initialState demoStart LEVELS) [Key Jump] scripted LEVELS [] = Some (s', evs, w')"
  by (rule step_returns[OF _ _ segment_start[of LEVELS demoStart]])
    (simp_all add: LEVELS_playable demoStart_def, simp add: initialState_def)

text \<open>
  C6. What a tick of a running state reports: every event is an outcome of that tick and carries the
  hash of the state the tick ends in; the tick counter and the level clock advance by one.
\<close>

theorem step_report:
  assumes "step s inputs ports L w = Some (s', evs, w')" "gs_status s = Running"
  shows "(\<forall>e \<in> set evs. \<not> isInputEvent e \<and> ev_tick e = gs_tick s \<and> ev_hash e = hashState s') \<and>
    gs_tick s' = gs_tick s + 1 \<and> gs_elapsed s' = gs_elapsed s + 1"
  using step_explained[OF assms] by (metis isInputEvent_outcome)

theorem step_report_witness:
  "case step (initialState demoStart LEVELS) [Key Jump] scripted LEVELS [] of None \<Rightarrow> False
   | Some (s', evs, w') \<Rightarrow> (\<forall>e \<in> set evs. \<not> isInputEvent e \<and> ev_tick e = 0 \<and> ev_hash e = hashState s') \<and>
       gs_tick s' = 1 \<and> gs_elapsed s' = 1"
proof -
  have "case step (initialState demoStart LEVELS) [Key Jump] scripted LEVELS [] of None \<Rightarrow> False | Some _ \<Rightarrow> True"
    by code_simp
  then obtain s' evs w' where "step (initialState demoStart LEVELS) [Key Jump] scripted LEVELS [] = Some (s', evs, w')"
    by (auto split: option.splits)
  with step_report[OF this] show ?thesis by (simp add: initialState_def demoStart_def)
qed

text \<open>
  C7. No activity is executed twice: in the history of a segment, no coin, orb or crate id is collected
  more than once.
\<close>

theorem pickups_once:
  assumes "segment L start h s vs"
  shows "distinct (pickupIds h)"
  using collected_distinct[OF segment_collected[OF assms]] .

theorem pickups_once_witness: "distinct (pickupIds (demoHistory Coin)) \<and> pickupIds (demoHistory Coin) = [1]"
  using pickups_once[OF demo_segment_coin(1)] demo_segment_coin(4) by simp

end
