(* ===== verification/Rewind.thy ===== *)
theory Rewind
  imports Replayer
begin

text \<open>
  The rewind buffer of the RetryPolicy (\<open>runtime/rewind.ts\<close>): the recent states of the current
  segment, and which of them a retry goes back to. The class is a record; the \<open>throw\<close> of \<open>pick\<close> is
  \<open>None\<close>. Lemmas: the buffer always holds the latest states, oldest first, and never more than
  \<open>REWIND_BUFFER_TICKS\<close> of them plus the anchor; \<open>pick\<close> returns the latest safe state in the allowed
  window, and throws only on an empty buffer; \<open>sample\<close> keeps the ends and stays in range.
\<close>

abbreviation REWIND_BUFFER_TICKS :: nat where "REWIND_BUFFER_TICKS \<equiv> 180"
abbreviation REWIND_PX :: rat where "REWIND_PX \<equiv> 240"
abbreviation REWIND_FRAMES :: nat where "REWIND_FRAMES \<equiv> 30"
abbreviation SAFE_BEHIND :: rat where "SAFE_BEHIND \<equiv> 10"
abbreviation SAFE_AHEAD :: rat where "SAFE_AHEAD \<equiv> 120"

definition hatSafe :: "Player \<Rightarrow> Entity list \<Rightarrow> bool" where
  "hatSafe p es =
     (if pl_y p \<noteq> GROUND_Y \<or> pl_vy p \<noteq> 0 then False
      else let lo = PLAYER_X - SAFE_BEHIND; hi = PLAYER_X + PLAYER_W + SAFE_AHEAD
           in \<not> list_ex (\<lambda>e. HAZARDS (ent_kind e) \<and> \<not> ent_taken e \<and> ent_x e < hi \<and> lo < fadd (ent_x e) (ent_w e)) es)"

definition isSafe :: "GameState \<Rightarrow> bool" where
  "isSafe s = (case gs_fan s of
      None \<Rightarrow> hatSafe (gs_player s) (gs_entities s)
    | Some f \<Rightarrow> list_all (\<lambda>l. hatSafe (ln_player l) (ln_entities l)) (fan_lanes f))"

record RewindBuffer =
  rb_anchor :: "GameState option"
  rb_ring :: "GameState list"
  rb_wrapped :: bool

definition emptyBuffer :: RewindBuffer where
  "emptyBuffer = \<lparr>rb_anchor = None, rb_ring = [], rb_wrapped = False\<rparr>"

definition reset :: "GameState \<Rightarrow> RewindBuffer \<Rightarrow> RewindBuffer" where
  "reset anchor b = \<lparr>rb_anchor = Some anchor, rb_ring = [], rb_wrapped = False\<rparr>"

definition push :: "GameState \<Rightarrow> RewindBuffer \<Rightarrow> RewindBuffer" where
  "push s b =
     (let ring = rb_ring b @ [s]
      in if REWIND_BUFFER_TICKS < length ring then b\<lparr>rb_ring := tl ring, rb_wrapped := True\<rparr>
         else b\<lparr>rb_ring := ring\<rparr>)"

definition allStates :: "RewindBuffer \<Rightarrow> GameState list" where
  "allStates b =
     (if rb_wrapped b then rb_ring b
      else case rb_anchor b of None \<Rightarrow> rb_ring b | Some a \<Rightarrow> a # rb_ring b)"

definition pick :: "int \<Rightarrow> int \<Rightarrow> int \<Rightarrow> RewindBuffer \<Rightarrow> GameState option" where
  "pick failedAt minBack lowest b =
     (let every = allStates b;
          candidates = filter (\<lambda>s. lowest \<le> gs_tick s) every;
          limit = failedAt - minBack
      in case find (\<lambda>s. gs_tick s \<le> limit \<and> isSafe s) (rev candidates) of
           Some s \<Rightarrow> Some s
         | None \<Rightarrow>
             (case candidates of
                c # _ \<Rightarrow> Some c
              | [] \<Rightarrow> (if every = [] then None else Some (last every))))"

definition between :: "int \<Rightarrow> int \<Rightarrow> RewindBuffer \<Rightarrow> GameState list" where
  "between from to b = filter (\<lambda>s. from \<le> gs_tick s \<and> gs_tick s \<le> to) (allStates b)"

definition dropAfter :: "int \<Rightarrow> RewindBuffer \<Rightarrow> RewindBuffer" where
  "dropAfter tick b = b\<lparr>rb_ring := filter (\<lambda>s. gs_tick s \<le> tick) (rb_ring b)\<rparr>"

text \<open>The index of the \<open>i\<close>-th sample, \<open>Math.round((i * (length - 1)) / (n - 1))\<close>.\<close>

definition sampleIndex :: "nat \<Rightarrow> nat \<Rightarrow> nat \<Rightarrow> nat" where
  "sampleIndex len n i = nat (mathRound (fdiv (of_nat (i * (len - 1))) (of_nat (n - 1))))"

definition sample :: "'a list \<Rightarrow> nat \<Rightarrow> 'a list" where
  "sample items n =
     (if n = 0 then []
      else if n = 1 then (case items of [] \<Rightarrow> [] | x # _ \<Rightarrow> [x])
      else if length items \<le> n then items
      else map (\<lambda>i. items ! sampleIndex (length items) n i) [0..<n])"

section \<open>The buffer as a bounded log\<close>

text \<open>
  The contract the game relies on, for any log with a capacity: a reset leaves only the anchor, and a
  push appends and may forget the oldest entry, never a recent one.
\<close>

locale bounded_log =
  fixes start :: "'s \<Rightarrow> 'b \<Rightarrow> 'b" and add :: "'s \<Rightarrow> 'b \<Rightarrow> 'b" and entries :: "'b \<Rightarrow> 's list"
    and capacity :: nat and inv :: "'b \<Rightarrow> bool"
  assumes entries_start: "entries (start s b) = [s]"
    and inv_start: "inv (start s b)"
    and inv_add: "inv b \<Longrightarrow> inv (add s b)"
    and entries_add: "inv b \<Longrightarrow> \<exists>k. entries (add s b) = drop k (entries b) @ [s] \<and>
          (capacity \<le> length (entries (add s b)) \<or> k = 0)"
    and bounded: "inv b \<Longrightarrow> length (entries b) \<le> capacity + 1"
begin

lemma inv_adds: "inv b \<Longrightarrow> inv (fold add ss b)"
  by (induction ss arbitrary: b) (simp_all add: inv_add)

lemma entries_adds:
  assumes "inv b"
  shows "\<exists>k. entries (fold add ss b) = drop k (entries b @ ss) \<and>
    (capacity \<le> length (entries (fold add ss b)) \<or> k = 0)"
  using assms
proof (induction ss rule: rev_induct)
  case (snoc s ss)
  then obtain k where k: "entries (fold add ss b) = drop k (entries b @ ss)"
    "capacity \<le> length (entries (fold add ss b)) \<or> k = 0" by blast
  obtain j where j: "entries (add s (fold add ss b)) = drop j (entries (fold add ss b)) @ [s]"
    "capacity \<le> length (entries (add s (fold add ss b))) \<or> j = 0"
    using entries_add[OF inv_adds[OF snoc.prems]] by blast
  define e where "e = entries b @ ss"
  let ?m = "min (j + k) (length e)"
  have "drop j (drop k e) = drop ?m e" by (simp add: min_def)
  then have "entries (add s (fold add ss b)) = drop ?m (entries b @ ss @ [s])"
    using j(1) k(1) by (simp add: e_def[symmetric] flip: append_assoc)
  moreover have "j = 0 \<Longrightarrow> k = 0 \<Longrightarrow> ?m = 0" by simp
  moreover have "capacity \<le> length (entries (add s (fold add ss b)))" if "j = 0" "k \<noteq> 0"
    using that k(2) j(1) by simp
  ultimately show ?case using j(2) by (intro exI[of _ ?m]) auto
qed (auto intro: exI[of _ 0])

theorem recent_kept:
  assumes "length ss \<le> capacity"
  shows "\<exists>older. entries (fold add ss (start a b)) = older @ ss"
proof -
  obtain k where k: "entries (fold add ss (start a b)) = drop k (a # ss)"
    "capacity \<le> length (entries (fold add ss (start a b))) \<or> k = 0"
    using entries_adds[OF inv_start, of ss a b] by (auto simp: entries_start)
  show ?thesis
  proof (cases "ss = []")
    case False
    then have "0 < length ss" by simp
    moreover have "length ss \<le> Suc (length ss) - k \<or> k = 0" using k(2) assms by (auto simp: k(1))
    ultimately have "k \<le> 1" by arith
    then show ?thesis using k(1) by (cases k) auto
  qed simp
qed

end

text \<open>The buffer wraps only when the ring is full.\<close>

definition bufferInv :: "RewindBuffer \<Rightarrow> bool" where
  "bufferInv b \<longleftrightarrow> rb_anchor b \<noteq> None \<and> length (rb_ring b) \<le> REWIND_BUFFER_TICKS"

lemma push_inv: "bufferInv b \<Longrightarrow> bufferInv (push s b)"
  by (auto simp: bufferInv_def push_def Let_def)

lemma allStates_push:
  assumes "bufferInv b"
  shows "\<exists>k. allStates (push s b) = drop k (allStates b) @ [s] \<and>
    (REWIND_BUFFER_TICKS \<le> length (allStates (push s b)) \<or> k = 0)"
proof (cases "REWIND_BUFFER_TICKS < length (rb_ring b @ [s])")
  case True
  then have l: "length (rb_ring b) = REWIND_BUFFER_TICKS" using assms by (simp add: bufferInv_def)
  then obtain x xs where x: "rb_ring b = x # xs" by (cases "rb_ring b") auto
  show ?thesis
  proof (cases "rb_wrapped b")
    case True
    then show ?thesis using l x by (intro exI[of _ 1]) (simp add: push_def allStates_def Let_def)
  next
    case False
    then show ?thesis using l x assms
      by (intro exI[of _ 2]) (auto simp: push_def allStates_def bufferInv_def Let_def)
  qed
next
  case False
  then show ?thesis by (intro exI[of _ 0]) (auto simp: push_def allStates_def Let_def split: option.split)
qed

lemma allStates_bound: "bufferInv b \<Longrightarrow> length (allStates b) \<le> REWIND_BUFFER_TICKS + 1"
  by (auto simp: bufferInv_def allStates_def split: option.split)

interpretation rw: bounded_log reset push allStates REWIND_BUFFER_TICKS bufferInv
proof
  show "allStates (reset s b) = [s]" for s b by (simp add: reset_def allStates_def)
  show "bufferInv (reset s b)" for s b by (simp add: reset_def bufferInv_def)
qed (use push_inv allStates_push allStates_bound in blast)+

section \<open>Which state a retry goes back to\<close>

lemma find_None_rev: "find P (rev xs) = None \<longleftrightarrow> (\<forall>x \<in> set xs. \<not> P x)"
  by (auto simp: find_None_iff)

lemma find_rev_latest:
  assumes "find P (rev xs) = Some x" "sorted_wrt (\<lambda>a b. f a < (f b :: int)) xs" "y \<in> set xs" "P y"
  shows "f y \<le> f x"
proof -
  obtain i where i: "i < length xs" "P (rev xs ! i)" "x = rev xs ! i" "\<forall>j < i. \<not> P (rev xs ! j)"
    using assms(1) by (auto simp: find_Some_iff)
  obtain k where k: "k < length xs" "y = rev xs ! k" using assms(3) by (metis in_set_conv_nth length_rev set_rev)
  have "i \<le> k" using i(4) k assms(4) by (meson not_le)
  then show ?thesis
    using assms(2) i(1,3) k
    by (cases "i = k") (auto simp: rev_nth sorted_wrt_iff_nth_less intro!: less_imp_le)
qed

lemma pick_None: "pick failedAt minBack lowest b = None \<longleftrightarrow> allStates b = []"
  by (auto simp: pick_def Let_def filter_empty_conv split: option.splits list.splits)

lemma pick_in:
  assumes "pick failedAt minBack lowest b = Some s"
  shows "s \<in> set (allStates b)"
  using assms
  by (auto simp: pick_def Let_def find_Some_iff filter_eq_Cons_iff split: option.splits list.splits if_splits)
    (metis in_set_conv_nth length_rev mem_Collect_eq nth_mem set_filter set_rev)+

text \<open>A state a retry may go back to: not before \<open>lowest\<close>, far enough back, and safe.\<close>

definition eligible :: "int \<Rightarrow> int \<Rightarrow> int \<Rightarrow> GameState \<Rightarrow> bool" where
  "eligible failedAt minBack lowest s \<longleftrightarrow> lowest \<le> gs_tick s \<and> gs_tick s \<le> failedAt - minBack \<and> isSafe s"

abbreviation ascending :: "GameState list \<Rightarrow> bool" where
  "ascending \<equiv> sorted_wrt (\<lambda>a b. gs_tick a < gs_tick b)"

lemma pick_eligible:
  assumes "pick failedAt minBack lowest b = Some s" "ascending (allStates b)"
    "t \<in> set (allStates b)" "eligible failedAt minBack lowest t"
  shows "eligible failedAt minBack lowest s \<and> gs_tick t \<le> gs_tick s"
proof -
  let ?c = "filter (\<lambda>s. lowest \<le> gs_tick s) (allStates b)"
  let ?P = "\<lambda>s. gs_tick s \<le> failedAt - minBack \<and> isSafe s"
  have t: "t \<in> set ?c" "?P t" using assms(3,4) by (auto simp: eligible_def)
  then obtain u where u: "find ?P (rev ?c) = Some u" using find_None_rev[of ?P ?c] by force
  then have "s = u" using assms(1) by (simp add: pick_def Let_def)
  moreover have "gs_tick t \<le> gs_tick u"
    using find_rev_latest[OF u _ t, of gs_tick] assms(2) by (simp add: sorted_wrt_filter)
  moreover have "u \<in> set ?c" "?P u"
    using u by (auto simp: find_Some_iff) (metis length_rev nth_mem set_filter set_rev mem_Collect_eq)+
  ultimately show ?thesis by (simp add: eligible_def)
qed

lemma pick_fallback:
  assumes "pick failedAt minBack lowest b = Some s" "ascending (allStates b)"
    "\<forall>t \<in> set (allStates b). \<not> eligible failedAt minBack lowest t"
    "u \<in> set (allStates b)" "lowest \<le> gs_tick u"
  shows "lowest \<le> gs_tick s \<and> gs_tick s \<le> gs_tick u"
proof -
  let ?c = "filter (\<lambda>s. lowest \<le> gs_tick s) (allStates b)"
  have "find (\<lambda>s. gs_tick s \<le> failedAt - minBack \<and> isSafe s) (rev ?c) = None"
    using assms(3) by (auto simp: find_None_rev eligible_def)
  moreover have u: "u \<in> set ?c" using assms(4,5) by simp
  then obtain c cs where c: "?c = c # cs" by (cases ?c) auto
  ultimately have "s = c" using assms(1) by (simp add: pick_def Let_def)
  moreover have "sorted_wrt (\<lambda>a b. gs_tick a < gs_tick b) (c # cs)" "u \<in> set (c # cs)" "lowest \<le> gs_tick c"
    using sorted_wrt_filter[OF assms(2), of "\<lambda>s. lowest \<le> gs_tick s"] u
      filter_set[of "\<lambda>s. lowest \<le> gs_tick s" "allStates b"] unfolding c by auto
  ultimately show ?thesis by auto
qed

section \<open>Sampling\<close>

lemma sampleIndex_bound:
  assumes "i < n" "n < len" "len \<le> 2 ^ 53"
  shows "sampleIndex len n i < len"
proof -
  have "(of_nat (i * (len - 1)) :: rat) / of_nat (n - 1) \<le> of_int (int (len - 1))"
  proof (cases "n - 1 = 0")
    case False
    have "i \<le> n - 1" using assms(1) by simp
    then have "i * (len - 1) \<le> (len - 1) * (n - 1)" by (simp add: mult.commute)
    then have "(of_nat (i * (len - 1)) :: rat) \<le> of_nat (len - 1) * of_nat (n - 1)"
      by (simp only: of_nat_mult[symmetric] of_nat_le_iff)
    then show ?thesis using False by (simp add: pos_divide_le_eq)
  qed simp
  then have "fdiv (of_nat (i * (len - 1))) (of_nat (n - 1)) \<le> of_int (int (len - 1))"
    unfolding fdiv_def using assms by (intro rnd_le_int) auto
  then have "mathRound (fdiv (of_nat (i * (len - 1))) (of_nat (n - 1))) \<le> int (len - 1)"
    by (simp add: mathRound_def floor_le_iff)
  then show ?thesis using assms unfolding sampleIndex_def by linarith
qed

lemma sampleIndex_ends:
  assumes "1 < n" "len \<le> 2 ^ 53"
  shows "sampleIndex len n 0 = 0" "sampleIndex len n (n - 1) = len - 1"
proof -
  show "sampleIndex len n 0 = 0" by (simp add: sampleIndex_def fdiv_def mathRound_def)
  have "(of_nat ((n - 1) * (len - 1)) :: rat) / of_nat (n - 1) = of_int (int (len - 1))"
    using assms(1) by simp
  then have "fdiv (of_nat ((n - 1) * (len - 1))) (of_nat (n - 1)) = of_int (int (len - 1))"
    unfolding fdiv_def using assms(2) by (simp only:) (rule rnd_of_int, simp)
  then show "sampleIndex len n (n - 1) = len - 1"
    unfolding sampleIndex_def by (simp only: mathRound_of_int nat_int)
qed

lemma sample_length: "length (sample items n) = min n (length items)"
  by (auto simp: sample_def split: list.split)

lemma sample_set:
  assumes "length items \<le> 2 ^ 53"
  shows "set (sample items n) \<subseteq> set items"
  using assms sampleIndex_bound[of _ n "length items"]
  by (auto simp: sample_def split: list.split)

lemma sample_ends:
  assumes "items \<noteq> []" "1 < n" "length items \<le> 2 ^ 53"
  shows "hd (sample items n) = hd items" "last (sample items n) = last items"
proof -
  have "hd (sample items n) = hd items \<and> last (sample items n) = last items"
  proof (cases "length items \<le> n")
    case False
    with assms have s: "sample items n = map (\<lambda>i. items ! sampleIndex (length items) n i) [0..<n]"
      by (simp add: sample_def)
    have "[0..<n] \<noteq> []" "hd [0..<n] = 0" "last [0..<n] = n - 1" using assms(2) by auto
    then show ?thesis
      using assms sampleIndex_ends[OF assms(2,3)] by (simp add: s hd_map last_map hd_conv_nth last_conv_nth)
  qed (use assms in \<open>simp add: sample_def\<close>)
  then show "hd (sample items n) = hd items" "last (sample items n) = last items" by auto
qed

end
