(* ===== verification/RuntimeTypes.thy ===== *)
theory RuntimeTypes
  imports Replayer
begin

text \<open>
  The runtime's data (\<open>runtime/types.ts\<close>, the types of \<open>runtime/tape.ts\<close> and \<open>runtime/montage.ts\<close>), JSON
  values, and what \<open>JSON.stringify\<close> makes of a save. A JSON value is what \<open>JSON.parse\<close> returns: finite
  numbers are rationals, \<open>JInfinite\<close> is a literal too large for a double, and an object lists its
  fields once each.
\<close>

section \<open>Phases, commands and saved runs\<close>

record RunStats =
  rs_replays :: int
  rs_fromHistory :: int
  rs_executed :: int
  rs_incidents :: int
  rs_retriesUsed :: int
  rs_circuitTrips :: int
  rs_boostsLost :: int

datatype Phase =
    TitlePhase
  | ResumePhase (ph_tick: int)
  | TipPhase (ph_level: Level)
  | PlayingPhase
  | PausedPhase
  | CrashingPhase (ph_framesLeft: int)
  | ReplayingPhase
  | RewindingPhase (ph_frames: "GameState list") (ph_index: nat) (ph_attempt: int) (ph_of: int)
  | MontagePhase (ph_events: nat)
  | LostPhase
  | OverPhase (ph_reason: string)

datatype Command = Press PlayerInput | PauseCmd | ConfirmCmd | CancelCmd

record MontageSegment =
  ms_start :: StartInput
  ms_history :: "HistoryEvent list"
  ms_endTick :: int
  ms_orbValues :: "(int \<times> rat) list"

record SaveBody =
  sv_date :: string
  sv_start :: StartInput
  sv_history :: "HistoryEvent list"
  sv_tick :: int
  sv_stats :: RunStats
  sv_divergedAt :: "int option"
  sv_segments :: "MontageSegment list"
  sv_orbValues :: "(int \<times> rat) list"

record TapeRestart =
  tr_liveTick :: int
  tr_impureAt :: int
  tr_chaosAt :: int
  tr_save :: SaveBody

record Tape =
  tp_date :: string
  tp_inputs :: "(int \<times> PlayerInput) list"
  tp_impure :: "int list"
  tp_chaos :: "int list"
  tp_restarts :: "TapeRestart list"
  tp_liveTick :: int

record Save =
  sa_body :: SaveBody
  sa_tape :: Tape

section \<open>JSON\<close>

datatype json =
    JNull
  | JBool bool
  | JNum rat
  | JInfinite
  | JStr string
  | JArr "json list"
  | JObj "(string \<times> json) list"

text \<open>\<open>v.k\<close>, with \<open>None\<close> for \<open>undefined\<close>.\<close>

fun getField :: "json \<Rightarrow> string \<Rightarrow> json option" where
  "getField (JObj fs) k = map_of fs k"
| "getField _ _ = None"

fun jint :: "int \<Rightarrow> json" where
  "jint n = JNum (of_int n)"

fun playerInputName :: "PlayerInput \<Rightarrow> string" where
  "playerInputName Jump = ''jump''"
| "playerInputName JumpEnd = ''jumpEnd''"
| "playerInputName SlideStart = ''slideStart''"
| "playerInputName SlideEnd = ''slideEnd''"

definition startJson :: "StartInput \<Rightarrow> json" where
  "startJson s = JObj [(''level'', jint (levelNumber (si_level s))), (''seed'', jint (si_seed s)),
     (''score'', jint (si_score s)), (''elapsed'', jint (si_elapsed s)), (''distance'', JNum (si_distance s)),
     (''boss'', JBool (si_boss s)), (''retries'', jint (si_retries s)), (''shield'', jint (si_shield s))]"

fun hashJson :: "u32 \<Rightarrow> json" where
  "hashJson h = JNum (num32 h)"

fun eventFields :: "HistoryEvent \<Rightarrow> (string \<times> json) list" where
  "eventFields (Input t k) = [(''kind'', JStr (playerInputName k))]"
| "eventFields (OrchestratorStarted t) = []"
| "eventFields (RetryAttempt t a f) = [(''attempt'', jint a), (''failedAt'', jint f)]"
| "eventFields (ActivityCoinCollected t i h) = [(''id'', jint i), (''hash'', hashJson h)]"
| "eventFields (ActivityCrateCollected t i h r) = [(''id'', jint i), (''hash'', hashJson h), (''result'', JNum r)]"
| "eventFields (OrbTaken t i h) = [(''id'', jint i), (''hash'', hashJson h)]"
| "eventFields (CircuitBreakerTripped t i h) = [(''id'', jint i), (''hash'', hashJson h)]"
| "eventFields (BoostLost t i h) = [(''id'', jint i), (''hash'', hashJson h)]"
| "eventFields (FanOut t h) = [(''hash'', hashJson h)]"
| "eventFields (FanIn t h rs) = [(''hash'', hashJson h), (''results'', JArr (map jint rs))]"

definition eventJson :: "HistoryEvent \<Rightarrow> json" where
  "eventJson e = JObj ((''type'', JStr (eventType e)) # (''tick'', jint (ev_tick e)) # eventFields e)"

definition statsJson :: "RunStats \<Rightarrow> json" where
  "statsJson r = JObj [(''replays'', jint (rs_replays r)), (''fromHistory'', jint (rs_fromHistory r)),
     (''executed'', jint (rs_executed r)), (''incidents'', jint (rs_incidents r)),
     (''retriesUsed'', jint (rs_retriesUsed r)), (''circuitTrips'', jint (rs_circuitTrips r)),
     (''boostsLost'', jint (rs_boostsLost r))]"

definition pairsJson :: "(int \<times> rat) list \<Rightarrow> json" where
  "pairsJson ps = JArr (map (\<lambda>(i, v). JArr [jint i, JNum v]) ps)"

definition segmentJson :: "MontageSegment \<Rightarrow> json" where
  "segmentJson m = JObj [(''start'', startJson (ms_start m)), (''history'', JArr (map eventJson (ms_history m))),
     (''endTick'', jint (ms_endTick m)), (''orbValues'', pairsJson (ms_orbValues m))]"

fun nullableJson :: "int option \<Rightarrow> json" where
  "nullableJson None = JNull"
| "nullableJson (Some n) = jint n"

definition bodyFields :: "SaveBody \<Rightarrow> (string \<times> json) list" where
  "bodyFields b = [(''version'', jint 2), (''date'', JStr (sv_date b)), (''start'', startJson (sv_start b)),
     (''history'', JArr (map eventJson (sv_history b))), (''tick'', jint (sv_tick b)),
     (''stats'', statsJson (sv_stats b)), (''divergedAt'', nullableJson (sv_divergedAt b)),
     (''segments'', JArr (map segmentJson (sv_segments b))), (''orbValues'', pairsJson (sv_orbValues b))]"

definition restartJson :: "TapeRestart \<Rightarrow> json" where
  "restartJson r = JObj [(''liveTick'', jint (tr_liveTick r)), (''impureAt'', jint (tr_impureAt r)),
     (''chaosAt'', jint (tr_chaosAt r)), (''save'', JObj (bodyFields (tr_save r)))]"

definition tapeJson :: "Tape \<Rightarrow> json" where
  "tapeJson t = JObj [(''v'', jint 1), (''date'', JStr (tp_date t)),
     (''inputs'', JArr (map (\<lambda>(l, k). JArr [jint l, JStr (playerInputName k)]) (tp_inputs t))),
     (''impure'', JArr (map jint (tp_impure t))), (''chaos'', JArr (map jint (tp_chaos t))),
     (''restarts'', JArr (map restartJson (tp_restarts t))), (''liveTick'', jint (tp_liveTick t))]"

definition saveJson :: "Save \<Rightarrow> json" where
  "saveJson s = JObj (bodyFields (sa_body s) @ [(''tape'', tapeJson (sa_tape s))])"

end
