(* ===== verification/JsText.thy ===== *)
theory JsText
  imports Prelude
begin

text \<open>
  Strings as the front end uses them: a string is a list of characters, so only text of code units
  below 256 is represented (the source's own letters, punctuation and the micro sign are among them).
  The operations are those of \<open>String.prototype\<close> the sources call.
\<close>

section \<open>Characters\<close>

definition isDigit :: "char \<Rightarrow> bool" where
  "isDigit c \<longleftrightarrow> c \<in> set ''0123456789''"

definition isLower :: "char \<Rightarrow> bool" where
  "isLower c \<longleftrightarrow> 97 \<le> (of_char c :: nat) \<and> (of_char c :: nat) \<le> 122"

definition isUpper :: "char \<Rightarrow> bool" where
  "isUpper c \<longleftrightarrow> 65 \<le> (of_char c :: nat) \<and> (of_char c :: nat) \<le> 90"

abbreviation isLetter :: "char \<Rightarrow> bool" where
  "isLetter c \<equiv> isLower c \<or> isUpper c"

text \<open>White space and line terminators: tab to carriage return, space, no-break space.\<close>

definition isSpace :: "char \<Rightarrow> bool" where
  "isSpace c \<longleftrightarrow> (let n = (of_char c :: nat) in 9 \<le> n \<and> n \<le> 13 \<or> n = 32 \<or> n = 160)"

definition lowerChar :: "char \<Rightarrow> char" where
  "lowerChar c = (let n = (of_char c :: nat) in
     if 65 \<le> n \<and> n \<le> 90 \<or> 192 \<le> n \<and> n \<le> 222 \<and> n \<noteq> 215 then char_of (n + 32) else c)"

section \<open>Strings\<close>

definition trimStart :: "string \<Rightarrow> string" where
  "trimStart s = dropWhile isSpace s"

definition trim :: "string \<Rightarrow> string" where
  "trim s = rev (trimStart (rev (trimStart s)))"

abbreviation toLowerCase :: "string \<Rightarrow> string" where
  "toLowerCase s \<equiv> map lowerChar s"

fun startsWith :: "string \<Rightarrow> string \<Rightarrow> bool" where
  "startsWith s [] = True"
| "startsWith [] (p # ps) = False"
| "startsWith (c # s) (p # ps) = (c = p \<and> startsWith s ps)"

definition endsWith :: "string \<Rightarrow> string \<Rightarrow> bool" where
  "endsWith s p = startsWith (rev s) (rev p)"

fun includesText :: "string \<Rightarrow> string \<Rightarrow> bool" where
  "includesText [] p = (p = [])"
| "includesText (c # s) p = (startsWith (c # s) p \<or> includesText s p)"

fun indexOfChar :: "char \<Rightarrow> string \<Rightarrow> nat option" where
  "indexOfChar c [] = None"
| "indexOfChar c (x # s) = (if x = c then Some 0 else map_option Suc (indexOfChar c s))"

text \<open>\<open>s.split(c)\<close> for a one-character separator.\<close>

fun splitOn :: "char \<Rightarrow> string \<Rightarrow> string list" where
  "splitOn c [] = [[]]"
| "splitOn c (x # s) =
     (if x = c then [] # splitOn c s
      else (case splitOn c s of [] \<Rightarrow> [[x]] | p # ps \<Rightarrow> (x # p) # ps))"

text \<open>\<open>s.padStart(n, c)\<close>.\<close>

definition padStart :: "nat \<Rightarrow> char \<Rightarrow> string \<Rightarrow> string" where
  "padStart n c s = replicate (n - length s) c @ s"

section \<open>Laws\<close>

lemma showNat_isDigit: "c \<in> set (showNat n) \<Longrightarrow> isDigit c"
  unfolding isDigit_def by (rule showNat_digits)

lemma startsWith_append: "startsWith s p \<longleftrightarrow> (\<exists>t. s = p @ t)"
  by (induction s p rule: startsWith.induct) auto

lemma startsWith_drop: "startsWith s p \<Longrightarrow> p @ drop (length p) s = s"
  by (auto simp: startsWith_append)

lemma endsWith_append: "endsWith s p \<longleftrightarrow> (\<exists>t. s = t @ p)"
proof
  assume "endsWith s p"
  then obtain t where "rev s = rev p @ t" by (auto simp: endsWith_def startsWith_append)
  then have "s = rev t @ p" by (metis rev_append rev_rev_ident)
  then show "\<exists>t. s = t @ p" ..
qed (auto simp: endsWith_def startsWith_append)

lemma includesText_append: "includesText s p \<longleftrightarrow> (\<exists>a b. s = a @ p @ b)"
proof (induction s p rule: includesText.induct)
  case (2 c s p)
  show ?case
  proof
    assume "includesText (c # s) p"
    then show "\<exists>a b. c # s = a @ p @ b" using 2 by (auto simp: startsWith_append) (metis append_Cons append_Nil)+
  next
    assume "\<exists>a b. c # s = a @ p @ b"
    then obtain a b where ab: "c # s = a @ p @ b" by blast
    show "includesText (c # s) p"
    proof (cases a)
      case Nil
      then have "startsWith (c # s) p" using ab by (auto simp: startsWith_append)
      then show ?thesis by simp
    next
      case (Cons x a')
      then have "s = a' @ p @ b" using ab by simp
      then show ?thesis using 2 by auto
    qed
  qed
qed simp

lemma splitOn_nonempty [simp]: "splitOn c s \<noteq> []"
  by (induction s) (auto split: list.split)

lemma joinWith_Cons: "xs \<noteq> [] \<Longrightarrow> joinWith sep (x # xs) = x @ sep @ joinWith sep xs"
  by (cases xs) simp_all

lemma join_splitOn: "joinWith [c] (splitOn c s) = s"
proof (induction s)
  case (Cons x s)
  then show ?case by (cases "splitOn c s"; cases "tl (splitOn c s)") (auto simp: joinWith_Cons)
qed simp

lemma splitOn_free: "\<forall>p \<in> set (splitOn c s). c \<notin> set p"
  by (induction s) (auto split: list.splits)

lemma splitOn_append: "c \<notin> set a \<Longrightarrow> splitOn c (a @ c # s) = a # splitOn c s"
  by (induction a) auto

lemma splitOn_no: "c \<notin> set a \<Longrightarrow> splitOn c a = [a]"
  by (induction a) auto

lemma split_joinWith:
  "ps \<noteq> [] \<Longrightarrow> \<forall>p \<in> set ps. c \<notin> set p \<Longrightarrow> splitOn c (joinWith [c] ps) = ps"
proof (induction ps)
  case (Cons p ps)
  then show ?case by (cases ps) (auto simp: splitOn_no splitOn_append)
qed simp

lemma trimStart_id: "s = [] \<or> \<not> isSpace (hd s) \<Longrightarrow> trimStart s = s"
  by (cases s) (auto simp: trimStart_def)

lemma trim_subset: "set (trim s) \<subseteq> set s"
  using set_dropWhileD[of _ isSpace "rev (trimStart s)"] set_dropWhileD[of _ isSpace s]
  by (auto simp: trim_def trimStart_def)

lemma hd_trimStart: "trimStart s \<noteq> [] \<Longrightarrow> \<not> isSpace (hd (trimStart s))"
  unfolding trimStart_def by (rule hd_dropWhile)

lemma trim_ends:
  assumes "trim s \<noteq> []"
  shows "\<not> isSpace (hd (trim s))" "\<not> isSpace (last (trim s))"
proof -
  define r where "r = trimStart (rev (trimStart s))"
  have r: "r \<noteq> []" "trim s = rev r" using assms by (auto simp: trim_def r_def)
  then show "\<not> isSpace (last (trim s))" using hd_trimStart[of "rev (trimStart s)"] by (simp add: r_def last_rev)
  obtain p where p: "rev (trimStart s) = p @ r" unfolding r_def trimStart_def by (metis takeWhile_dropWhile_id)
  then have "trimStart s = rev r @ rev p" by (metis rev_append rev_rev_ident)
  then have "trimStart s \<noteq> []" "hd (trimStart s) = hd (rev r)" using r(1) by (simp_all add: hd_append)
  then show "\<not> isSpace (hd (trim s))" using hd_trimStart[of s] r(2) by simp
qed

lemma trim_id:
  assumes "s \<noteq> []" "\<not> isSpace (hd s)" "\<not> isSpace (last s)"
  shows "trim s = s"
  using assms by (simp add: trim_def trimStart_id hd_rev)

lemma trim_idem [simp]: "trim (trim s) = trim s"
  using trim_ends[of s] trim_id[of "trim s"] by (cases "trim s = []") (simp_all, simp add: trim_def trimStart_def)

lemma length_padStart: "length (padStart n c s) = max n (length s)"
  by (simp add: padStart_def)

end
