(* ===== verification/Validate.thy ===== *)
theory Validate
  imports RuntimeTypes JsText
begin

text \<open>
  The type guards that stand between untrusted JSON and the game: a save in local storage
  (\<open>runtime/validate.ts\<close>, \<open>isSave\<close> of \<open>runtime/persistence.ts\<close>) and the tape of a pasted run code
  (\<open>isTape\<close> of \<open>runtime/tape.ts\<close>). They are functions on JSON values, in the shape of the source. Lemmas:
  what the game writes passes them, and what passes them is ordered the way the replayer needs.
\<close>

section \<open>Primitive guards\<close>

fun isObj :: "json option \<Rightarrow> bool" where
  "isObj (Some (JObj _)) = True"
| "isObj (Some (JArr _)) = True"
| "isObj _ = False"

fun isNum :: "json option \<Rightarrow> bool" where
  "isNum (Some (JNum _)) = True"
| "isNum _ = False"

fun isNumGe0 :: "json option \<Rightarrow> bool" where
  "isNumGe0 (Some (JNum x)) = (0 \<le> x)"
| "isNumGe0 _ = False"

fun isBoolean :: "json option \<Rightarrow> bool" where
  "isBoolean (Some (JBool _)) = True"
| "isBoolean _ = False"

text \<open>The pattern of a date: four digits, two digits and two digits, joined by dashes.\<close>

fun datePattern :: "string \<Rightarrow> bool" where
  "datePattern [a, b, c, d, s, e, f, t, g, h] =
     (list_all isDigit [a, b, c, d, e, f, g, h] \<and> s = CHR ''-'' \<and> t = CHR ''-'')"
| "datePattern _ = False"

fun isDate :: "json option \<Rightarrow> bool" where
  "isDate (Some (JStr s)) = datePattern s"
| "isDate _ = False"

fun everyElem :: "(json option \<Rightarrow> bool) \<Rightarrow> json option \<Rightarrow> bool" where
  "everyElem p (Some (JArr vs)) = list_all (\<lambda>v. p (Some v)) vs"
| "everyElem _ _ = False"

definition field :: "json option \<Rightarrow> string \<Rightarrow> json option" where
  "field v k = (case v of None \<Rightarrow> None | Some j \<Rightarrow> getField j k)"

section \<open>Saves\<close>

definition isLevel :: "json option \<Rightarrow> bool" where
  "isLevel v \<longleftrightarrow> v \<in> set (map (\<lambda>n. Some (jint n)) [0, 1, 2, 3, 4, 5])"

definition isStart :: "json option \<Rightarrow> bool" where
  "isStart v \<longleftrightarrow> isObj v \<and> isLevel (field v ''level'') \<and> isNum (field v ''seed'') \<and>
     isNum (field v ''score'') \<and> isNum (field v ''elapsed'') \<and> isNum (field v ''distance'') \<and>
     isBoolean (field v ''boss'') \<and> isNumGe0 (field v ''retries'') \<and> isNumGe0 (field v ''shield'')"

definition isKindName :: "json option \<Rightarrow> bool" where
  "isKindName v \<longleftrightarrow> v \<in> set (map (\<lambda>k. Some (JStr k)) [''jump'', ''jumpEnd'', ''slideStart'', ''slideEnd''])"

definition typeOfEvent :: "json option \<Rightarrow> string" where
  "typeOfEvent v = (case field v ''type'' of Some (JStr t) \<Rightarrow> t | _ \<Rightarrow> [])"

definition isEvent :: "json option \<Rightarrow> bool" where
  "isEvent v =
     (if \<not> isObj v \<or> \<not> isNumGe0 (field v ''tick'') then False
      else let t = typeOfEvent v in
        if t = ''Input'' then isKindName (field v ''kind'')
        else if t = ''OrchestratorStarted'' then True
        else if t = ''RetryAttempt'' then isNum (field v ''attempt'') \<and> isNum (field v ''failedAt'')
        else if t = ''CircuitBreakerTripped'' \<or> t = ''BoostLost'' then
          isNum (field v ''id'') \<and> isNum (field v ''hash'')
        else if t = ''FanOut'' then isNum (field v ''hash'')
        else if t = ''FanIn'' then isNum (field v ''hash'') \<and> everyElem isNum (field v ''results'')
        else if t = ''OrbTaken'' then isNum (field v ''id'') \<and> isNum (field v ''hash'')
        else if t = ''ActivityCoinCollected'' then isNum (field v ''id'') \<and> isNum (field v ''hash'')
        else if t = ''ActivityCrateCollected'' then
          isNum (field v ''id'') \<and> isNum (field v ''hash'') \<and> isNum (field v ''result'')
        else False)"

definition STAT_KEYS :: "string list" where
  "STAT_KEYS = [''replays'', ''fromHistory'', ''executed'', ''incidents'', ''retriesUsed'', ''circuitTrips'', ''boostsLost'']"

definition isStats :: "json option \<Rightarrow> bool" where
  "isStats v \<longleftrightarrow> isObj v \<and> list_all (\<lambda>k. isNum (field v k)) STAT_KEYS"

fun isPair :: "json option \<Rightarrow> bool" where
  "isPair (Some (JArr [a, b])) = (isNum (Some a) \<and> isNum (Some b))"
| "isPair _ = False"

definition isPairs :: "json option \<Rightarrow> bool" where
  "isPairs = everyElem isPair"

definition isSegment :: "json option \<Rightarrow> bool" where
  "isSegment v \<longleftrightarrow> isObj v \<and> isStart (field v ''start'') \<and> everyElem isEvent (field v ''history'') \<and>
     isNum (field v ''endTick'') \<and> isPairs (field v ''orbValues'')"

definition isNullOrNum :: "json option \<Rightarrow> bool" where
  "isNullOrNum v \<longleftrightarrow> v = Some JNull \<or> isNum v"

text \<open>The tick of an event that passed \<open>isEvent\<close>.\<close>

definition tickOf :: "json \<Rightarrow> rat" where
  "tickOf e = (case getField e ''tick'' of Some (JNum t) \<Rightarrow> t | _ \<Rightarrow> 0)"

definition isInputJson :: "json \<Rightarrow> bool" where
  "isInputJson e \<longleftrightarrow> typeOfEvent (Some e) \<in> {''Input'', ''OrchestratorStarted'', ''RetryAttempt''}"

text \<open>Ordered by tick; outcomes happened before the tick we replay to, runtime inputs may sit on it.\<close>

fun orderedHistory :: "rat \<Rightarrow> json list \<Rightarrow> bool" where
  "orderedHistory tick [] = True"
| "orderedHistory tick [e] = (if isInputJson e then tickOf e \<le> tick else tickOf e < tick)"
| "orderedHistory tick (e # e' # es) =
     ((if isInputJson e then tickOf e \<le> tick else tickOf e < tick) \<and> tickOf e \<le> tickOf e' \<and>
      orderedHistory tick (e' # es))"

definition isSaveBody :: "json option \<Rightarrow> bool" where
  "isSaveBody v =
     (if \<not> isObj v \<or> field v ''version'' \<noteq> Some (jint 2) \<or> \<not> isStart (field v ''start'') \<or>
         \<not> isStats (field v ''stats'') then False
      else if \<not> isDate (field v ''date'') then False
      else if \<not> isNumGe0 (field v ''tick'') then False
      else if \<not> isNullOrNum (field v ''divergedAt'') then False
      else if \<not> everyElem isEvent (field v ''history'') then False
      else if \<not> everyElem isSegment (field v ''segments'') \<or> \<not> isPairs (field v ''orbValues'') then False
      else (case (field v ''history'', field v ''tick'') of
              (Some (JArr history), Some (JNum tick)) \<Rightarrow> orderedHistory tick history
            | _ \<Rightarrow> False))"

section \<open>Tapes\<close>

fun isU32 :: "json option \<Rightarrow> bool" where
  "isU32 (Some (JNum n)) = (of_int \<lfloor>n\<rfloor> = n \<and> 0 \<le> n \<and> n < 4294967296)"
| "isU32 _ = False"

fun isTick :: "json option \<Rightarrow> bool" where
  "isTick (Some (JNum n)) = (of_int \<lfloor>n\<rfloor> = n \<and> 0 \<le> n)"
| "isTick _ = False"

fun isTapeInput :: "json \<Rightarrow> bool" where
  "isTapeInput (JArr [t, k]) = (isTick (Some t) \<and> isKindName (Some k))"
| "isTapeInput _ = False"

fun inputTick :: "json \<Rightarrow> rat" where
  "inputTick (JArr (JNum t # _)) = t"
| "inputTick _ = 0"

fun orderedInputs :: "json list \<Rightarrow> bool" where
  "orderedInputs [] = True"
| "orderedInputs [x] = isTapeInput x"
| "orderedInputs (x # y # xs) = (isTapeInput x \<and> orderedInputs (y # xs) \<and> inputTick x \<le> inputTick y)"

definition isRestart :: "json option \<Rightarrow> bool" where
  "isRestart v \<longleftrightarrow> isObj v \<and> isTick (field v ''liveTick'') \<and> isTick (field v ''impureAt'') \<and>
     isTick (field v ''chaosAt'') \<and> isSaveBody (field v ''save'')"

definition isTape :: "json option \<Rightarrow> bool" where
  "isTape v =
     (if \<not> isObj v then False
      else if field v ''v'' \<noteq> Some (jint 1) \<or> \<not> isDate (field v ''date'') \<or> \<not> isTick (field v ''liveTick'') then False
      else if \<not> everyElem isU32 (field v ''impure'') \<or> \<not> everyElem isU32 (field v ''chaos'') then False
      else (case field v ''inputs'' of Some (JArr inputs) \<Rightarrow> orderedInputs inputs | _ \<Rightarrow> False) \<and>
           everyElem isRestart (field v ''restarts''))"

definition isSave :: "json option \<Rightarrow> bool" where
  "isSave v \<longleftrightarrow> isSaveBody v \<and> isTape (field v ''tape'')"

section \<open>What the game writes passes\<close>

text \<open>Well-formed values of the runtime: counters are not negative and histories are ordered.\<close>

definition startOk :: "StartInput \<Rightarrow> bool" where
  "startOk s \<longleftrightarrow> 0 \<le> si_retries s \<and> 0 \<le> si_shield s"

definition historyOk :: "HistoryEvent list \<Rightarrow> bool" where
  "historyOk h \<longleftrightarrow> (\<forall>e \<in> set h. 0 \<le> ev_tick e)"

definition bodyOk :: "SaveBody \<Rightarrow> bool" where
  "bodyOk b \<longleftrightarrow> datePattern (sv_date b) \<and> startOk (sv_start b) \<and> 0 \<le> sv_tick b \<and> historyOk (sv_history b) \<and>
     sorted (map ev_tick (sv_history b)) \<and>
     (\<forall>e \<in> set (sv_history b). if isInputEvent e then ev_tick e \<le> sv_tick b else ev_tick e < sv_tick b) \<and>
     (\<forall>m \<in> set (sv_segments b). startOk (ms_start m) \<and> historyOk (ms_history m))"

definition tapeOk :: "Tape \<Rightarrow> bool" where
  "tapeOk t \<longleftrightarrow> datePattern (tp_date t) \<and> 0 \<le> tp_liveTick t \<and>
     (\<forall>u \<in> set (tp_impure t) \<union> set (tp_chaos t). 0 \<le> u \<and> u < 2 ^ 32) \<and>
     sorted (map fst (tp_inputs t)) \<and> (\<forall>l \<in> fst ` set (tp_inputs t). 0 \<le> l) \<and>
     (\<forall>r \<in> set (tp_restarts t). 0 \<le> tr_liveTick r \<and> 0 \<le> tr_impureAt r \<and> 0 \<le> tr_chaosAt r \<and> bodyOk (tr_save r))"

lemma startJson_ok: "startOk s \<Longrightarrow> isStart (Some (startJson s))"
  by (cases "si_level s") (simp_all add: isStart_def startJson_def isLevel_def field_def startOk_def)

lemma isKindName_name: "isKindName (Some (JStr (playerInputName k)))"
  by (cases k) (simp_all add: isKindName_def)

lemma typeOf_eventJson: "typeOfEvent (Some (eventJson e)) = eventType e"
  by (simp add: typeOfEvent_def eventJson_def field_def)

lemma eventJson_ok: "0 \<le> ev_tick e \<Longrightarrow> isEvent (Some (eventJson e))"
proof -
  assume "0 \<le> ev_tick e"
  then have "isObj (Some (eventJson e))" "isNumGe0 (field (Some (eventJson e)) ''tick'')"
    by (simp_all add: eventJson_def field_def)
  then show ?thesis
    unfolding isEvent_def typeOf_eventJson Let_def
    by (cases e) (simp_all add: eventJson_def field_def isKindName_name list_all_iff)
qed

lemma tickOf_eventJson: "tickOf (eventJson e) = of_int (ev_tick e)"
  by (simp add: tickOf_def eventJson_def)

lemma isInputJson_eventJson: "isInputJson (eventJson e) = isInputEvent e"
  unfolding isInputJson_def typeOf_eventJson by (cases e) (simp_all add: isInputEvent_def)

lemma statsJson_ok: "isStats (Some (statsJson r))"
  by (simp add: isStats_def statsJson_def STAT_KEYS_def field_def)

lemma pairsJson_ok: "isPairs (Some (pairsJson ps))"
  by (auto simp: isPairs_def pairsJson_def list_all_iff)

lemma eventsJson_ok: "historyOk h \<Longrightarrow> everyElem isEvent (Some (JArr (map eventJson h)))"
  by (simp add: historyOk_def list_all_iff eventJson_ok)

lemma segmentJson_ok: "startOk (ms_start m) \<Longrightarrow> historyOk (ms_history m) \<Longrightarrow> isSegment (Some (segmentJson m))"
  using eventsJson_ok[of "ms_history m"] pairsJson_ok[of "ms_orbValues m"] startJson_ok[of "ms_start m"]
  by (simp add: isSegment_def segmentJson_def field_def del: everyElem.simps)

lemma orderedHistory_ok:
  assumes "sorted (map ev_tick h)"
    "\<forall>e \<in> set h. if isInputEvent e then ev_tick e \<le> t else ev_tick e < t"
  shows "orderedHistory (of_int t) (map eventJson h)"
  using assms
proof (induction h)
  case (Cons e h)
  then show ?case
    by (cases h) (auto simp: tickOf_eventJson isInputJson_eventJson)
qed simp

lemma bodyFields_ok:
  assumes "bodyOk b" "distinct (map fst (bodyFields b @ extra))"
  shows "isSaveBody (Some (JObj (bodyFields b @ extra)))"
proof -
  let ?v = "Some (JObj (bodyFields b @ extra))"
  have f: "field ?v ''version'' = Some (jint 2)" "field ?v ''date'' = Some (JStr (sv_date b))"
    "field ?v ''start'' = Some (startJson (sv_start b))"
    "field ?v ''history'' = Some (JArr (map eventJson (sv_history b)))" "field ?v ''tick'' = Some (jint (sv_tick b))"
    "field ?v ''stats'' = Some (statsJson (sv_stats b))"
    "field ?v ''divergedAt'' = Some (nullableJson (sv_divergedAt b))"
    "field ?v ''segments'' = Some (JArr (map segmentJson (sv_segments b)))"
    "field ?v ''orbValues'' = Some (pairsJson (sv_orbValues b))"
    by (simp_all add: field_def bodyFields_def)
  have d: "isNullOrNum (Some (nullableJson (sv_divergedAt b)))"
    by (cases "sv_divergedAt b") (simp_all add: isNullOrNum_def)
  have seg: "everyElem isSegment (Some (JArr (map segmentJson (sv_segments b))))"
    using assms(1) by (auto simp: bodyOk_def list_all_iff intro!: segmentJson_ok)
  have h: "orderedHistory (of_int (sv_tick b)) (map eventJson (sv_history b))"
    using assms(1) by (intro orderedHistory_ok) (auto simp: bodyOk_def)
  show ?thesis
    unfolding isSaveBody_def f
    using assms(1) d seg h startJson_ok eventsJson_ok statsJson_ok pairsJson_ok
    by (simp add: bodyOk_def del: everyElem.simps)
qed

lemma orderedInputs_ok:
  assumes "sorted (map fst ps)" "\<forall>l \<in> fst ` set ps. (0 :: int) \<le> l"
  shows "orderedInputs (map (\<lambda>(l, k). JArr [jint l, JStr (playerInputName k)]) ps)"
  using assms
proof (induction ps)
  case (Cons p ps)
  then show ?case by (cases p; cases ps) (auto simp: isKindName_name)
qed simp

lemma tapeJson_ok:
  assumes "tapeOk t"
  shows "isTape (Some (tapeJson t))"
proof -
  let ?v = "Some (tapeJson t)"
  have f: "field ?v ''v'' = Some (jint 1)" "field ?v ''date'' = Some (JStr (tp_date t))"
    "field ?v ''inputs'' = Some (JArr (map (\<lambda>(l, k). JArr [jint l, JStr (playerInputName k)]) (tp_inputs t)))"
    "field ?v ''impure'' = Some (JArr (map jint (tp_impure t)))" "field ?v ''chaos'' = Some (JArr (map jint (tp_chaos t)))"
    "field ?v ''restarts'' = Some (JArr (map restartJson (tp_restarts t)))" "field ?v ''liveTick'' = Some (jint (tp_liveTick t))"
    by (simp_all add: field_def tapeJson_def)
  have u: "0 \<le> u \<Longrightarrow> u < 2 ^ 32 \<Longrightarrow> isU32 (Some (jint u))" for u :: int
    using of_int_less_iff[of u "2 ^ 32", where 'a = rat] by (simp del: of_int_less_iff)
  have r: "isRestart (Some (restartJson x))" if "x \<in> set (tp_restarts t)" for x
  proof -
    have "isSaveBody (Some (JObj (bodyFields (tr_save x))))"
      using bodyFields_ok[of "tr_save x" "[]"] assms that by (simp add: tapeOk_def bodyFields_def)
    then show ?thesis using assms that by (simp add: isRestart_def restartJson_def field_def tapeOk_def)
  qed
  have "orderedInputs (map (\<lambda>(l, k). JArr [jint l, JStr (playerInputName k)]) (tp_inputs t))"
    using assms by (intro orderedInputs_ok) (auto simp: tapeOk_def)
  moreover have "isObj ?v" by (simp add: tapeJson_def)
  ultimately show ?thesis
    unfolding isTape_def f using assms u r
    by (simp add: tapeOk_def list_all_iff del: jint.simps isU32.simps) simp
qed

lemma saveJson_ok:
  assumes "bodyOk (sa_body s)" "tapeOk (sa_tape s)"
  shows "isSave (Some (saveJson s))"
proof -
  have "isSaveBody (Some (saveJson s))"
    unfolding saveJson_def by (rule bodyFields_ok[OF assms(1)]) (simp add: bodyFields_def)
  moreover have "field (Some (saveJson s)) ''tape'' = Some (tapeJson (sa_tape s))"
    by (simp add: saveJson_def field_def bodyFields_def)
  ultimately show ?thesis using tapeJson_ok[OF assms(2)] by (simp add: isSave_def)
qed

end
