(* ===== verification/Persistence.thy ===== *)
theory Persistence
  imports Validate
begin

text \<open>
  The save store (\<open>runtime/persistence.ts\<close>). \<open>SaveStore\<close> is an interface of the source, so it is a locale
  here; \<open>localSaveStore\<close> implements it over the browser's local storage. An item of local storage is a
  text: \<open>Parsed\<close> is one that \<open>JSON.parse\<close> accepts, with the value it denotes, and \<open>Unparsed\<close> any other,
  with what \<open>Number\<close> makes of it (\<open>None\<close> for \<open>NaN\<close> and the infinities). Storage may be switched off, so
  that every access throws, or full, so that \<open>setItem\<close> throws; \<open>attempt\<close> turns both into the fallback.
\<close>

datatype item = Parsed json | Unparsed "rat option"

record Storage =
  sg_items :: "string \<rightharpoonup> item"
  sg_off :: bool
  sg_full :: bool

abbreviation SAVE_KEY :: string where "SAVE_KEY \<equiv> ''devdash.replay.save''"
abbreviation BEST_KEY :: string where "BEST_KEY \<equiv> ''devdash.replay.best''"
abbreviation DAILY_KEY :: string where "DAILY_KEY \<equiv> ''devdash.replay.daily''"

definition parseSave :: "item option \<Rightarrow> json option" where
  "parseSave raw = (case raw of
      Some (Parsed data) \<Rightarrow> if isSave (Some data) then Some data else None
    | _ \<Rightarrow> None)"

text \<open>\<open>attempt\<close> for a read and for a write.\<close>

definition attemptRead :: "((string \<rightharpoonup> item) \<Rightarrow> 'a) \<Rightarrow> 'a \<Rightarrow> Storage \<Rightarrow> 'a" where
  "attemptRead fn fallback st = (if sg_off st then fallback else fn (sg_items st))"

definition setItem :: "string \<Rightarrow> item \<Rightarrow> Storage \<Rightarrow> Storage" where
  "setItem k v st = (if sg_off st \<or> sg_full st then st else st\<lparr>sg_items := (sg_items st)(k \<mapsto> v)\<rparr>)"

definition removeItem :: "string \<Rightarrow> Storage \<Rightarrow> Storage" where
  "removeItem k st = (if sg_off st then st else st\<lparr>sg_items := (sg_items st)(k := None)\<rparr>)"

text \<open>\<open>Number(text)\<close>, with \<open>None\<close> for a value that is not finite; a missing item is \<open>null\<close> and reads as 0.\<close>

fun numberOf :: "item option \<Rightarrow> rat option" where
  "numberOf None = Some 0"
| "numberOf (Some (Parsed (JNum n))) = Some n"
| "numberOf (Some (Parsed _)) = None"
| "numberOf (Some (Unparsed n)) = n"

definition load :: "Storage \<Rightarrow> json option" where
  "load = attemptRead (\<lambda>s. parseSave (s SAVE_KEY)) None"

definition save :: "json \<Rightarrow> Storage \<Rightarrow> Storage" where
  "save data = setItem SAVE_KEY (Parsed data)"

definition clear :: "Storage \<Rightarrow> Storage" where
  "clear = removeItem SAVE_KEY"

definition loadBest :: "Storage \<Rightarrow> int" where
  "loadBest = attemptRead (\<lambda>s. case numberOf (s BEST_KEY) of
      Some n \<Rightarrow> if 0 < n then mathFloor n else 0 | None \<Rightarrow> 0) 0"

definition saveBest :: "int \<Rightarrow> Storage \<Rightarrow> Storage" where
  "saveBest score = setItem BEST_KEY (Parsed (jint score))"

text \<open>\<open>JSON.parse\<close> of a text it rejects throws, which \<open>attempt\<close> catches.\<close>

definition loadDailyBest :: "string \<Rightarrow> Storage \<Rightarrow> int" where
  "loadDailyBest date = attemptRead (\<lambda>s.
      case s DAILY_KEY of
        Some (Parsed data) \<Rightarrow>
          if isObj (Some data) \<and> getField data ''date'' = Some (JStr date) then
            (case getField data ''best'' of
               Some (JNum n) \<Rightarrow> if 0 < n then mathFloor n else 0
             | _ \<Rightarrow> 0)
          else 0
      | _ \<Rightarrow> 0) 0"

definition saveDailyBest :: "string \<Rightarrow> int \<Rightarrow> Storage \<Rightarrow> Storage" where
  "saveDailyBest date score =
     setItem DAILY_KEY (Parsed (JObj [(''date'', JStr date), (''best'', jint score)]))"

section \<open>The interface\<close>

datatype 'd StoreOp = SaveOp 'd | ClearOp | BestOp int | DailyOp string int

locale save_store =
  fixes ld :: "'st \<Rightarrow> 'd option" and sv :: "'d \<Rightarrow> 'st \<Rightarrow> 'st" and cl :: "'st \<Rightarrow> 'st"
    and lb :: "'st \<Rightarrow> int" and sb :: "int \<Rightarrow> 'st \<Rightarrow> 'st"
    and ldb :: "string \<Rightarrow> 'st \<Rightarrow> int" and sdb :: "string \<Rightarrow> int \<Rightarrow> 'st \<Rightarrow> 'st"
    and works :: "'st \<Rightarrow> bool" and valid :: "'d \<Rightarrow> bool"
  assumes works_ops: "works st \<Longrightarrow> works (sv d st)" "works st \<Longrightarrow> works (cl st)"
      "works st \<Longrightarrow> works (sb n st)" "works st \<Longrightarrow> works (sdb date n st)"
    and ld_ops: "works st \<Longrightarrow> valid d \<Longrightarrow> ld (sv d st) = Some d" "works st \<Longrightarrow> ld (cl st) = None"
      "works st \<Longrightarrow> ld (sb n st) = ld st" "works st \<Longrightarrow> ld (sdb date n st) = ld st"
    and lb_ops: "works st \<Longrightarrow> lb (sv d st) = lb st" "works st \<Longrightarrow> lb (cl st) = lb st"
      "works st \<Longrightarrow> 0 \<le> n \<Longrightarrow> lb (sb n st) = n" "works st \<Longrightarrow> lb (sdb date n st) = lb st"
    and ldb_ops: "works st \<Longrightarrow> ldb e (sv d st) = ldb e st" "works st \<Longrightarrow> ldb e (cl st) = ldb e st"
      "works st \<Longrightarrow> ldb e (sb n st) = ldb e st"
      "works st \<Longrightarrow> 0 \<le> n \<Longrightarrow> ldb e (sdb date n st) = (if e = date then n else 0)"
begin

fun applyOp :: "'d StoreOp \<Rightarrow> 'st \<Rightarrow> 'st" where
  "applyOp (SaveOp d) st = sv d st"
| "applyOp ClearOp st = cl st"
| "applyOp (BestOp n) st = sb n st"
| "applyOp (DailyOp date n) st = sdb date n st"

fun opOk :: "'d StoreOp \<Rightarrow> bool" where
  "opOk (SaveOp d) = valid d"
| "opOk ClearOp = True"
| "opOk (BestOp n) = (0 \<le> n)"
| "opOk (DailyOp _ n) = (0 \<le> n)"

text \<open>What a run of operations leaves behind, read off the operations alone.\<close>

fun runOp :: "'d StoreOp \<Rightarrow> 'd option \<Rightarrow> 'd option" where
  "runOp (SaveOp d) r = Some d"
| "runOp ClearOp r = None"
| "runOp _ r = r"

fun bestOp :: "'d StoreOp \<Rightarrow> int \<Rightarrow> int" where
  "bestOp (BestOp n) b = n"
| "bestOp _ b = b"

fun dailyOp :: "string \<Rightarrow> 'd StoreOp \<Rightarrow> int \<Rightarrow> int" where
  "dailyOp e (DailyOp date n) b = (if e = date then n else 0)"
| "dailyOp e _ b = b"

lemma works_applyOp: "works st \<Longrightarrow> works (applyOp op st)"
  by (cases op) (simp_all add: works_ops)

lemma reads_applyOp:
  assumes "works st" "opOk op"
  shows "ld (applyOp op st) = runOp op (ld st) \<and> lb (applyOp op st) = bestOp op (lb st) \<and>
    ldb e (applyOp op st) = dailyOp e op (ldb e st)"
  using assms by (cases op) (simp_all add: ld_ops lb_ops ldb_ops)

theorem reads_after:
  assumes "works st" "list_all opOk ops"
  shows "works (fold applyOp ops st) \<and> ld (fold applyOp ops st) = fold runOp ops (ld st) \<and>
    lb (fold applyOp ops st) = fold bestOp ops (lb st) \<and>
    ldb e (fold applyOp ops st) = fold (dailyOp e) ops (ldb e st)"
  using assms
proof (induction ops arbitrary: st)
  case (Cons op ops)
  then show ?case using reads_applyOp[of st op e] works_applyOp[of st op] by simp
qed simp

end

definition storageWorks :: "Storage \<Rightarrow> bool" where
  "storageWorks st \<longleftrightarrow> \<not> sg_off st \<and> \<not> sg_full st"

lemmas storage_defs = load_def save_def clear_def loadBest_def saveBest_def loadDailyBest_def
  saveDailyBest_def attemptRead_def setItem_def removeItem_def storageWorks_def parseSave_def

interpretation local_store: save_store load save clear loadBest saveBest loadDailyBest saveDailyBest
  storageWorks "\<lambda>d. isSave (Some d)"
  by unfold_locales (simp_all add: storage_defs mathFloor_def)

section \<open>Local storage never stops the game\<close>

lemma storage_off:
  assumes "sg_off st"
  shows "load st = None" "loadBest st = 0" "loadDailyBest date st = 0" "save d st = st" "clear st = st"
    "saveBest n st = st" "saveDailyBest date n st = st"
  using assms by (simp_all add: storage_defs)

lemma loads_nonneg: "0 \<le> loadBest st" "0 \<le> loadDailyBest date st"
  by (auto simp: storage_defs mathFloor_def split: option.split item.split json.split)

lemma load_valid: "load st = Some d \<Longrightarrow> isSave (Some d)"
  by (auto simp: load_def attemptRead_def parseSave_def split: if_splits option.splits item.splits)

section \<open>The store the game talks to\<close>

text \<open>
  The game sees saves, not JSON. Its store is the same interface on typed data: the saved run, the best
  score and the daily best with its date.
\<close>

record GameStore =
  st_run :: "Save option"
  st_best :: int
  st_daily :: "(string \<times> int) option"

definition storeDaily :: "string \<Rightarrow> GameStore \<Rightarrow> int" where
  "storeDaily date st = (case st_daily st of Some (d, n) \<Rightarrow> if d = date then n else 0 | None \<Rightarrow> 0)"

interpretation game_store: save_store st_run "\<lambda>d. st_run_update (\<lambda>_. Some d)" "st_run_update (\<lambda>_. None)"
  st_best "\<lambda>n. st_best_update (\<lambda>_. n)" storeDaily "\<lambda>date n. st_daily_update (\<lambda>_. Some (date, n))"
  "\<lambda>_. True" "\<lambda>_. True"
  by unfold_locales (simp_all add: storeDaily_def)

text \<open>Local storage holds what the game's store holds, with the saved run as JSON.\<close>

definition storeRel :: "GameStore \<Rightarrow> Storage \<Rightarrow> bool" where
  "storeRel g st \<longleftrightarrow> storageWorks st \<and> load st = map_option saveJson (st_run g) \<and> loadBest st = st_best g \<and>
     (\<forall>date. loadDailyBest date st = storeDaily date g)"

lemma storeRel_save:
  assumes "storeRel g st" "bodyOk (sa_body s)" "tapeOk (sa_tape s)"
  shows "storeRel (g\<lparr>st_run := Some s\<rparr>) (save (saveJson s) st)"
  using assms saveJson_ok[OF assms(2,3)] local_store.works_ops local_store.ld_ops local_store.lb_ops local_store.ldb_ops
  by (simp add: storeRel_def storeDaily_def)

lemma storeRel_ops:
  assumes "storeRel g st"
  shows "storeRel (g\<lparr>st_run := None\<rparr>) (clear st)"
    "0 \<le> n \<Longrightarrow> storeRel (g\<lparr>st_best := n\<rparr>) (saveBest n st)"
    "0 \<le> n \<Longrightarrow> storeRel (g\<lparr>st_daily := Some (date, n)\<rparr>) (saveDailyBest date n st)"
  using assms local_store.works_ops local_store.ld_ops local_store.lb_ops local_store.ldb_ops
  by (simp_all add: storeRel_def storeDaily_def)

end
