(* ===== verification/Tape.thy ===== *)
theory Tape
  imports Persistence
begin

text \<open>
  The tape of a run (\<open>runtime/tape.ts\<close>): every outside value, quantised to 32 bits. \<open>Source\<close> is an
  interface of the source and a locale here; \<open>TapeRecorder\<close> draws from the world and writes the tape,
  \<open>TapePlayer\<close> reads it back. Lemmas: quantised values survive the trip through the tape exactly, so a
  player hands out precisely the values its recorder handed out.
\<close>

abbreviation U32 :: rat where "U32 \<equiv> 4294967296"

definition quantise :: "rat \<Rightarrow> int" where
  "quantise v = min (4294967296 - 1) (max 0 (mathFloor (fmul v U32)))"

definition toUnit :: "int \<Rightarrow> rat" where
  "toUnit u = fdiv (of_int u) U32"

definition emptyTape :: "string \<Rightarrow> Tape" where
  "emptyTape date = \<lparr>tp_date = date, tp_inputs = [], tp_impure = [], tp_chaos = [], tp_restarts = [], tp_liveTick = 0\<rparr>"

text \<open>
  The world of a recorder is the pair of its two random sources, each a state with a function that
  draws from it; \<open>'w\<close> is the state of the outside world.
\<close>

record 'w World =
  wd_impure :: "'w \<Rightarrow> rat \<times> 'w"
  wd_chaosRand :: "'w \<Rightarrow> rat \<times> 'w"

definition recordImpure :: "'w World \<Rightarrow> Tape \<times> 'w \<Rightarrow> rat \<times> Tape \<times> 'w" where
  "recordImpure world tw =
     (case tw of (tape, w) \<Rightarrow> case wd_impure world w of (v, w) \<Rightarrow>
        let u = quantise v in (toUnit u, tape\<lparr>tp_impure := tp_impure tape @ [u]\<rparr>, w))"

definition recordChaos :: "'w World \<Rightarrow> Tape \<times> 'w \<Rightarrow> rat \<times> Tape \<times> 'w" where
  "recordChaos world tw =
     (case tw of (tape, w) \<Rightarrow> case wd_chaosRand world w of (v, w) \<Rightarrow>
        let u = quantise v in (toUnit u, tape\<lparr>tp_chaos := tp_chaos tape @ [u]\<rparr>, w))"

record TapePlayer =
  py_tape :: Tape
  py_exhausted :: bool
  py_i :: nat
  py_c :: nat

definition newTapePlayer :: "Tape \<Rightarrow> TapePlayer" where
  "newTapePlayer tape = \<lparr>py_tape = tape, py_exhausted = False, py_i = 0, py_c = 0\<rparr>"

definition dry :: "TapePlayer \<Rightarrow> rat \<times> TapePlayer" where
  "dry p = (0, p\<lparr>py_exhausted := True\<rparr>)"

definition playImpure :: "TapePlayer \<Rightarrow> rat \<times> TapePlayer" where
  "playImpure p =
     (if length (tp_impure (py_tape p)) \<le> py_i p then dry p
      else (toUnit (tp_impure (py_tape p) ! py_i p), p\<lparr>py_i := py_i p + 1\<rparr>))"

definition playChaos :: "TapePlayer \<Rightarrow> rat \<times> TapePlayer" where
  "playChaos p =
     (if length (tp_chaos (py_tape p)) \<le> py_c p then dry p
      else (toUnit (tp_chaos (py_tape p) ! py_c p), p\<lparr>py_c := py_c p + 1\<rparr>))"

definition seek :: "nat \<Rightarrow> nat \<Rightarrow> TapePlayer \<Rightarrow> TapePlayer" where
  "seek impureAt chaosAt p = p\<lparr>py_i := impureAt, py_c := chaosAt\<rparr>"

section \<open>Quantised values\<close>

lemma quantise_bounds: "0 \<le> quantise v" "quantise v < 2 ^ 32"
  by (simp_all add: quantise_def)

lemma toUnit_exact: "0 \<le> u \<Longrightarrow> u < 2 ^ 32 \<Longrightarrow> toUnit u = of_int u / U32"
proof -
  assume u: "0 \<le> u" "u < 2 ^ 32"
  then have "rnd (of_int u * 2 powi (- 32)) = of_int u * 2 powi (- 32)" by (intro rnd_exact) simp
  then show ?thesis unfolding toUnit_def fdiv_def powi_minus_32 by simp
qed

lemma toUnit_bounds:
  assumes "0 \<le> u" "u < 2 ^ 32"
  shows "0 \<le> toUnit u" "toUnit u < 1"
proof -
  have "(of_int u :: rat) < of_int (2 ^ 32)" using assms(2) by (simp only: of_int_less_iff)
  then show "0 \<le> toUnit u" "toUnit u < 1" using assms by (simp_all add: toUnit_exact)
qed

lemma quantise_toUnit:
  assumes "0 \<le> u" "u < 2 ^ 32"
  shows "quantise (toUnit u) = u"
proof -
  have "rnd (of_int u) = of_int u" using assms by (intro rnd_of_int) simp
  then have "fmul (toUnit u) U32 = of_int u" using assms by (simp add: toUnit_exact fmul_def)
  then show ?thesis using assms by (simp add: quantise_def mathFloor_def)
qed

text \<open>Quantising moves a value by less than one part in \<open>2^32\<close>, and never up.\<close>

lemma quantise_close:
  assumes "0 \<le> v" "v < 1"
  shows "toUnit (quantise v) \<le> rnd (v * U32) / U32" "rnd (v * U32) / U32 < toUnit (quantise v) + 1 / U32 \<or> quantise v = 2 ^ 32 - 1"
proof -
  let ?x = "fmul v U32"
  have x: "0 \<le> ?x" using assms by (simp add: fmul_nonneg)
  have t: "toUnit (quantise v) = of_int (quantise v) / U32"
    using quantise_bounds by (rule toUnit_exact)
  have q: "quantise v = min (2 ^ 32 - 1) \<lfloor>?x\<rfloor>" using x by (simp add: quantise_def mathFloor_def)
  then have "of_int (quantise v) \<le> ?x" by linarith
  then show "toUnit (quantise v) \<le> rnd (v * U32) / U32" by (simp add: t fmul_def divide_right_mono)
  show "rnd (v * U32) / U32 < toUnit (quantise v) + 1 / U32 \<or> quantise v = 2 ^ 32 - 1"
  proof (cases "quantise v = 2 ^ 32 - 1")
    case False
    then have "quantise v = \<lfloor>?x\<rfloor>" using q by linarith
    then have "?x < of_int (quantise v) + 1" by linarith
    then show ?thesis unfolding t fmul_def
      by (simp add: add_divide_distrib[symmetric] divide_strict_right_mono)
  qed simp
qed

section \<open>The source of a game's outside values\<close>

text \<open>
  Whatever feeds the game, its values are numbers in \<open>[0, 1)\<close>: the crash scheduler and the generator
  rely on it.
\<close>

locale source =
  fixes imp :: "'s \<Rightarrow> rat \<times> 's" and cha :: "'s \<Rightarrow> rat \<times> 's" and inv :: "'s \<Rightarrow> bool"
  assumes imp_unit: "inv s \<Longrightarrow> imp s = (v, s') \<Longrightarrow> 0 \<le> v \<and> v < 1 \<and> inv s'"
    and cha_unit: "inv s \<Longrightarrow> cha s = (v, s') \<Longrightarrow> 0 \<le> v \<and> v < 1 \<and> inv s'"
begin

lemma draws_unit:
  assumes "inv s" "draws imp n s = (vs, s')"
  shows "(\<forall>v \<in> set vs. 0 \<le> v \<and> v < 1) \<and> inv s'"
  using assms
proof (induction n arbitrary: s vs)
  case (Suc n)
  obtain v s1 where 1: "imp s = (v, s1)" by force
  then obtain us where 2: "draws imp n s1 = (us, s')" "vs = v # us"
    using Suc.prems(2) by (auto split: prod.splits)
  have "0 \<le> v \<and> v < 1 \<and> inv s1" using imp_unit[OF Suc.prems(1) 1] .
  with Suc.IH[OF _ 2(1)] 2(2) show ?case by simp
qed simp

end

definition tapeValues :: "Tape \<Rightarrow> bool" where
  "tapeValues t \<longleftrightarrow> (\<forall>u \<in> set (tp_impure t) \<union> set (tp_chaos t). 0 \<le> u \<and> u < 2 ^ 32)"

interpretation recorder: source "recordImpure world" "recordChaos world" "\<lambda>(tape, _). tapeValues tape"
proof
  fix s s' :: "Tape \<times> 'a" and v
  show "(case s of (tape, _) \<Rightarrow> tapeValues tape) \<Longrightarrow> recordImpure world s = (v, s') \<Longrightarrow>
      0 \<le> v \<and> v < 1 \<and> (case s' of (tape, _) \<Rightarrow> tapeValues tape)"
    using quantise_bounds toUnit_bounds[OF quantise_bounds]
    by (auto simp: recordImpure_def tapeValues_def Let_def split: prod.splits)
  show "(case s of (tape, _) \<Rightarrow> tapeValues tape) \<Longrightarrow> recordChaos world s = (v, s') \<Longrightarrow>
      0 \<le> v \<and> v < 1 \<and> (case s' of (tape, _) \<Rightarrow> tapeValues tape)"
    using quantise_bounds toUnit_bounds[OF quantise_bounds]
    by (auto simp: recordChaos_def tapeValues_def Let_def split: prod.splits)
qed

text \<open>A tape that \<open>isTape\<close> accepts holds 32-bit values only, and a player past its end hands out 0.\<close>

lemma toUnit_nth:
  assumes "\<forall>u \<in> set us. 0 \<le> u \<and> u < 2 ^ 32" "i < length us"
  shows "0 \<le> toUnit (us ! i) \<and> toUnit (us ! i) < 1"
  using toUnit_bounds assms nth_mem by blast

interpretation tape_player: source playImpure playChaos "\<lambda>p. tapeValues (py_tape p)"
proof
  fix p p' :: TapePlayer and v
  assume t: "tapeValues (py_tape p)"
  then have u: "\<forall>u \<in> set (tp_impure (py_tape p)). 0 \<le> u \<and> u < 2 ^ 32"
    "\<forall>u \<in> set (tp_chaos (py_tape p)). 0 \<le> u \<and> u < 2 ^ 32" by (auto simp: tapeValues_def)
  show "playImpure p = (v, p') \<Longrightarrow> 0 \<le> v \<and> v < 1 \<and> tapeValues (py_tape p')"
    using t toUnit_nth[OF u(1), of "py_i p"] by (auto simp: playImpure_def dry_def split: if_splits)
  show "playChaos p = (v, p') \<Longrightarrow> 0 \<le> v \<and> v < 1 \<and> tapeValues (py_tape p')"
    using t toUnit_nth[OF u(2), of "py_c p"] by (auto simp: playChaos_def dry_def split: if_splits)
qed

section \<open>Playing back what was recorded\<close>

lemma record_draws:
  assumes "draws (recordImpure world) n (t, w) = (vs, (t', w'))"
  shows "\<exists>us. tp_impure t' = tp_impure t @ us \<and> vs = map toUnit us \<and> length us = n"
  using assms
proof (induction n arbitrary: t w vs)
  case (Suc n)
  obtain v w1 where 1: "wd_impure world w = (v, w1)" by force
  let ?t = "t\<lparr>tp_impure := tp_impure t @ [quantise v]\<rparr>"
  have "recordImpure world (t, w) = (toUnit (quantise v), ?t, w1)" by (simp add: recordImpure_def 1 Let_def)
  then obtain vs2 where 2: "draws (recordImpure world) n (?t, w1) = (vs2, (t', w'))" "vs = toUnit (quantise v) # vs2"
    using Suc.prems by (auto split: prod.splits)
  from Suc.IH[OF 2(1)] obtain us where "tp_impure t' = tp_impure ?t @ us" "vs2 = map toUnit us" "length us = n" by blast
  then show ?case using 2(2) by (intro exI[of _ "quantise v # us"]) simp
qed simp

lemma play_draws:
  assumes "tp_impure (py_tape p) = earlier @ us @ later" "py_i p = length earlier" "n = length us"
  shows "draws playImpure n p = (map toUnit us, p\<lparr>py_i := py_i p + n\<rparr>)"
  using assms
proof (induction us arbitrary: earlier p n)
  case (Cons u us)
  have "draws playImpure (length us) (p\<lparr>py_i := py_i p + 1\<rparr>)
      = (map toUnit us, p\<lparr>py_i := py_i p + 1 + length us\<rparr>)"
    using Cons.IH[of "p\<lparr>py_i := py_i p + 1\<rparr>" "earlier @ [u]" "length us"] Cons.prems(1,2) by simp
  moreover have "playImpure p = (toUnit u, p\<lparr>py_i := py_i p + 1\<rparr>)"
    using Cons.prems(1,2) by (simp add: playImpure_def nth_append)
  ultimately show ?case using Cons.prems(3) by simp
qed simp



end
