(* ===== verification/Chaos.thy ===== *)
theory Chaos
  imports Tape
begin

text \<open>
  The crash scheduler (\<open>runtime/chaos.ts\<close>). Its only field is the tick at which the process dies next;
  \<open>rand\<close> is the chaos side of the game's source. Lemmas, for any source: scheduled crashes fall in the
  window around the level's mean, first and post-pickup crashes in theirs, and a pickup never delays a
  crash that is already due sooner.
\<close>

type_synonym Due = "int option"

definition chaosBetween :: "('s \<Rightarrow> rat \<times> 's) \<Rightarrow> int \<times> int \<Rightarrow> 's \<Rightarrow> int \<times> 's" where
  "chaosBetween rand window s =
     (case window of (lo, hi) \<Rightarrow> case rand s of (r, s) \<Rightarrow> (lo + mathRound (fmul r (of_int (hi - lo))), s))"

definition scheduleNext :: "LevelTable \<Rightarrow> ('s \<Rightarrow> rat \<times> 's) \<Rightarrow> Level \<Rightarrow> int \<Rightarrow> int \<Rightarrow> 's \<Rightarrow> Due \<times> 's" where
  "scheduleNext levels rand level tick elapsed s =
     (case chaosMeanTicks (levels level) elapsed of
        None \<Rightarrow> (None, s)
      | Some mean \<Rightarrow> (case rand s of (r, s) \<Rightarrow> (Some (tick + mathRound (fmul mean (fadd (1 / 2) r))), s)))"

definition chaosStart :: "LevelTable \<Rightarrow> ('s \<Rightarrow> rat \<times> 's) \<Rightarrow> Level \<Rightarrow> bool \<Rightarrow> int \<Rightarrow> 's \<Rightarrow> Due \<times> 's" where
  "chaosStart levels rand level firstOfLevel elapsed s =
     (let cfg = levels level in
      case lc_scriptedCrashAt cfg of
        Some t \<Rightarrow> (Some t, s)
      | None \<Rightarrow>
          (case (firstOfLevel, lc_firstCrashTicks cfg) of
             (True, Some window) \<Rightarrow> (case chaosBetween rand window s of (t, s) \<Rightarrow> (Some t, s))
           | _ \<Rightarrow> scheduleNext levels rand level 0 elapsed s))"

definition onPickup ::
  "LevelTable \<Rightarrow> ('s \<Rightarrow> rat \<times> 's) \<Rightarrow> Level \<Rightarrow> EntityKind \<Rightarrow> int \<Rightarrow> Due \<times> 's \<Rightarrow> Due \<times> 's" where
  "onPickup levels rand level kind tick ds =
     (case ds of (dueAt, s) \<Rightarrow>
      case lc_crashAfterPickup (levels level) of
        None \<Rightarrow> (dueAt, s)
      | Some kinds \<Rightarrow>
          if kind \<notin> set kinds then (dueAt, s)
          else (case chaosBetween rand CRASH_AFTER_PICKUP s of (d, s) \<Rightarrow>
                  let t = tick + d in
                  case dueAt of None \<Rightarrow> (Some t, s)
                            | Some old \<Rightarrow> if t < old then (Some t, s) else (dueAt, s)))"

definition isDue :: "Due \<Rightarrow> int \<Rightarrow> bool" where
  "isDue dueAt tick = (case dueAt of None \<Rightarrow> False | Some t \<Rightarrow> t \<le> tick)"

section \<open>Windows\<close>

lemma rnd_half_three: "rnd (1 / 2) = 1 / 2" "rnd (3 / 2) = 3 / 2"
  using rnd_halves[of 1] rnd_halves[of 3] by simp_all

lemma fmul_mono: "0 \<le> a \<Longrightarrow> 0 \<le> b \<Longrightarrow> a \<le> a' \<Longrightarrow> b \<le> b' \<Longrightarrow> fmul a b \<le> fmul a' b'"
  unfolding fmul_def by (intro rnd_mono mult_mono) auto

context source
begin

lemma chaosBetween_window:
  assumes "inv s" "lo \<le> hi" "hi - lo \<le> 2 ^ 53" "chaosBetween cha (lo, hi) s = (t, s')"
  shows "lo \<le> t \<and> t \<le> hi \<and> inv s'"
proof -
  obtain r s1 where r: "cha s = (r, s1)" by force
  then have u: "0 \<le> r" "r < 1" "inv s1" using cha_unit[OF assms(1) r] by auto
  have t: "t = lo + mathRound (fmul r (of_int (hi - lo)))" "s' = s1"
    using assms(4) by (auto simp: chaosBetween_def r)
  have "r * of_int (hi - lo) \<le> 1 * of_int (hi - lo)"
    using u assms(2) by (intro mult_right_mono) auto
  then have "fmul r (of_int (hi - lo)) \<le> of_int (hi - lo)"
    unfolding fmul_def using assms(2,3) by (intro rnd_le_int) auto
  from mathRound_mono[OF this] have "mathRound (fmul r (of_int (hi - lo))) \<le> hi - lo"
    by (simp only: mathRound_of_int)
  moreover have "0 \<le> fmul r (of_int (hi - lo))" using u assms(2) by (intro fmul_nonneg) auto
  from mathRound_mono[OF this] have "0 \<le> mathRound (fmul r (of_int (hi - lo)))"
    using mathRound_of_int[of 0] by simp
  ultimately show ?thesis using t u(3) by simp
qed

lemma scheduleNext_window:
  assumes "inv s" "chaosMeanTicks (levels level) elapsed = Some mean" "0 \<le> mean"
    "scheduleNext levels cha level tick elapsed s = (dueAt, s')"
  shows "\<exists>t. dueAt = Some t \<and> tick + mathRound (fmul mean (1 / 2)) \<le> t \<and>
    t \<le> tick + mathRound (fmul mean (3 / 2)) \<and> inv s'"
proof -
  obtain r s1 where r: "cha s = (r, s1)" by force
  then have u: "0 \<le> r" "r < 1" "inv s1" using cha_unit[OF assms(1) r] by auto
  have "1 / 2 \<le> fadd (1 / 2) r" "fadd (1 / 2) r \<le> 3 / 2"
    using rnd_mono[of "1 / 2" "1 / 2 + r"] rnd_mono[of "1 / 2 + r" "3 / 2"] u by (simp_all add: fadd_def rnd_half_three)
  then have "fmul mean (1 / 2) \<le> fmul mean (fadd (1 / 2) r)" "fmul mean (fadd (1 / 2) r) \<le> fmul mean (3 / 2)"
    using assms(3) by (auto intro!: fmul_mono)
  then show ?thesis
    using assms(2,4) u(3) by (auto simp: scheduleNext_def r dest: mathRound_mono)
qed

lemma onPickup_soon:
  assumes "inv s" "lc_crashAfterPickup (levels level) = Some kinds" "kind \<in> set kinds"
    "onPickup levels cha level kind tick (dueAt, s) = (dueAt', s')"
  shows "\<exists>t. dueAt' = Some t \<and> t \<le> tick + 300 \<and> (\<forall>old. dueAt = Some old \<longrightarrow> t \<le> old) \<and> inv s'"
proof -
  obtain d s1 where d: "chaosBetween cha CRASH_AFTER_PICKUP s = (d, s1)" by force
  have "60 \<le> d \<and> d \<le> 300 \<and> inv s1"
    using chaosBetween_window[OF assms(1), of 60 300 d s1] d by (simp add: CRASH_AFTER_PICKUP_def)
  then show ?thesis using assms(2-4) d
    by (cases dueAt) (auto simp: onPickup_def Let_def split: if_splits)
qed

lemma onPickup_inv:
  assumes "inv s" "onPickup levels cha level kind tick (dueAt, s) = (dueAt', s')"
  shows "inv s'"
proof (cases "lc_crashAfterPickup (levels level)")
  case (Some kinds)
  then show ?thesis using assms onPickup_soon[of s levels level kinds kind tick dueAt dueAt' s'] by (cases "kind \<in> set kinds") (auto simp: onPickup_def)
qed (use assms in \<open>simp add: onPickup_def\<close>)

end

section \<open>Every durable level has a next crash\<close>

text \<open>On the game's own levels a crash is always scheduled once a level is durable, and not before half its mean.\<close>

lemma LEVELS_mean:
  assumes "lc_durable (LEVELS l)"
  shows "\<exists>m. chaosMeanTicks (LEVELS l) elapsed = Some m \<and> 480 \<le> m"
  using assms by (cases l) (auto simp: chaosMeanTicks_def)

end
