(* ===== verification/Montage.thy ===== *)
theory Montage
  imports Tape
begin

text \<open>
  The level montage (\<open>runtime/montage.ts\<close>): the recorded segments of a level replayed back to back.
  The closure \<open>() => queue.shift() ?? 0\<close> that feeds the orbs is the list \<open>queue\<close> with \<open>nextValue\<close>. A
  montage is only made of at least one segment (\<open>open(0)\<close> of an empty list throws, which is \<open>None\<close>).
  Lemmas: each segment is shown exactly as it was played, and the montage ends.
\<close>

abbreviation MONTAGE_FRAMES :: int where "MONTAGE_FRAMES \<equiv> 240"
abbreviation MONTAGE_MIN_TICKS_PER_FRAME :: int where "MONTAGE_MIN_TICKS_PER_FRAME \<equiv> 8"
abbreviation FLASH_FRAMES :: int where "FLASH_FRAMES \<equiv> 8"
abbreviation TRAIL :: nat where "TRAIL \<equiv> 6"

text \<open>\<open>new Map(orbValues)\<close>, where a later pair of the same key wins.\<close>

definition orbMap :: "(int \<times> rat) list \<Rightarrow> (int \<rightharpoonup> rat)" where
  "orbMap ps = map_of (rev ps)"

fun orbIds :: "HistoryEvent list \<Rightarrow> int list" where
  "orbIds [] = []"
| "orbIds (OrbTaken _ i _ # es) = i # orbIds es"
| "orbIds (_ # es) = orbIds es"

definition orbQueue :: "MontageSegment \<Rightarrow> rat list" where
  "orbQueue seg = map (\<lambda>i. case orbMap (ms_orbValues seg) i of Some v \<Rightarrow> v | None \<Rightarrow> 0) (orbIds (ms_history seg))"

record Montage =
  mo_segments :: "MontageSegment list"
  mo_events :: nat
  mo_ticksPerFrame :: int
  mo_flash :: int
  mo_trail :: "rat list"
  mo_index :: nat
  mo_replayer :: Replayer
  mo_queue :: "rat list"

definition openSegment :: "LevelTable \<Rightarrow> MontageSegment \<Rightarrow> Replayer \<times> rat list" where
  "openSegment levels seg = (createReplayer (ms_start seg) (ms_endTick seg) levels, orbQueue seg)"

definition newMontage :: "LevelTable \<Rightarrow> MontageSegment list \<Rightarrow> Montage option" where
  "newMontage levels segments =
     (let ticks = sum_list (map ms_endTick segments) in
      case segments of
        [] \<Rightarrow> None
      | seg # _ \<Rightarrow>
          (case openSegment levels seg of (r, queue) \<Rightarrow>
             Some \<lparr>mo_segments = segments, mo_events = sum_list (map (\<lambda>s. length (ms_history s)) segments),
                   mo_ticksPerFrame =
                     max MONTAGE_MIN_TICKS_PER_FRAME (mathCeil (fdiv (of_int ticks) (of_int MONTAGE_FRAMES))),
                   mo_flash = 0, mo_trail = [], mo_index = 0, mo_replayer = r, mo_queue = queue\<rparr>))"

definition montageState :: "Montage \<Rightarrow> GameState" where
  "montageState m = rp_state (mo_replayer m)"

definition montageDone :: "Montage \<Rightarrow> bool" where
  "montageDone m \<longleftrightarrow> length (mo_segments m) \<le> mo_index m"

definition montageAdvance :: "LevelTable \<Rightarrow> Montage \<Rightarrow> Montage option" where
  "montageAdvance levels m =
     (if montageDone m then Some m
      else
        let seg = mo_segments m ! mo_index m;
            m = (if 0 < mo_flash m then m\<lparr>mo_flash := mo_flash m - 1\<rparr> else m)
        in do { (r, queue) \<leftarrow> advance (nat (mo_ticksPerFrame m)) (ms_history seg) (ms_endTick seg) nextValue
                                levels (mo_replayer m, mo_queue m);
                let m = m\<lparr>mo_replayer := r, mo_queue := queue,
                          mo_trail := take TRAIL (pl_y (livePlayer (rp_state r)) # mo_trail m)\<rparr>
                in if \<not> rp_done r then Some m
                   else
                     let m = m\<lparr>mo_index := mo_index m + 1\<rparr>
                     in if montageDone m then Some m
                        else (case openSegment levels (mo_segments m ! mo_index m) of (r, queue) \<Rightarrow>
                                Some (m\<lparr>mo_replayer := r, mo_queue := queue, mo_flash := FLASH_FRAMES,
                                        mo_trail := []\<rparr>)) })"

section \<open>A segment is shown as it was played\<close>

lemma length_orbIds: "length (orbIds h) = orbsOf h"
  by (induction h rule: orbIds.induct) auto

lemma draws_nextValue: "draws nextValue (length vs) (vs @ us) = (vs, us)"
  by (induction vs) auto

text \<open>
  What live play hands to the montage: a recorded segment with the values its orbs drew, and possibly
  inputs that were recorded at its last tick and never applied.
\<close>

definition keptValues :: "(int \<times> rat) list \<Rightarrow> HistoryEvent list \<Rightarrow> rat list" where
  "keptValues ov h = map (\<lambda>i. case orbMap ov i of Some v \<Rightarrow> v | None \<Rightarrow> 0) (orbIds h)"

lemma orbQueue_kept: "orbQueue seg = keptValues (ms_orbValues seg) (ms_history seg)"
  by (simp add: orbQueue_def keptValues_def)

definition playedSegment :: "LevelTable \<Rightarrow> MontageSegment \<Rightarrow> GameState \<Rightarrow> bool" where
  "playedSegment L seg s \<longleftrightarrow> ms_endTick seg = gs_tick s \<and>
     (\<exists>h pending. ms_history seg = h @ pending \<and> (\<forall>e \<in> set pending. isInputEvent e \<and> gs_tick s \<le> ev_tick e) \<and>
        segment L (ms_start seg) h s (orbQueue seg))"

lemma openSegment_replays:
  assumes "playedSegment L seg s"
  shows "\<exists>c. advance (nat (gs_tick s)) (ms_history seg) (ms_endTick seg) nextValue L (openSegment L seg)
    = Some (\<lparr>rp_state = s, rp_cursor = c, rp_divergedAt = None, rp_done = True\<rparr>, [])"
proof -
  obtain h pending where s: "ms_history seg = h @ pending" "\<forall>e \<in> set pending. isInputEvent e \<and> gs_tick s \<le> ev_tick e"
    "segment L (ms_start seg) h s (orbQueue seg)" "ms_endTick seg = gs_tick s"
    using assms by (auto simp: playedSegment_def)
  have "draws nextValue (orbsOf h) (orbQueue seg) = (orbQueue seg, [])"
    using draws_nextValue[of "orbQueue seg" "[]"] segment_orbs[OF s(3)] by simp
  moreover have "pickupIds pending = []" using s(2) by (intro pickupIds_inputs) (simp add: isInputEvent_outcome)
  ultimately show ?thesis
    using advance_segment[OF s(3), of pending "ms_endTick seg" nextValue "orbQueue seg" "[]"] s(2,4)
      collected_distinct[OF segment_collected[OF s(3)]] by (simp add: openSegment_def s(1))
qed

section \<open>The montage ends\<close>

text \<open>A replayer in the middle of its work.\<close>

definition underway :: "Replayer \<Rightarrow> int \<Rightarrow> bool" where
  "underway r toTick \<longleftrightarrow> \<not> rp_done r \<and> paced (rp_state r) \<and> gs_status (rp_state r) = Running \<and>
     gs_tick (rp_state r) < toTick"

lemma createReplayer_underway:
  assumes "0 \<le> si_elapsed start"
  shows "underway (createReplayer start toTick L) toTick \<or> rp_done (createReplayer start toTick L)"
  using initialState_paced[OF assms, of L]
  by (auto simp: underway_def createReplayer_def) (auto simp: initialState_def)

lemma advance_underway:
  assumes "\<forall>l. playable (L l)" "toTick \<le> TICK_LIMIT" "underway r toTick"
  shows "\<exists>r' w'. advance n h toTick imp L (r, w) = Some (r', w') \<and>
    (rp_done r' \<or> underway r' toTick \<and> gs_tick (rp_state r') = gs_tick (rp_state r) + int n)"
  using assms(3)
proof (induction n arbitrary: r w)
  case (Suc n)
  then have u: "paced (rp_state r)" "gs_status (rp_state r) = Running" "gs_tick (rp_state r) < TICK_LIMIT"
    "\<not> rp_done r" using assms(2) by (auto simp: underway_def)
  obtain r1 w1 where 1: "advanceOne h toTick imp L (r, w) = Some (r1, w1)"
    "rp_done r1 \<or> (gs_tick (rp_state r1) = gs_tick (rp_state r) + 1 \<and> gs_tick (rp_state r1) < toTick \<and>
       gs_status (rp_state r1) = Running)" "paced (rp_state r1)"
    using advanceOne_progress[OF assms(1) u(1-3)] by metis
  show ?case
  proof (cases "rp_done r1")
    case True
    then show ?thesis using 1(1) u(4) by (simp add: advance_done)
  next
    case False
    then have "underway r1 toTick" using 1 by (simp add: underway_def)
    from Suc.IH[OF this, of w1] 1(1,2) u(4) False show ?thesis by auto
  qed
qed simp

definition montageOk :: "LevelTable \<Rightarrow> Montage \<Rightarrow> bool" where
  "montageOk L m \<longleftrightarrow> (\<forall>l. playable (L l)) \<and> 0 < mo_ticksPerFrame m \<and>
     (\<forall>s \<in> set (mo_segments m). 0 \<le> si_elapsed (ms_start s) \<and> ms_endTick s \<le> TICK_LIMIT) \<and>
     (montageDone m \<or> rp_done (mo_replayer m) \<or>
      underway (mo_replayer m) (ms_endTick (mo_segments m ! mo_index m)))"

lemma newMontage_ok:
  assumes "newMontage L segments = Some m" "\<forall>l. playable (L l)"
    "\<forall>s \<in> set segments. 0 \<le> si_elapsed (ms_start s) \<and> ms_endTick s \<le> TICK_LIMIT"
  shows "montageOk L m"
proof -
  obtain seg rest where s: "segments = seg # rest" using assms(1) by (cases segments) (auto simp: newMontage_def)
  show ?thesis using assms createReplayer_underway[of "ms_start seg" "ms_endTick seg" L]
    by (auto simp: newMontage_def s montageOk_def openSegment_def Let_def)
qed

text \<open>Frames still to come: ticks left in the open segment, then the segments after it.\<close>

definition montageLeft :: "Montage \<Rightarrow> nat \<times> nat" where
  "montageLeft m = (length (mo_segments m) - mo_index m,
     if rp_done (mo_replayer m) then 0
     else nat (ms_endTick (mo_segments m ! mo_index m) - gs_tick (rp_state (mo_replayer m))))"

lemma montageAdvance_progress:
  assumes "montageOk L m" "\<not> montageDone m"
  shows "\<exists>m'. montageAdvance L m = Some m' \<and> montageOk L m' \<and>
    (montageLeft m', montageLeft m) \<in> less_than <*lex*> less_than"
proof -
  let ?seg = "mo_segments m ! mo_index m" and ?r = "mo_replayer m"
  let ?n = "nat (mo_ticksPerFrame m)"
  have i: "mo_index m < length (mo_segments m)" using assms(2) by (simp add: montageDone_def)
  then have seg: "?seg \<in> set (mo_segments m)" by simp
  have ok: "\<forall>l. playable (L l)" "0 < mo_ticksPerFrame m" "ms_endTick ?seg \<le> TICK_LIMIT"
    "\<forall>s \<in> set (mo_segments m). 0 \<le> si_elapsed (ms_start s) \<and> ms_endTick s \<le> TICK_LIMIT"
    "rp_done ?r \<or> underway ?r (ms_endTick ?seg)"
    using assms seg by (auto simp: montageOk_def)
  obtain r' w' where a: "advance ?n (ms_history ?seg) (ms_endTick ?seg) nextValue L (?r, mo_queue m) = Some (r', w')"
    "rp_done r' \<or> underway r' (ms_endTick ?seg) \<and> gs_tick (rp_state r') = gs_tick (rp_state ?r) + mo_ticksPerFrame m
       \<and> underway ?r (ms_endTick ?seg)"
  proof (cases "rp_done ?r")
    case True
    then show ?thesis using that[of ?r "mo_queue m"] by (simp add: advance_done)
  next
    case False
    then have u: "underway ?r (ms_endTick ?seg)" using ok(5) by simp
    from advance_underway[OF ok(1,3) u, of ?n "ms_history ?seg" nextValue "mo_queue m"] that u ok(2)
    show ?thesis by auto
  qed
  show ?thesis
  proof (cases "rp_done r'")
    case False
    with a(2) have u: "underway r' (ms_endTick ?seg)" "gs_tick (rp_state r') = gs_tick (rp_state ?r) + mo_ticksPerFrame m"
      "underway ?r (ms_endTick ?seg)" by auto
    show ?thesis using assms a(1) u False ok
      by (auto simp: montageAdvance_def montageOk_def montageDone_def montageLeft_def underway_def Let_def)
  next
    case True
    show ?thesis
    proof (cases "Suc (mo_index m) < length (mo_segments m)")
      case next': True
      then have "0 \<le> si_elapsed (ms_start (mo_segments m ! Suc (mo_index m)))" using ok(4) by simp
      from createReplayer_underway[OF this, of "ms_endTick (mo_segments m ! Suc (mo_index m))" L]
      show ?thesis using assms a(1) True ok next'
        by (auto simp: montageAdvance_def montageOk_def montageDone_def montageLeft_def openSegment_def Let_def)
    next
      case False
      then show ?thesis using assms a(1) True ok i
        by (auto simp: montageAdvance_def montageOk_def montageDone_def montageLeft_def Let_def)
    qed
  qed
qed

fun montageFrames :: "LevelTable \<Rightarrow> nat \<Rightarrow> Montage \<Rightarrow> Montage option" where
  "montageFrames L 0 m = Some m"
| "montageFrames L (Suc n) m = montageAdvance L m \<bind> montageFrames L n"

lemma montage_ends:
  assumes "montageOk L m"
  shows "\<exists>n m'. montageFrames L n m = Some m' \<and> montageDone m'"
  using assms
proof (induction m rule: wf_induct_rule[OF wf_inv_image[OF wf_lex_prod[OF wf_less_than wf_less_than], of montageLeft]])
  case (1 m)
  show ?case
  proof (cases "montageDone m")
    case True
    then show ?thesis by (intro exI[of _ 0]) simp
  next
    case False
    from montageAdvance_progress[OF 1(2) False] obtain m1 where m1: "montageAdvance L m = Some m1"
      "montageOk L m1" "(montageLeft m1, montageLeft m) \<in> less_than <*lex*> less_than" by blast
    with 1(1)[of m1] obtain n m' where "montageFrames L n m1 = Some m'" "montageDone m'" by (auto simp: inv_image_def)
    then show ?thesis using m1(1) by (intro exI[of _ "Suc n"]) simp
  qed
qed

end
