(* ===== verification/Game.thy ===== *)
theory Game
  imports Rewind Chaos Montage
begin

text \<open>
  The game (\<open>runtime/game.ts\<close>): the class \<open>Game\<close> as a record, with the outside world and the save store
  in it, and every method as a function on it. A method that can reach \<open>step\<close> or \<open>RewindBuffer.pick\<close>
  returns an option: \<open>None\<close> is a tick that never ends or the exception of an empty rewind buffer.

  The source of outside values is the tape recorder or a tape player; \<open>this.player\<close> is the same object
  as \<open>this.source\<close> while it is set, so only whether it is set is kept (\<open>g_hasPlayer\<close>). A recorder always
  writes to \<open>this.tape\<close>. The listeners of \<open>subscribe\<close> are React's and are left out; \<open>touch\<close> counts the
  version they are told about.
\<close>

abbreviation CRASH_FRAMES :: int where "CRASH_FRAMES \<equiv> 90"
abbreviation REPLAY_MIN_TICKS_PER_FRAME :: int where "REPLAY_MIN_TICKS_PER_FRAME \<equiv> 8"
abbreviation REPLAY_MAX_FRAMES :: int where "REPLAY_MAX_FRAMES \<equiv> 120"
abbreviation NOTICE_TICKS :: int where "NOTICE_TICKS \<equiv> 180"

definition PLAYBACK_SPEEDS :: "int list" where
  "PLAYBACK_SPEEDS = [1, 2, 5, 10]"

datatype Source = Recorder | Player TapePlayer

record 'w GameDeps =
  dp_world :: "'w World"
  dp_today :: "'w \<Rightarrow> string"
  dp_levels :: LevelTable

record 'w Game =
  g_phase :: Phase
  g_runDate :: string
  g_dailyBest :: int
  g_start :: StartInput
  g_history :: "HistoryEvent list"
  g_state :: GameState
  g_stats :: RunStats
  g_best :: int
  g_divergedAt :: "int option"
  g_tape :: Tape
  g_playback :: bool
  g_speed :: int
  g_source :: Source
  g_hasPlayer :: bool
  g_liveTick :: int
  g_inputCursor :: nat
  g_restartCursor :: nat
  g_prevState :: "GameState option"
  g_notice :: "(string \<times> int) option"
  g_pending :: "PlayerInput list"
  g_queued :: "HistoryEvent list"
  g_slideHeld :: bool
  g_segments :: "MontageSegment list"
  g_orbValues :: "(int \<times> rat) list"
  g_montage :: "Montage option"
  g_replayer :: "Replayer option"
  g_replayTicksPerFrame :: int
  g_crashTick :: int
  g_savedRun :: "Save option"
  g_version :: int
  g_rewind :: RewindBuffer
  g_chaos :: Due
  g_store :: GameStore
  g_world :: 'w

definition emptyStats :: RunStats where
  "emptyStats = \<lparr>rs_replays = 0, rs_fromHistory = 0, rs_executed = 0, rs_incidents = 0,
     rs_retriesUsed = 0, rs_circuitTrips = 0, rs_boostsLost = 0\<rparr>"

fun nextLevel :: "Level \<Rightarrow> Level" where
  "nextLevel L0 = L1" | "nextLevel L1 = L2" | "nextLevel L2 = L3" | "nextLevel L3 = L4"
| "nextLevel L4 = L5" | "nextLevel L5 = L5"

section \<open>The outside world\<close>

definition sourceImpure :: "'w GameDeps \<Rightarrow> 'w Game \<Rightarrow> rat \<times> 'w Game" where
  "sourceImpure d g =
     (case g_source g of
        Recorder \<Rightarrow> (case recordImpure (dp_world d) (g_tape g, g_world g) of
                       (v, tape, w) \<Rightarrow> (v, g\<lparr>g_tape := tape, g_world := w\<rparr>))
      | Player p \<Rightarrow> (case playImpure p of (v, p) \<Rightarrow> (v, g\<lparr>g_source := Player p\<rparr>)))"

definition sourceChaos :: "'w GameDeps \<Rightarrow> 'w Game \<Rightarrow> rat \<times> 'w Game" where
  "sourceChaos d g =
     (case g_source g of
        Recorder \<Rightarrow> (case recordChaos (dp_world d) (g_tape g, g_world g) of
                       (v, tape, w) \<Rightarrow> (v, g\<lparr>g_tape := tape, g_world := w\<rparr>))
      | Player p \<Rightarrow> (case playChaos p of (v, p) \<Rightarrow> (v, g\<lparr>g_source := Player p\<rparr>)))"

definition exhausted :: "Source \<Rightarrow> bool" where
  "exhausted s = (case s of Recorder \<Rightarrow> False | Player p \<Rightarrow> py_exhausted p)"

definition withChaos :: "Due \<times> 'w Game \<Rightarrow> 'w Game" where
  "withChaos dg = (snd dg)\<lparr>g_chaos := fst dg\<rparr>"

section \<open>Display state\<close>

definition touch :: "'w Game \<Rightarrow> 'w Game" where
  "touch g = g\<lparr>g_version := g_version g + 1\<rparr>"

definition setNotice :: "string \<Rightarrow> 'w Game \<Rightarrow> 'w Game" where
  "setNotice text g = touch (g\<lparr>g_notice := Some (text, gs_tick (g_state g) + NOTICE_TICKS)\<rparr>)"

definition syncSlide :: "'w Game \<Rightarrow> 'w Game" where
  "syncSlide g =
     (let pending = filter (\<lambda>k. k = Jump) (g_pending g);
          sliding = pl_sliding (livePlayer (g_state g))
      in g\<lparr>g_pending :=
             (if sliding \<and> \<not> g_slideHeld g then pending @ [SlideEnd]
              else if \<not> sliding \<and> g_slideHeld g then pending @ [SlideStart]
              else pending)\<rparr>)"

definition setPhase :: "Phase \<Rightarrow> 'w Game \<Rightarrow> 'w Game" where
  "setPhase phase g =
     (let g = g\<lparr>g_phase := phase\<rparr>
      in touch (if phase = PlayingPhase then syncSlide g else g))"

section \<open>Saving\<close>

definition saveBody :: "'w Game \<Rightarrow> int \<Rightarrow> SaveBody" where
  "saveBody g tick =
     \<lparr>sv_date = g_runDate g, sv_start = g_start g, sv_history = g_history g, sv_tick = tick,
      sv_stats = g_stats g, sv_divergedAt = g_divergedAt g, sv_segments = g_segments g,
      sv_orbValues = g_orbValues g\<rparr>"

fun unsavedPhase :: "Phase \<Rightarrow> bool" where
  "unsavedPhase TitlePhase = True"
| "unsavedPhase (ResumePhase _) = True"
| "unsavedPhase (OverPhase _) = True"
| "unsavedPhase LostPhase = True"
| "unsavedPhase _ = False"

fun rebuildingPhase :: "Phase \<Rightarrow> bool" where
  "rebuildingPhase (CrashingPhase _) = True"
| "rebuildingPhase ReplayingPhase = True"
| "rebuildingPhase _ = False"

definition saveGame :: "'w GameDeps \<Rightarrow> 'w Game \<Rightarrow> 'w Game" where
  "saveGame d g =
     (if g_playback g then g
      else if unsavedPhase (g_phase g) then g
      else if \<not> lc_durable (dp_levels d (si_level (g_start g))) then g
      else
        let tick = (if rebuildingPhase (g_phase g) then g_crashTick g else gs_tick (g_state g))
        in g\<lparr>g_store := (g_store g)\<lparr>st_run := Some \<lparr>sa_body = saveBody g tick, sa_tape = g_tape g\<rparr>\<rparr>\<rparr>)"

definition storeClear :: "'w Game \<Rightarrow> 'w Game" where
  "storeClear g = g\<lparr>g_store := (g_store g)\<lparr>st_run := None\<rparr>\<rparr>"

definition recordInput :: "HistoryEvent \<Rightarrow> 'w Game \<Rightarrow> 'w Game" where
  "recordInput e g = g\<lparr>g_history := g_history g @ [e], g_queued := g_queued g @ [e]\<rparr>"

section \<open>Segments\<close>

definition beginSegment :: "'w GameDeps \<Rightarrow> StartInput \<Rightarrow> bool \<Rightarrow> 'w Game \<Rightarrow> 'w Game" where
  "beginSegment d start showTip g =
     (let state = initialState start (dp_levels d);
          g = g\<lparr>g_start := start, g_history := [], g_orbValues := [], g_state := state,
                g_rewind := reset state (g_rewind g), g_prevState := None, g_pending := [],
                g_queued := [], g_notice := None\<rparr>;
          g = withChaos (chaosStart (dp_levels d) (sourceChaos d) (si_level start) showTip (si_elapsed start) g);
          g = setPhase (if showTip then TipPhase (si_level start) else PlayingPhase) g
      in saveGame d g)"

definition closeSegment :: "'w GameDeps \<Rightarrow> int \<Rightarrow> 'w Game \<Rightarrow> 'w Game" where
  "closeSegment d endTick g =
     (let cfg = dp_levels d (si_level (g_start g)) in
      if \<not> lc_durable cfg \<or> lc_length cfg = Infinity then g
      else g\<lparr>g_segments := g_segments g @
               [\<lparr>ms_start = g_start g, ms_history = g_history g, ms_endTick = endTick,
                 ms_orbValues = g_orbValues g\<rparr>]\<rparr>)"

definition levelStart :: "Level \<Rightarrow> int \<Rightarrow> int \<Rightarrow> StartInput" where
  "levelStart level seed retries =
     \<lparr>si_level = level, si_seed = seed, si_score = 0, si_elapsed = 0, si_distance = 0, si_boss = False,
      si_retries = retries, si_shield = 0\<rparr>"

definition startRun :: "'w GameDeps \<Rightarrow> 'w Game \<Rightarrow> 'w Game" where
  "startRun d g =
     (let g = g\<lparr>g_stats := emptyStats, g_divergedAt := None, g_segments := [], g_liveTick := 0,
                g_inputCursor := 0, g_restartCursor := 0\<rparr>
      in beginSegment d (levelStart L0 (uint (seedForDate (g_runDate g))) (lc_retries (dp_levels d L0))) True g)"

definition endMontage :: "'w Game \<Rightarrow> 'w Game" where
  "endMontage g = setPhase (TipPhase (si_level (g_start g))) (g\<lparr>g_montage := None\<rparr>)"

section \<open>Crash, replay and restart\<close>

definition crash :: "'w GameDeps \<Rightarrow> 'w Game \<Rightarrow> 'w Game" where
  "crash d g =
     saveGame d (setPhase (CrashingPhase CRASH_FRAMES) (g\<lparr>g_crashTick := gs_tick (g_state g)\<rparr>))"

definition startReplay :: "'w GameDeps \<Rightarrow> 'w Game \<Rightarrow> 'w Game" where
  "startReplay d g =
     (if \<not> lc_durable (dp_levels d (si_level (g_start g))) then
        setPhase LostPhase (if \<not> g_playback g then storeClear g else g)
      else
        let r = createReplayer (g_start g) (g_crashTick g) (dp_levels d)
        in setPhase ReplayingPhase
             (g\<lparr>g_stats := (g_stats g)\<lparr>rs_replays := rs_replays (g_stats g) + 1\<rparr>,
                g_replayer := Some r, g_rewind := reset (rp_state r) (g_rewind g),
                g_replayTicksPerFrame := max REPLAY_MIN_TICKS_PER_FRAME
                  (mathCeil (fdiv (of_int (g_crashTick g)) (of_int REPLAY_MAX_FRAMES))),
                g_state := rp_state r, g_prevState := None\<rparr>))"

definition isActivity :: "HistoryEvent \<Rightarrow> bool" where
  "isActivity e = (case e of ActivityCoinCollected _ _ _ \<Rightarrow> True | ActivityCrateCollected _ _ _ _ \<Rightarrow> True | _ \<Rightarrow> False)"

text \<open>The loop of \<open>advanceReplay\<close>: up to \<open>n\<close> ticks, every running state pushed into the rewind buffer.\<close>

fun replayFrame :: "'w GameDeps \<Rightarrow> nat \<Rightarrow> Replayer \<times> 'w Game \<Rightarrow> (Replayer \<times> 'w Game) option" where
  "replayFrame d 0 rg = Some rg"
| "replayFrame d (Suc n) rg =
     (if rp_done (fst rg) then Some rg
      else do { (r, g) \<leftarrow> advance 1 (g_history (snd rg)) (g_crashTick (snd rg)) (sourceImpure d) (dp_levels d) rg;
                let g = (if gs_status (rp_state r) = Running then g\<lparr>g_rewind := push (rp_state r) (g_rewind g)\<rparr> else g)
                in replayFrame d n (r, g) })"

definition finishReplay :: "'w GameDeps \<Rightarrow> ReplayResult \<Rightarrow> 'w Game \<Rightarrow> 'w Game" where
  "finishReplay d res g =
     (let served = (case res of ReplayOk _ \<Rightarrow> g_history g | ReplayDiverged i _ \<Rightarrow> take (nat i) (g_history g));
          g = g\<lparr>g_stats := (g_stats g)\<lparr>rs_fromHistory :=
                  rs_fromHistory (g_stats g) + int (length (filter isActivity served))\<rparr>\<rparr>
      in case res of
           ReplayOk state \<Rightarrow>
             let g = g\<lparr>g_state := state, g_prevState := None\<rparr>;
                 g = withChaos (scheduleNext (dp_levels d) (sourceChaos d) (gs_level state) (gs_tick state) (gs_elapsed state) g);
                 g = g\<lparr>g_queued := filter (\<lambda>e. isInputEvent e \<and> ev_tick e = gs_tick state) (g_history g)\<rparr>;
                 g = recordInput (OrchestratorStarted (gs_tick state)) g;
                 g = setNotice (''Replayed '' @ showNat (length (g_history g)) @ '' events '' @ [CHR 0xB7]
                       @ '' resumed at tick '' @ showInt (gs_tick state)) g
             in setPhase PlayingPhase g
         | ReplayDiverged i state \<Rightarrow>
             let g = g\<lparr>g_stats := (g_stats g)\<lparr>rs_incidents := rs_incidents (g_stats g) + 1\<rparr>,
                       g_divergedAt := Some i\<rparr>;
                 g = closeSegment d (g_crashTick g) g;
                 g = beginSegment d (continueAsNew state (\<lambda>si. si\<lparr>si_boss := True\<rparr>)) False g;
                 g = recordInput (OrchestratorStarted 0) g
             in setNotice (''NonDeterministicError at event #'' @ showInt (i + 1)) g)"

definition advanceReplay :: "'w GameDeps \<Rightarrow> 'w Game \<Rightarrow> 'w Game option" where
  "advanceReplay d g =
     (case g_replayer g of
        None \<Rightarrow> Some g
      | Some r \<Rightarrow>
          do { (r, g) \<leftarrow> replayFrame d (nat (g_replayTicksPerFrame g)) (r, g);
               let g = g\<lparr>g_state := rp_state r, g_prevState := None, g_replayer := Some r\<rparr>
               in if \<not> rp_done r then Some g
                  else Some (finishReplay d (result r) (g\<lparr>g_replayer := None\<rparr>)) })"

definition hotfix :: "'w GameDeps \<Rightarrow> 'w Game \<Rightarrow> 'w Game" where
  "hotfix d g =
     (let g = closeSegment d (gs_tick (g_state g)) (g\<lparr>g_divergedAt := None\<rparr>);
          g = beginSegment d (continueAsNew (g_state g) (\<lambda>si. si)) False g
      in setNotice (''Hotfix deployed '' @ [CHR 0xB7] @ '' continue-as-new'') g)"

definition restartFromHistory :: "'w GameDeps \<Rightarrow> int \<Rightarrow> 'w Game \<Rightarrow> 'w Game" where
  "restartFromHistory d tick g =
     (let g = g\<lparr>g_montage := None, g_crashTick := tick, g_pending := [], g_queued := [], g_notice := None\<rparr>;
          g = withChaos (chaosStart (dp_levels d) (sourceChaos d) (si_level (g_start g)) False (si_elapsed (g_start g)) g)
      in startReplay d g)"

definition restoreSave :: "'w GameDeps \<Rightarrow> SaveBody \<Rightarrow> 'w Game \<Rightarrow> 'w Game" where
  "restoreSave d b g =
     (let g = g\<lparr>g_start := sv_start b, g_history := sv_history b, g_stats := sv_stats b,
                g_divergedAt := sv_divergedAt b, g_segments := sv_segments b,
                g_orbValues := foldl (\<lambda>m (k, v). putKey k v m) [] (sv_orbValues b), g_runDate := sv_date b\<rparr>;
          g = (if \<not> g_playback g then g\<lparr>g_dailyBest := storeDaily (sv_date b) (g_store g)\<rparr> else g)
      in restartFromHistory d (sv_tick b) g)"

definition resumeSaved :: "'w GameDeps \<Rightarrow> Save \<Rightarrow> 'w Game \<Rightarrow> 'w Game" where
  "resumeSaved d sv g =
     (let tape = sa_tape sv; body = sa_body sv;
          restart = \<lparr>tr_liveTick = tp_liveTick tape, tr_impureAt = int (length (tp_impure tape)),
                     tr_chaosAt = int (length (tp_chaos tape)), tr_save = body\<rparr>;
          g = g\<lparr>g_savedRun := None, g_tape := tape\<lparr>tp_restarts := tp_restarts tape @ [restart]\<rparr>,
                g_liveTick := tp_liveTick tape, g_source := Recorder\<rparr>
      in restoreSave d body g)"

definition gameOver :: "'w GameDeps \<Rightarrow> string \<Rightarrow> 'w Game \<Rightarrow> 'w Game" where
  "gameOver d reason g =
     (let score = gs_score (g_state g);
          g = (if g_playback g then g
               else
                 let g = storeClear g;
                     g = (if g_best g < score
                          then g\<lparr>g_best := score, g_store := (g_store g)\<lparr>st_best := score\<rparr>\<rparr> else g)
                 in if g_runDate g = dp_today d (g_world g) \<and> g_dailyBest g < score
                    then g\<lparr>g_dailyBest := score, g_store := (g_store g)\<lparr>st_daily := Some (g_runDate g, score)\<rparr>\<rparr>
                    else g)
      in setPhase (OverPhase reason) g)"

section \<open>A retry\<close>

text \<open>The tick of the last \<open>RetryAttempt\<close> of the history, if there is one.\<close>

definition lastRetryTick :: "HistoryEvent list \<Rightarrow> int option" where
  "lastRetryTick h =
     map_option ev_tick (find (\<lambda>e. case e of RetryAttempt _ _ _ \<Rightarrow> True | _ \<Rightarrow> False) (rev h))"

definition retry :: "'w GameDeps \<Rightarrow> GameState \<Rightarrow> 'w Game \<Rightarrow> 'w Game option" where
  "retry d hit g =
     (let cfg = dp_levels d (gs_level hit);
          lowest = (case lastRetryTick (g_history g) of Some t \<Rightarrow> t + 1 | None \<Rightarrow> 0)
      in do { target \<leftarrow> pick (gs_failedAt hit) (mathCeil (fdiv REWIND_PX (speedAt cfg (gs_elapsed hit)))) lowest (g_rewind g);
              let frames = sample (rev (between (gs_tick target) (gs_failedAt hit) (g_rewind g))) REWIND_FRAMES;
                  attempt = lc_retries cfg - gs_retries target + 1;
                  g = g\<lparr>g_history := filter (\<lambda>e. ev_tick e < gs_tick target) (g_history g),
                        g_rewind := dropAfter (gs_tick target) (g_rewind g),
                        g_state := target, g_prevState := None, g_pending := [], g_queued := [],
                        g_stats := (g_stats g)\<lparr>rs_retriesUsed := rs_retriesUsed (g_stats g) + 1\<rparr>\<rparr>;
                  g = recordInput (RetryAttempt (gs_tick target) attempt (gs_failedAt hit)) g;
                  g = (if g_chaos g = None
                       then withChaos (scheduleNext (dp_levels d) (sourceChaos d) (gs_level target) (gs_tick target)
                              (gs_elapsed target) g)
                       else g);
                  g = setPhase (RewindingPhase frames 0 attempt (lc_retries cfg)) g
              in Some (saveGame d g) })"

section \<open>One live tick\<close>

text \<open>The recorded inputs of live tick \<open>l\<close>, and the cursor behind them.\<close>

fun tapedInputs :: "int \<Rightarrow> (int \<times> PlayerInput) list \<Rightarrow> PlayerInput list" where
  "tapedInputs l [] = []"
| "tapedInputs l ((t, k) # ins) = (if t = l then k # tapedInputs l ins else [])"

text \<open>The inputs of this tick, taken from the tape in playback and from the player otherwise.\<close>

definition takeInputs :: "'w Game \<Rightarrow> PlayerInput list \<times> 'w Game" where
  "takeInputs g =
     (let l = g_liveTick g; g = g\<lparr>g_liveTick := l + 1\<rparr> in
      if g_playback g then
        let pending = tapedInputs l (drop (g_inputCursor g) (tp_inputs (g_tape g)))
        in (pending, g\<lparr>g_inputCursor := g_inputCursor g + length pending, g_pending := []\<rparr>)
      else
        let pending = g_pending g
        in (pending, g\<lparr>g_tape := (g_tape g)\<lparr>tp_inputs := tp_inputs (g_tape g) @ map (\<lambda>k. (l, k)) pending,
                                             tp_liveTick := l + 1\<rparr>,
                       g_pending := []\<rparr>))"

text \<open>
  The ports of a live tick: every call draws from the source and is also kept in \<open>calls\<close>, so the world
  of the step is the game with that list.
\<close>

definition livePorts :: "'w GameDeps \<Rightarrow> ('w Game \<times> rat list) Ports" where
  "livePorts d =
     (let draw = (\<lambda>(g, calls). case sourceImpure d g of (v, g) \<Rightarrow> (v, g, calls @ [v]))
      in \<lparr>impure = draw, crateValue = (\<lambda>_. draw)\<rparr>)"

text \<open>Each orb and each crate calls \<open>impure\<close> exactly once, in event order.\<close>

fun recordOrbs :: "HistoryEvent list \<Rightarrow> rat list \<Rightarrow> (int \<times> rat) list \<Rightarrow> (int \<times> rat) list" where
  "recordOrbs (OrbTaken _ i _ # es) (v # calls) m = recordOrbs es calls (putKey i v m)"
| "recordOrbs (ActivityCrateCollected _ _ _ _ # es) (v # calls) m = recordOrbs es calls m"
| "recordOrbs (_ # es) calls m = recordOrbs es calls m"
| "recordOrbs [] calls m = m"

fun handleEvent :: "'w GameDeps \<Rightarrow> GameState \<Rightarrow> HistoryEvent \<Rightarrow> 'w Game \<Rightarrow> 'w Game" where
  "handleEvent d state e g =
     (let g = g\<lparr>g_history := g_history g @ [e]\<rparr>; st = g_stats g;
          crashSoon = (\<lambda>kind g. withChaos (onPickup (dp_levels d) (sourceChaos d) (gs_level state) kind (gs_tick state)
                         (g_chaos g, g)))
      in case e of
           OrbTaken _ _ _ \<Rightarrow> crashSoon Orb g
         | ActivityCoinCollected _ _ _ \<Rightarrow> g\<lparr>g_stats := st\<lparr>rs_executed := rs_executed st + 1\<rparr>\<rparr>
         | ActivityCrateCollected _ _ _ _ \<Rightarrow>
             crashSoon Crate (g\<lparr>g_stats := st\<lparr>rs_executed := rs_executed st + 1\<rparr>\<rparr>)
         | CircuitBreakerTripped _ _ _ \<Rightarrow> g\<lparr>g_stats := st\<lparr>rs_circuitTrips := rs_circuitTrips st + 1\<rparr>\<rparr>
         | BoostLost _ _ _ \<Rightarrow> g\<lparr>g_stats := st\<lparr>rs_boostsLost := rs_boostsLost st + 1\<rparr>\<rparr>
         | FanOut _ _ \<Rightarrow> setNotice (''fan-out '' @ [CHR 0xB7] @ '' '' @ showNat FAN_LANES @ '' activities in parallel'') g
         | FanIn _ _ rs \<Rightarrow> setNotice (''WhenAll '' @ [CHR 0xB7] @ '' fan-in '' @ joinWith '' + '' (map showInt rs) @ '' coins'') g
         | _ \<Rightarrow> g)"

definition finishLevel :: "'w GameDeps \<Rightarrow> GameState \<Rightarrow> 'w Game \<Rightarrow> 'w Game" where
  "finishLevel d state g =
     (let g = closeSegment d (gs_tick state) (g\<lparr>g_divergedAt := None\<rparr>);
          segments = (if lc_durable (dp_levels d (gs_level state)) then g_segments g else []);
          next = nextLevel (gs_level state);
          start = continueAsNew state (\<lambda>si. si\<lparr>si_level := next, si_elapsed := 0, si_distance := 0,
                    si_retries := lc_retries (dp_levels d next)\<rparr>);
          g = beginSegment d start True (g\<lparr>g_segments := []\<rparr>)
      in case newMontage (dp_levels d) segments of
           None \<Rightarrow> g
         | Some m \<Rightarrow> setPhase (MontagePhase (mo_events m)) (g\<lparr>g_montage := Some m\<rparr>))"

definition failReason :: "GameState \<Rightarrow> int option \<Rightarrow> string" where
  "failReason state divergedAt =
     (case divergedAt of
        Some i \<Rightarrow> if 0 < gs_bossUntil state then ''non-determinism detected at event #'' @ showInt (i + 1)
                  else ''hit an obstacle''
      | None \<Rightarrow> ''hit an obstacle'')"

text \<open>What follows the step: the new state, the events, and how the tick ends.\<close>

definition afterStep ::
  "'w GameDeps \<Rightarrow> GameState \<Rightarrow> HistoryEvent list \<Rightarrow> InputKind list \<Rightarrow> rat list \<Rightarrow> 'w Game \<Rightarrow> 'w Game option" where
  "afterStep d state events inputs calls g =
     (if gs_status state = NeedsRetry then retry d state g
      else
        let g = g\<lparr>g_state := state, g_orbValues := recordOrbs events calls (g_orbValues g)\<rparr>;
            g = foldl (\<lambda>g e. handleEvent d state e g) g events
        in if gs_status state = Failed then Some (gameOver d (failReason state (g_divergedAt g)) g)
           else if gs_status state = LevelDone then Some (finishLevel d state g)
           else
             let g = g\<lparr>g_rewind := push state (g_rewind g)\<rparr> in
             if 0 < gs_bossUntil state then
               (if gs_bossUntil state \<le> gs_tick state then Some (hotfix d g)
                else if events \<noteq> [] \<or> inputs \<noteq> [] then Some (touch g) else Some g)
             else if isDue (g_chaos g) (gs_tick state) then Some (crash d g)
             else
               let g = (if events \<noteq> [] then saveGame d g else g)
               in if events \<noteq> [] \<or> inputs \<noteq> [] then Some (touch g) else Some g)"

definition tick :: "'w GameDeps \<Rightarrow> 'w Game \<Rightarrow> 'w Game option" where
  "tick d g =
     (let t = gs_tick (g_state g);
          queuedInputs = map inputOf (g_queued g)
      in case takeInputs (g\<lparr>g_queued := []\<rparr>) of
           (pending, g) \<Rightarrow>
             let inputs = queuedInputs @ map Key pending;
                 g = g\<lparr>g_history := g_history g @ map (Input t) pending, g_prevState := Some (g_state g)\<rparr>
             in do { (state, events, g, calls) \<leftarrow> step (g_state g) inputs (livePorts d) (dp_levels d) (g, []);
                     afterStep d state events inputs calls g })"

section \<open>Runs and playback\<close>

definition leavePlayback :: "'w GameDeps \<Rightarrow> 'w Game \<Rightarrow> 'w Game" where
  "leavePlayback d g =
     (let date = dp_today d (g_world g)
      in g\<lparr>g_playback := False, g_speed := 1, g_hasPlayer := False, g_runDate := date,
           g_dailyBest := storeDaily date (g_store g)\<rparr>)"

definition newRun :: "'w GameDeps \<Rightarrow> 'w Game \<Rightarrow> 'w Game" where
  "newRun d g =
     (let g = leavePlayback d g
      in startRun d (storeClear (g\<lparr>g_tape := emptyTape (g_runDate g), g_source := Recorder\<rparr>)))"

definition watch :: "'w GameDeps \<Rightarrow> Tape \<Rightarrow> 'w Game \<Rightarrow> bool \<times> 'w Game" where
  "watch d tape g =
     (if \<not> isTape (Some (tapeJson tape)) then (False, g)
      else (True, startRun d (g\<lparr>g_playback := True, g_runDate := tp_date tape, g_tape := tape,
                               g_hasPlayer := True, g_source := Player (newTapePlayer tape)\<rparr>)))"

definition confirmCard :: "'w GameDeps \<Rightarrow> 'w Game \<Rightarrow> 'w Game" where
  "confirmCard d g =
     (case g_phase g of
        TipPhase _ \<Rightarrow> setPhase PlayingPhase g
      | LostPhase \<Rightarrow>
          setNotice ''Dapr Workflow enabled''
            (beginSegment d (levelStart L1 (uint (seedFrom (seedForDate (g_runDate g)))) (lc_retries (dp_levels d L1)))
               True (g\<lparr>g_stats := emptyStats\<rparr>))
      | _ \<Rightarrow> g)"

definition nextRestart :: "'w Game \<Rightarrow> TapeRestart option" where
  "nextRestart g =
     (if g_restartCursor g < length (tp_restarts (g_tape g)) then Some (tp_restarts (g_tape g) ! g_restartCursor g)
      else None)"

definition restartDue :: "'w Game \<Rightarrow> bool" where
  "restartDue g \<longleftrightarrow>
     g_playback g \<and> (case nextRestart g of None \<Rightarrow> False | Some r \<Rightarrow> tr_liveTick r = g_liveTick g)"

fun seekSource :: "nat \<Rightarrow> nat \<Rightarrow> Source \<Rightarrow> Source" where
  "seekSource i c (Player p) = Player (seek i c p)"
| "seekSource i c Recorder = Recorder"

definition autoplay :: "'w GameDeps \<Rightarrow> 'w Game \<Rightarrow> 'w Game" where
  "autoplay d g =
     (let k = g_phase g;
          g = (case k of TipPhase _ \<Rightarrow> confirmCard d g | LostPhase \<Rightarrow> confirmCard d g | _ \<Rightarrow> g)
      in case nextRestart g of
           None \<Rightarrow> g
         | Some r \<Rightarrow>
             if tr_liveTick r = g_liveTick g \<and> g_hasPlayer g \<and>
                (case k of OverPhase _ \<Rightarrow> False | TitlePhase \<Rightarrow> False | _ \<Rightarrow> True)
             then restoreSave d (tr_save r)
                    (g\<lparr>g_restartCursor := g_restartCursor g + 1,
                       g_source := seekSource (nat (tr_impureAt r)) (nat (tr_chaosAt r)) (g_source g)\<rparr>)
             else g)"

section \<open>Frames\<close>

fun liveFrame :: "'w GameDeps \<Rightarrow> nat \<Rightarrow> 'w Game \<Rightarrow> 'w Game option" where
  "liveFrame d 0 g = Some g"
| "liveFrame d (Suc n) g =
     (if g_phase g = PlayingPhase \<and> \<not> restartDue g then tick d g \<bind> liveFrame d n else Some g)"

definition montageFrame :: "'w GameDeps \<Rightarrow> 'w Game \<Rightarrow> 'w Game option" where
  "montageFrame d g =
     (case g_montage g of
        None \<Rightarrow> Some (endMontage g)
      | Some m \<Rightarrow> do { m \<leftarrow> montageAdvance (dp_levels d) m;
                       let g = g\<lparr>g_montage := Some m\<rparr>
                       in Some (if montageDone m then endMontage g else g) })"

definition isOver :: "Phase \<Rightarrow> bool" where
  "isOver p = (case p of OverPhase _ \<Rightarrow> True | _ \<Rightarrow> False)"

definition frameStep :: "'w GameDeps \<Rightarrow> nat \<Rightarrow> 'w Game \<Rightarrow> 'w Game option" where
  "frameStep d liveTicks g =
     (let g = (if g_playback g then autoplay d g else g)
      in do { g \<leftarrow> (case g_phase g of
                PlayingPhase \<Rightarrow> liveFrame d liveTicks g
              | CrashingPhase framesLeft \<Rightarrow>
                  Some (if 1 < framesLeft then g\<lparr>g_phase := CrashingPhase (framesLeft - 1)\<rparr> else startReplay d g)
              | ReplayingPhase \<Rightarrow> advanceReplay d g
              | RewindingPhase frames index attempt n \<Rightarrow>
                  Some (if index + 1 < length frames
                        then g\<lparr>g_phase := RewindingPhase frames (index + 1) attempt n\<rparr>
                        else setPhase PlayingPhase g)
              | MontagePhase _ \<Rightarrow> montageFrame d g
              | _ \<Rightarrow> Some g);
              Some (if g_playback g \<and> exhausted (g_source g) \<and> \<not> isOver (g_phase g)
                    then gameOver d ''Run code ended early'' g else g) })"

definition playbackSpeed :: "'w Game \<Rightarrow> int" where
  "playbackSpeed g = (if g_playback g then g_speed g else 1)"

fun frameSteps :: "'w GameDeps \<Rightarrow> nat \<Rightarrow> nat \<Rightarrow> 'w Game \<Rightarrow> 'w Game option" where
  "frameSteps d 0 liveTicks g = Some g"
| "frameSteps d (Suc n) liveTicks g = frameStep d liveTicks g \<bind> frameSteps d n liveTicks"

definition frame :: "'w GameDeps \<Rightarrow> nat \<Rightarrow> 'w Game \<Rightarrow> 'w Game option" where
  "frame d liveTicks g = frameSteps d (nat (if g_playback g then playbackSpeed g else 1)) liveTicks g"

definition setPlaybackSpeed :: "int \<Rightarrow> 'w Game \<Rightarrow> 'w Game" where
  "setPlaybackSpeed speed g =
     (if \<not> g_playback g \<or> speed \<notin> set PLAYBACK_SPEEDS then g else touch (g\<lparr>g_speed := speed\<rparr>))"

section \<open>Commands\<close>

text \<open>The \<open>switch\<close> of \<open>command\<close> on the phase.\<close>

definition phaseCommand :: "'w GameDeps \<Rightarrow> Command \<Rightarrow> 'w Game \<Rightarrow> 'w Game" where
  "phaseCommand d c g =
     (case g_phase g of
        TitlePhase \<Rightarrow> if c = ConfirmCmd then newRun d g else g
      | OverPhase _ \<Rightarrow> if c = ConfirmCmd then newRun d g else g
      | ResumePhase _ \<Rightarrow>
          (case (c, g_savedRun g) of
             (ConfirmCmd, Some sv) \<Rightarrow> resumeSaved d sv g
           | (CancelCmd, _) \<Rightarrow> setPhase TitlePhase (storeClear (g\<lparr>g_savedRun := None\<rparr>))
           | _ \<Rightarrow> g)
      | TipPhase _ \<Rightarrow> if c = ConfirmCmd then confirmCard d g else g
      | MontagePhase _ \<Rightarrow> if c = ConfirmCmd then endMontage g else g
      | LostPhase \<Rightarrow> if c = ConfirmCmd then confirmCard d g else g
      | PlayingPhase \<Rightarrow>
          (case c of
             CancelCmd \<Rightarrow> saveGame d (setPhase PausedPhase g)
           | PauseCmd \<Rightarrow> saveGame d (setPhase PausedPhase g)
           | Press k \<Rightarrow> g\<lparr>g_pending := g_pending g @ [k]\<rparr>
           | ConfirmCmd \<Rightarrow> g)
      | PausedPhase \<Rightarrow>
          if c \<in> {CancelCmd, PauseCmd, ConfirmCmd} then setPhase PlayingPhase g else g
      | _ \<Rightarrow> g)"

definition command :: "'w GameDeps \<Rightarrow> Command \<Rightarrow> 'w Game \<Rightarrow> 'w Game" where
  "command d c g =
     (let g = (if c = Press SlideStart then g\<lparr>g_slideHeld := True\<rparr>
               else if c = Press SlideEnd then g\<lparr>g_slideHeld := False\<rparr> else g)
      in if g_playback g then
           (if c = ConfirmCmd \<and> isOver (g_phase g) then newRun d g
            else if c = CancelCmd \<and> g_phase g \<noteq> PausedPhase then setPhase TitlePhase (leavePlayback d g)
            else
              let unpause = (c = ConfirmCmd \<and> g_phase g = PausedPhase)
              in if c \<noteq> PauseCmd \<and> c \<noteq> CancelCmd \<and> \<not> unpause then g else phaseCommand d c g)
         else phaseCommand d c g)"

definition suspend :: "'w GameDeps \<Rightarrow> 'w Game \<Rightarrow> 'w Game" where
  "suspend d g = saveGame d (if g_phase g = PlayingPhase then setPhase PausedPhase g else g)"

section \<open>The constructor and the view\<close>

definition newGame :: "'w GameDeps \<Rightarrow> GameStore \<Rightarrow> 'w \<Rightarrow> 'w Game" where
  "newGame d store w =
     (let date = dp_today d w; start = levelStart L0 1 0; state = initialState start (dp_levels d) in
      \<lparr>g_phase = (case st_run store of Some sv \<Rightarrow> ResumePhase (sv_tick (sa_body sv)) | None \<Rightarrow> TitlePhase),
       g_runDate = date, g_dailyBest = storeDaily date store, g_start = start, g_history = [],
       g_state = state, g_stats = emptyStats, g_best = st_best store, g_divergedAt = None,
       g_tape = emptyTape date, g_playback = False, g_speed = 1, g_source = Recorder,
       g_hasPlayer = False, g_liveTick = 0, g_inputCursor = 0, g_restartCursor = 0,
       g_prevState = None, g_notice = None, g_pending = [], g_queued = [], g_slideHeld = False,
       g_segments = [], g_orbValues = [], g_montage = None, g_replayer = None,
       g_replayTicksPerFrame = REPLAY_MIN_TICKS_PER_FRAME, g_crashTick = 0, g_savedRun = st_run store,
       g_version = 0, g_rewind = emptyBuffer, g_chaos = None, g_store = store, g_world = w\<rparr>)"

record GameView =
  gv_state :: GameState
  gv_phase :: Phase
  gv_notice :: "string option"
  gv_divergedAt :: "int option"
  gv_prev :: "GameState option"
  gv_montage :: "(nat \<times> int \<times> rat list) option"
  gv_playbackDate :: "string option"
  gv_playbackSpeed :: "int option"

definition shownMontage :: "'w Game \<Rightarrow> Montage option" where
  "shownMontage g = (case g_phase g of MontagePhase _ \<Rightarrow> g_montage g | _ \<Rightarrow> None)"

definition view :: "'w Game \<Rightarrow> GameView" where
  "view g =
     \<lparr>gv_state = (case shownMontage g of
          Some m \<Rightarrow> montageState m
        | None \<Rightarrow> (case g_phase g of
              RewindingPhase frames i _ _ \<Rightarrow> if i < length frames then frames ! i else g_state g
            | _ \<Rightarrow> g_state g)),
      gv_phase = g_phase g,
      gv_notice = (case g_notice g of
          Some (text, untilTick) \<Rightarrow> if gs_tick (g_state g) < untilTick then Some text else None
        | None \<Rightarrow> None),
      gv_divergedAt = g_divergedAt g,
      gv_prev = (case g_prevState g of
          Some p \<Rightarrow> if g_phase g = PlayingPhase \<and> gs_tick p = gs_tick (g_state g) - 1 then Some p else None
        | None \<Rightarrow> None),
      gv_montage = map_option (\<lambda>m. (mo_events m, mo_flash m, mo_trail m)) (shownMontage g),
      gv_playbackDate = (if g_playback g then Some (g_runDate g) else None),
      gv_playbackSpeed = (if g_playback g then Some (g_speed g) else None)\<rparr>"

end
