(* ===== verification/GameSafety.thy ===== *)
theory GameSafety
  imports Game
begin

text \<open>
  What the game does to its store. Drawing a value only moves the source, the tape and the chaos
  schedule (\<open>drawn\<close>); every method is then described by the fields it leaves alone, collected in
  \<open>game_fields\<close>. The results: watching a recorded run never touches the store, a stored run is always
  one of a durable level, and the best score is never lost.
\<close>

declare handleEvent.simps [simp del]

named_theorems game_fields \<open>the fields the methods of the game leave alone\<close>

section \<open>Drawing values\<close>

definition undrawn :: "'w Game \<Rightarrow> 'w Game" where
  "undrawn g = g\<lparr>g_tape := emptyTape [], g_source := Recorder, g_world := undefined, g_chaos := None\<rparr>"

definition drawn :: "'w Game \<Rightarrow> 'w Game \<Rightarrow> bool" where
  "drawn g g' \<longleftrightarrow> undrawn g' = undrawn g"

lemma drawn_refl [simp, intro]: "drawn g g"
  by (simp add: drawn_def)

lemma drawn_trans: "drawn g h \<Longrightarrow> drawn h k \<Longrightarrow> drawn g k"
  by (simp add: drawn_def)

lemma drawn_fields:
  assumes "drawn g g'"
  shows "g_store g' = g_store g" "g_playback g' = g_playback g" "g_best g' = g_best g" "g_dailyBest g' = g_dailyBest g"
    "g_runDate g' = g_runDate g" "g_start g' = g_start g" "g_phase g' = g_phase g" "g_history g' = g_history g"
    "g_state g' = g_state g" "g_queued g' = g_queued g" "g_rewind g' = g_rewind g" "g_segments g' = g_segments g"
    "g_crashTick g' = g_crashTick g" "g_replayer g' = g_replayer g" "g_pending g' = g_pending g"
    "g_stats g' = g_stats g" "g_orbValues g' = g_orbValues g" "g_montage g' = g_montage g"
    "g_replayTicksPerFrame g' = g_replayTicksPerFrame g" "g_liveTick g' = g_liveTick g"
    "g_divergedAt g' = g_divergedAt g" "g_slideHeld g' = g_slideHeld g"
  using assms unfolding drawn_def undrawn_def by (cases g; cases g'; simp)+

lemma drawn_upd:
  "drawn g (g\<lparr>g_tape := t, g_world := w\<rparr>)" "drawn g (g\<lparr>g_source := s\<rparr>)" "drawn g (g\<lparr>g_chaos := c\<rparr>)"
  by (simp_all add: drawn_def undrawn_def)

lemma sourceImpure_drawn: "drawn g (snd (sourceImpure d g))"
  by (auto simp: sourceImpure_def split: Source.split prod.split intro: drawn_upd)

lemma sourceChaos_drawn: "drawn g (snd (sourceChaos d g))"
  by (auto simp: sourceChaos_def split: Source.split prod.split intro: drawn_upd)

lemma withChaos_drawn: "drawn g (snd dg) \<Longrightarrow> drawn g (withChaos dg)"
  unfolding withChaos_def by (erule drawn_trans) (rule drawn_upd)

lemma chaosBetween_drawn: "drawn g (snd (chaosBetween (sourceChaos d) r g))"
  using sourceChaos_drawn[of g d] by (auto simp: chaosBetween_def split: prod.split)

lemma scheduleNext_drawn: "drawn g (withChaos (scheduleNext L (sourceChaos d) l t e g))"
  using sourceChaos_drawn[of g d] by (intro withChaos_drawn) (auto simp: scheduleNext_def split: prod.split option.split)

lemma chaosStart_drawn: "drawn g (withChaos (chaosStart L (sourceChaos d) l b e g))"
  using sourceChaos_drawn[of g d]
  by (intro withChaos_drawn)
     (auto simp: chaosStart_def chaosBetween_def scheduleNext_def Let_def split: prod.split option.split bool.split)

lemma onPickup_drawn: "drawn g (withChaos (onPickup L (sourceChaos d) l k t (c, g)))"
  using sourceChaos_drawn[of g d]
  by (intro withChaos_drawn) (auto simp: onPickup_def chaosBetween_def Let_def split: prod.split option.split)

lemma ask_drawn: "ask (livePorts d) cs (g, calls) = (vs, g', calls') \<Longrightarrow> drawn g g' \<and> calls' = calls @ vs"
proof (induction cs arbitrary: g calls vs)
  case (Cons c cs)
  obtain v g1 where 1: "sourceImpure d g = (v, g1)" by force
  obtain us where us: "vs = v # us" "ask (livePorts d) cs (g1, calls @ [v]) = (us, g', calls')"
    using Cons.prems 1 by (cases c) (auto simp: livePorts_def Let_def split: prod.splits)
  have "drawn g g1" using sourceImpure_drawn[of g d] 1 by simp
  then show ?case using Cons.IH[OF us(2)] us(1) drawn_trans by auto
qed simp

lemma step_drawn:
  assumes "step s is (livePorts d) L (g, []) = Some (s', evs, g', calls)"
  shows "drawn g g'"
proof (cases "gs_status s = Running")
  case True
  obtain os where "ask (livePorts d) (callsOf evs) (g, []) = (answersOf evs os, g', calls)"
    using step_explained[OF assms True] by metis
  then show ?thesis using ask_drawn by blast
next
  case False
  then show ?thesis using assms by (simp add: step_stopped)
qed

section \<open>What concerns the store\<close>

text \<open>
  The fields that decide what is stored, and what one method may do to them (\<open>keeps\<close>): in playback
  nothing; otherwise it keeps the agreement with the store (\<open>storeInv\<close>) and never lowers the best score.
\<close>

definition scores :: "'w Game \<Rightarrow> GameStore \<times> bool \<times> int \<times> int \<times> string" where
  "scores g = (g_store g, g_playback g, g_best g, g_dailyBest g, g_runDate g)"

definition durableSave :: "'w GameDeps \<Rightarrow> Save \<Rightarrow> bool" where
  "durableSave d sv \<longleftrightarrow> lc_durable (dp_levels d (si_level (sv_start (sa_body sv))))"

definition storeInv :: "'w GameDeps \<Rightarrow> 'w Game \<Rightarrow> bool" where
  "storeInv d g \<longleftrightarrow> (\<forall>sv. st_run (g_store g) = Some sv \<longrightarrow> durableSave d sv) \<and> st_best (g_store g) = g_best g \<and>
     (\<not> g_playback g \<longrightarrow> g_dailyBest g = storeDaily (g_runDate g) (g_store g))"

definition keeps :: "'w GameDeps \<Rightarrow> 'w Game \<Rightarrow> 'w Game \<Rightarrow> bool" where
  "keeps d g g' \<longleftrightarrow> g_playback g' = g_playback g \<and> (storeInv d g \<longrightarrow> storeInv d g') \<and> g_best g \<le> g_best g' \<and>
     (g_playback g \<longrightarrow> g_store g' = g_store g \<and> g_best g' = g_best g \<and> g_dailyBest g' = g_dailyBest g)"

lemma scores_update [game_fields]:
  "scores (g\<lparr>g_phase := a1\<rparr>) = scores g" "scores (g\<lparr>g_start := a2\<rparr>) = scores g" "scores (g\<lparr>g_history := a3\<rparr>) = scores g"
  "scores (g\<lparr>g_state := a4\<rparr>) = scores g" "scores (g\<lparr>g_stats := a5\<rparr>) = scores g" "scores (g\<lparr>g_divergedAt := a6\<rparr>) = scores g"
  "scores (g\<lparr>g_tape := a7\<rparr>) = scores g" "scores (g\<lparr>g_speed := a8\<rparr>) = scores g" "scores (g\<lparr>g_source := a9\<rparr>) = scores g"
  "scores (g\<lparr>g_hasPlayer := b1\<rparr>) = scores g" "scores (g\<lparr>g_liveTick := b2\<rparr>) = scores g" "scores (g\<lparr>g_inputCursor := b3\<rparr>) = scores g"
  "scores (g\<lparr>g_restartCursor := b4\<rparr>) = scores g" "scores (g\<lparr>g_prevState := b5\<rparr>) = scores g" "scores (g\<lparr>g_notice := b6\<rparr>) = scores g"
  "scores (g\<lparr>g_pending := b7\<rparr>) = scores g" "scores (g\<lparr>g_queued := b8\<rparr>) = scores g" "scores (g\<lparr>g_slideHeld := b9\<rparr>) = scores g"
  "scores (g\<lparr>g_segments := c1\<rparr>) = scores g" "scores (g\<lparr>g_orbValues := c2\<rparr>) = scores g" "scores (g\<lparr>g_montage := c3\<rparr>) = scores g"
  "scores (g\<lparr>g_replayer := c4\<rparr>) = scores g" "scores (g\<lparr>g_replayTicksPerFrame := c5\<rparr>) = scores g" "scores (g\<lparr>g_crashTick := c6\<rparr>) = scores g"
  "scores (g\<lparr>g_savedRun := c7\<rparr>) = scores g" "scores (g\<lparr>g_version := c8\<rparr>) = scores g" "scores (g\<lparr>g_rewind := c9\<rparr>) = scores g"
  by (simp_all add: scores_def)

lemma drawn_scores: "drawn g g' \<Longrightarrow> scores g' = scores g"
  by (simp add: scores_def drawn_fields)

lemmas chaos_scores [game_fields] = scheduleNext_drawn[THEN drawn_scores] chaosStart_drawn[THEN drawn_scores]
  onPickup_drawn[THEN drawn_scores]

lemma display_scores [game_fields]:
  "scores (touch g) = scores g" "scores (setNotice text g) = scores g" "scores (syncSlide g) = scores g"
  "scores (setPhase p g) = scores g" "scores (recordInput e g) = scores g" "scores (closeSegment d t g) = scores g"
  "scores (endMontage g) = scores g"
  by (simp_all add: touch_def setNotice_def syncSlide_def setPhase_def recordInput_def closeSegment_def endMontage_def
      Let_def game_fields)

lemma keeps_refl [simp]: "keeps d g g"
  by (simp add: keeps_def)

lemma keeps_trans: "keeps d g h \<Longrightarrow> keeps d h k \<Longrightarrow> keeps d g k"
  by (auto simp: keeps_def)

lemma keeps_scores: "scores h = scores g \<Longrightarrow> keeps d g h"
  by (auto simp: keeps_def scores_def storeInv_def)

lemma keeps_after: "keeps d g h \<Longrightarrow> scores k = scores h \<Longrightarrow> keeps d g k"
  by (rule keeps_trans[OF _ keeps_scores])

lemma storeDaily_update [simp]:
  "storeDaily e (st\<lparr>st_run := r\<rparr>) = storeDaily e st" "storeDaily e (st\<lparr>st_best := n\<rparr>) = storeDaily e st"
  "storeDaily e (st\<lparr>st_daily := Some (date, n)\<rparr>) = (if date = e then n else 0)"
  by (simp_all add: storeDaily_def)

lemma keeps_saveGame: "keeps d g (saveGame d g)"
  unfolding saveGame_def Let_def by (auto simp: keeps_def storeInv_def durableSave_def saveBody_def)

lemma keeps_storeClear: "\<not> g_playback g \<Longrightarrow> keeps d g (storeClear g)"
  by (auto simp: keeps_def storeClear_def storeInv_def)

lemma keeps_gameOver: "keeps d g (gameOver d reason g)"
  unfolding gameOver_def Let_def
  by (rule keeps_trans[OF _ keeps_scores[OF display_scores(4)]]) (auto simp: keeps_def storeClear_def storeInv_def)

lemma keeps_beginSegment: "keeps d g (beginSegment d start tip g)"
  unfolding beginSegment_def Let_def
  by (rule keeps_trans[OF keeps_scores keeps_saveGame]) (simp add: game_fields)

lemma keeps_startReplay: "keeps d g (startReplay d g)"
proof (cases "lc_durable (dp_levels d (si_level (g_start g)))")
  case True
  then show ?thesis by (intro keeps_scores) (simp add: startReplay_def Let_def game_fields)
next
  case False
  have "keeps d g (if \<not> g_playback g then storeClear g else g)" by (simp add: keeps_storeClear)
  then show ?thesis unfolding startReplay_def
    using False by (auto elim!: keeps_after simp: game_fields)
qed

lemma keeps_startRun: "keeps d g (startRun d g)"
  unfolding startRun_def Let_def by (rule keeps_trans[OF keeps_scores keeps_beginSegment]) (simp add: game_fields)

lemma keeps_finishReplay: "keeps d g (finishReplay d res g)"
proof (cases res)
  case (ReplayOk s)
  show ?thesis by (intro keeps_scores) (simp add: finishReplay_def ReplayOk Let_def game_fields)
next
  case (ReplayDiverged i s)
  show ?thesis unfolding finishReplay_def ReplayDiverged ReplayResult.case Let_def
    by (rule keeps_after[OF keeps_trans[OF keeps_scores keeps_beginSegment]]) (simp_all add: game_fields)
qed

lemma keeps_hotfix: "keeps d g (hotfix d g)"
  unfolding hotfix_def Let_def
  by (rule keeps_after[OF keeps_trans[OF keeps_scores keeps_beginSegment]]) (simp_all add: game_fields)

lemma keeps_finishLevel: "keeps d g (finishLevel d s g)"
proof -
  have 1: "keeps d g (beginSegment d start True ((closeSegment d t (g\<lparr>g_divergedAt := None\<rparr>))\<lparr>g_segments := []\<rparr>))" for start t
    by (rule keeps_trans[OF keeps_scores keeps_beginSegment]) (simp add: game_fields)
  show ?thesis unfolding finishLevel_def Let_def
    by (auto split: option.split intro!: 1 keeps_after[OF 1] simp: game_fields)
qed

lemma keeps_crash: "keeps d g (crash d g)"
  unfolding crash_def by (rule keeps_trans[OF keeps_scores keeps_saveGame]) (simp add: game_fields)

lemma keeps_restartFromHistory: "keeps d g (restartFromHistory d t g)"
  unfolding restartFromHistory_def Let_def
  by (rule keeps_trans[OF keeps_scores keeps_startReplay]) (simp add: game_fields)

lemma keeps_restoreSave: "keeps d g (restoreSave d b g)"
  unfolding restoreSave_def Let_def
  by (rule keeps_trans[OF _ keeps_restartFromHistory]) (auto simp: keeps_def storeInv_def)

lemma keeps_resumeSaved: "keeps d g (resumeSaved d sv g)"
  unfolding resumeSaved_def Let_def
  by (rule keeps_trans[OF keeps_scores keeps_restoreSave]) (simp add: game_fields)

lemma keeps_confirmCard: "keeps d g (confirmCard d g)"
proof -
  have "keeps d g (setNotice t (beginSegment d start True (g\<lparr>g_stats := emptyStats\<rparr>)))" for t start
    by (rule keeps_after[OF keeps_trans[OF keeps_scores keeps_beginSegment]]) (simp_all add: game_fields)
  then show ?thesis by (auto simp: confirmCard_def game_fields intro: keeps_scores split: Phase.split)
qed

lemma keeps_retry:
  assumes "retry d hit g = Some g'"
  shows "keeps d g g'"
proof -
  obtain h where "g' = saveGame d h" "scores h = scores g"
    using assms by (auto simp: retry_def Let_def game_fields elim!: bind_SomeE)
  then show ?thesis by (auto intro: keeps_trans[OF keeps_scores keeps_saveGame])
qed

lemma handleEvent_scores [game_fields]: "scores (handleEvent d s e g) = scores g"
  by (cases e) (simp_all add: handleEvent.simps Let_def game_fields)

lemma handleEvents_scores [game_fields]: "scores (foldl (\<lambda>g e. handleEvent d s e g) g es) = scores g"
  by (induction es arbitrary: g) (simp_all add: game_fields)

lemma takeInputs_scores: "takeInputs g = (ks, g') \<Longrightarrow> scores g' = scores g"
  by (auto simp: takeInputs_def Let_def game_fields split: if_splits)

lemma keeps_afterStep:
  assumes "afterStep d s evs inputs calls g = Some g'"
  shows "keeps d g g'"
proof (cases "gs_status s = NeedsRetry")
  case True
  then show ?thesis using assms by (simp add: afterStep_def keeps_retry)
next
  case False
  define h where "h = foldl (\<lambda>g e. handleEvent d s e g) (g\<lparr>g_state := s, g_orbValues := recordOrbs evs calls (g_orbValues g)\<rparr>) evs"
  have h: "keeps d g h" by (rule keeps_scores) (simp add: h_def game_fields)
  define k where "k = h\<lparr>g_rewind := push s (g_rewind h)\<rparr>"
  have k: "keeps d g k" by (rule keeps_after[OF h]) (simp add: k_def game_fields)
  have "g' \<in> {gameOver d (failReason s (g_divergedAt h)) h, finishLevel d s h, hotfix d k, crash d k, touch k, k,
      touch (saveGame d k), saveGame d k}"
    using assms False unfolding afterStep_def h_def[symmetric] k_def Let_def by (auto split: if_splits)
  then show ?thesis
    using h k keeps_trans[OF h keeps_gameOver] keeps_trans[OF h keeps_finishLevel] keeps_trans[OF k keeps_hotfix]
      keeps_trans[OF k keeps_crash] keeps_trans[OF k keeps_saveGame] keeps_after[OF k, of "touch k"]
      keeps_after[OF keeps_trans[OF k keeps_saveGame], of "touch (saveGame d k)"]
    by (auto simp: game_fields)
qed

lemma keeps_tick:
  assumes "tick d g = Some g'"
  shows "keeps d g g'"
proof -
  obtain ks g1 where 1: "takeInputs (g\<lparr>g_queued := []\<rparr>) = (ks, g1)" by force
  define g2 where "g2 = g1\<lparr>g_history := g_history g1 @ map (Input (gs_tick (g_state g))) ks, g_prevState := Some (g_state g1)\<rparr>"
  have 2: "scores g2 = scores g" using takeInputs_scores[OF 1] by (simp add: g2_def game_fields)
  obtain s evs g3 calls where 3: "step (g_state g2) (map inputOf (g_queued g) @ map Key ks) (livePorts d) (dp_levels d) (g2, [])
      = Some (s, evs, g3, calls)" "afterStep d s evs (map inputOf (g_queued g) @ map Key ks) calls g3 = Some g'"
    using assms 1 by (auto simp: tick_def Let_def g2_def elim!: bind_SomeE)
  show ?thesis
    using keeps_trans[OF keeps_scores keeps_afterStep[OF 3(2)]] drawn_scores[OF step_drawn[OF 3(1)]] 2 by simp
qed

lemma ask_replayPorts_drawn:
  "ask (replayPorts (sourceImpure d) crates) cs g = (vs, g') \<Longrightarrow> drawn g g'"
proof (induction cs arbitrary: g vs)
  case (Cons c cs)
  obtain v g1 where 1: "(case c of OrbCall \<Rightarrow> impure (replayPorts (sourceImpure d) crates) g
      | CrateCall i \<Rightarrow> crateValue (replayPorts (sourceImpure d) crates) i g) = (v, g1)" by force
  have "drawn g g1" using 1 sourceImpure_drawn[of g d]
    by (cases c) (auto simp: replayPorts_def split: option.splits)
  moreover have "drawn g1 g'" using Cons.prems 1 by (auto split: prod.splits intro: Cons.IH)
  ultimately show ?case by (rule drawn_trans)
qed simp

lemma advanceOne_drawn:
  assumes "advanceOne h t (sourceImpure d) L (r, g) = Some (r', g')"
  shows "drawn g g'"
proof (rule advanceOne_cases[OF assms])
  fix inputs expected n s' evs
  assume st: "step (rp_state r) inputs (replayPorts (sourceImpure d) (crateResults h)) L g = Some (s', evs, g')"
  show ?thesis
  proof (cases "gs_status (rp_state r) = Running")
    case True
    then show ?thesis using step_explained[OF st True] ask_replayPorts_drawn by metis
  qed (use st in \<open>simp add: step_stopped\<close>)
qed

lemma advance1_drawn:
  assumes "advance 1 h t (sourceImpure d) L (r, g) = Some (r', g')"
  shows "drawn g g'"
  using assms advanceOne_drawn by (auto split: if_splits elim!: bind_SomeE)

lemma replayFrame_scores: "replayFrame d n (r, g) = Some (r', g') \<Longrightarrow> scores g' = scores g"
proof (induction n arbitrary: r g)
  case (Suc n)
  show ?case
  proof (cases "rp_done r")
    case False
    then obtain r1 g1 where 1: "advance 1 (g_history g) (g_crashTick g) (sourceImpure d) (dp_levels d) (r, g) = Some (r1, g1)"
      "replayFrame d n (r1, if gs_status (rp_state r1) = Running then g1\<lparr>g_rewind := push (rp_state r1) (g_rewind g1)\<rparr> else g1)
        = Some (r', g')"
      using Suc.prems by (auto simp: Let_def simp del: advance.simps elim!: bind_SomeE)
    show ?thesis using Suc.IH[OF 1(2)] drawn_scores[OF advance1_drawn[OF 1(1)]] by (auto simp: game_fields split: if_splits)
  qed (use Suc.prems in simp)
qed simp

lemma keeps_advanceReplay:
  assumes "advanceReplay d g = Some g'"
  shows "keeps d g g'"
proof (cases "g_replayer g")
  case (Some r)
  then obtain r1 g1 where 1: "replayFrame d (nat (g_replayTicksPerFrame g)) (r, g) = Some (r1, g1)"
    "g' = g1\<lparr>g_state := rp_state r1, g_prevState := None, g_replayer := Some r1\<rparr> \<or>
     g' = finishReplay d (result r1) (g1\<lparr>g_state := rp_state r1, g_prevState := None, g_replayer := None\<rparr>)"
    using assms by (auto simp: advanceReplay_def Let_def elim!: bind_SomeE split: if_splits)
  have "scores g1 = scores g" by (rule replayFrame_scores[OF 1(1)])
  then show ?thesis using 1(2)
    by (auto simp: game_fields intro: keeps_scores keeps_trans[OF keeps_scores keeps_finishReplay])
qed (use assms in \<open>simp add: advanceReplay_def\<close>)

section \<open>Frames\<close>

lemma keeps_liveFrame: "liveFrame d n g = Some g' \<Longrightarrow> keeps d g g'"
proof (induction n arbitrary: g)
  case (Suc n)
  then show ?case by (auto split: if_splits elim!: bind_SomeE dest!: keeps_tick intro: keeps_trans)
qed simp

lemma montageFrame_scores: "montageFrame d g = Some g' \<Longrightarrow> scores g' = scores g"
  by (auto simp: montageFrame_def Let_def game_fields split: option.splits if_splits elim!: bind_SomeE)

lemma keeps_autoplay: "keeps d g (autoplay d g)"
proof -
  define h where "h = (case g_phase g of TipPhase _ \<Rightarrow> confirmCard d g | LostPhase \<Rightarrow> confirmCard d g | _ \<Rightarrow> g)"
  have h: "keeps d g h" by (simp add: h_def keeps_confirmCard split: Phase.split)
  have "keeps d h (restoreSave d b (h\<lparr>g_restartCursor := c, g_source := s\<rparr>))" for b c s
    by (rule keeps_trans[OF keeps_scores keeps_restoreSave]) (simp add: game_fields)
  then show ?thesis unfolding autoplay_def Let_def h_def[symmetric]
    using h by (auto split: option.split intro: keeps_trans)
qed

lemma keeps_frameStep:
  assumes "frameStep d n g = Some g'"
  shows "keeps d g g'"
proof -
  define h where "h = (if g_playback g then autoplay d g else g)"
  have h: "keeps d g h" by (simp add: h_def keeps_autoplay)
  obtain k where k: "(case g_phase h of
                PlayingPhase \<Rightarrow> liveFrame d n h
              | CrashingPhase framesLeft \<Rightarrow>
                  Some (if 1 < framesLeft then h\<lparr>g_phase := CrashingPhase (framesLeft - 1)\<rparr> else startReplay d h)
              | ReplayingPhase \<Rightarrow> advanceReplay d h
              | RewindingPhase frames index attempt n \<Rightarrow>
                  Some (if index + 1 < length frames
                        then h\<lparr>g_phase := RewindingPhase frames (index + 1) attempt n\<rparr>
                        else setPhase PlayingPhase h)
              | MontagePhase _ \<Rightarrow> montageFrame d h
              | _ \<Rightarrow> Some h) = Some k" "g' = k \<or> g' = gameOver d ''Run code ended early'' k"
    using assms unfolding frameStep_def Let_def h_def[symmetric] by (auto elim!: bind_SomeE split: if_splits)
  have "keeps d h k" using k(1)
    by (cases "g_phase h")
      (auto simp: keeps_liveFrame keeps_advanceReplay keeps_startReplay game_fields
         intro: keeps_scores montageFrame_scores split: if_splits)
  then have "keeps d g k" by (rule keeps_trans[OF h])
  then show ?thesis using k(2) keeps_trans[OF _ keeps_gameOver] by auto
qed

lemma keeps_frameSteps: "frameSteps d m n g = Some g' \<Longrightarrow> keeps d g g'"
  by (induction m arbitrary: g) (auto elim!: bind_SomeE dest!: keeps_frameStep intro: keeps_trans)

lemma keeps_frame: "frame d n g = Some g' \<Longrightarrow> keeps d g g'"
  unfolding frame_def by (rule keeps_frameSteps)

section \<open>Commands and reachable games\<close>

lemma storeInv_leavePlayback: "storeInv d g \<Longrightarrow> storeInv d (leavePlayback d g)"
  by (simp add: storeInv_def leavePlayback_def Let_def)

lemma leavePlayback_best: "g_best (leavePlayback d g) = g_best g" "\<not> g_playback (leavePlayback d g)"
  by (simp_all add: leavePlayback_def Let_def)

lemma newRun_store:
  assumes "storeInv d g"
  shows "storeInv d (newRun d g)" "g_best g \<le> g_best (newRun d g)"
proof -
  let ?h = "(leavePlayback d g)\<lparr>g_tape := emptyTape (g_runDate (leavePlayback d g)), g_source := Recorder\<rparr>"
  have s: "scores ?h = scores (leavePlayback d g)" by (simp add: game_fields)
  have k: "keeps d (leavePlayback d g) ?h" by (rule keeps_scores[OF s])
  have "\<not> g_playback ?h" using leavePlayback_best(2)[of d g] by simp
  then have "keeps d (leavePlayback d g) (newRun d g)"
    unfolding newRun_def Let_def by (intro keeps_trans[OF keeps_trans[OF k keeps_storeClear] keeps_startRun])
  then show "storeInv d (newRun d g)" "g_best g \<le> g_best (newRun d g)"
    using storeInv_leavePlayback[OF assms] leavePlayback_best[of d g] by (simp_all add: keeps_def)
qed

lemma phaseCommand_store:
  assumes "storeInv d g" "\<not> g_playback g \<or> c \<in> {PauseCmd, CancelCmd} \<or> c = ConfirmCmd \<and> g_phase g = PausedPhase"
    "g_playback g \<longrightarrow> c = CancelCmd \<longrightarrow> g_phase g = PausedPhase"
  shows "storeInv d (phaseCommand d c g) \<and> g_best g \<le> g_best (phaseCommand d c g)"
proof -
  have k: "keeps d g (phaseCommand d c g)" if "phaseCommand d c g \<noteq> newRun d g"
  proof -
    have "keeps d g (saveGame d (setPhase PausedPhase g))"
      by (rule keeps_trans[OF keeps_scores keeps_saveGame]) (simp add: game_fields)
    moreover have "keeps d g (setPhase TitlePhase (storeClear (g\<lparr>g_savedRun := None\<rparr>)))" if "\<not> g_playback g"
      by (rule keeps_after[OF keeps_trans[OF keeps_scores keeps_storeClear]]) (simp_all add: game_fields that)
    ultimately show ?thesis using assms(2,3) that
      by (auto simp: phaseCommand_def keeps_confirmCard keeps_resumeSaved game_fields intro: keeps_scores
          split: Phase.splits Command.splits option.splits if_splits)
  qed
  show ?thesis
    by (cases "phaseCommand d c g = newRun d g") (use k assms(1) newRun_store[OF assms(1)] in \<open>auto simp: keeps_def\<close>)
qed

lemma storeInv_scores: "scores h = scores g \<Longrightarrow> storeInv d h = storeInv d g"
  by (simp add: scores_def storeInv_def)

lemma command_store:
  assumes "storeInv d g"
  shows "storeInv d (command d c g) \<and> g_best g \<le> g_best (command d c g)"
proof -
  define h where "h = (if c = Press SlideStart then g\<lparr>g_slideHeld := True\<rparr>
               else if c = Press SlideEnd then g\<lparr>g_slideHeld := False\<rparr> else g)"
  have h: "storeInv d h" "g_best h = g_best g"
    using assms storeInv_scores[of h g d] by (simp_all add: h_def game_fields)
  have "storeInv d (setPhase TitlePhase (leavePlayback d h))" "g_best (setPhase TitlePhase (leavePlayback d h)) = g_best h"
    using keeps_scores[of "setPhase TitlePhase (leavePlayback d h)" "leavePlayback d h" d] storeInv_leavePlayback[OF h(1)]
      leavePlayback_best[of d h] display_scores(4)[of TitlePhase "leavePlayback d h"] by (simp_all add: keeps_def scores_def)
  then show ?thesis
    unfolding command_def Let_def h_def[symmetric]
    using phaseCommand_store[OF h(1), of c] newRun_store[OF h(1)] h by (auto split: if_splits)
qed

text \<open>What the page calls: commands, animation frames, suspension, the speed buttons and a run code.\<close>

inductive act :: "'w GameDeps \<Rightarrow> 'w Game \<Rightarrow> 'w Game \<Rightarrow> bool" for d where
  act_command: "act d g (command d c g)"
| act_frame: "frame d n g = Some g' \<Longrightarrow> act d g g'"
| act_suspend: "act d g (suspend d g)"
| act_speed: "act d g (setPlaybackSpeed v g)"
| act_watch: "watch d tape g = (b, g') \<Longrightarrow> act d g g'"

inductive_cases act_cases: "act d g g'"

inductive reach :: "'w GameDeps \<Rightarrow> GameStore \<Rightarrow> 'w \<Rightarrow> 'w Game \<Rightarrow> bool" for d store w where
  reach_new: "reach d store w (newGame d store w)"
| reach_act: "reach d store w g \<Longrightarrow> act d g g' \<Longrightarrow> reach d store w g'"

lemma watch_store:
  assumes "storeInv d g" "watch d tape g = (b, g')"
  shows "storeInv d g' \<and> g_best g \<le> g_best g'"
proof (cases b)
  case True
  then have g': "g' = startRun d (g\<lparr>g_playback := True, g_runDate := tp_date tape, g_tape := tape,
      g_hasPlayer := True, g_source := Player (newTapePlayer tape)\<rparr>)" (is "_ = startRun d ?h")
    using assms(2) by (auto simp: watch_def split: if_splits)
  have "storeInv d ?h" using assms(1) by (simp add: storeInv_def)
  then show ?thesis using keeps_startRun[of d ?h] unfolding g' by (auto simp: keeps_def)
next
  case False
  then show ?thesis using assms by (auto simp: watch_def split: if_splits)
qed

lemma act_store:
  assumes "act d g g'" "storeInv d g"
  shows "storeInv d g' \<and> g_best g \<le> g_best g'"
  using assms(1)
proof cases
  case act_suspend
  have "keeps d g (suspend d g)"
    unfolding suspend_def by (rule keeps_trans[OF keeps_scores keeps_saveGame]) (simp add: game_fields)
  then show ?thesis using act_suspend assms(2) by (simp add: keeps_def)
next
  case (act_speed v)
  have "keeps d g (setPlaybackSpeed v g)"
    by (rule keeps_scores) (simp add: setPlaybackSpeed_def game_fields)
  then show ?thesis using act_speed assms(2) by (simp add: keeps_def)
next
  case (act_frame n)
  then show ?thesis using keeps_frame[of d n g g'] assms(2) by (simp add: keeps_def)
next
  case (act_watch tape b)
  then show ?thesis by (rule watch_store[OF assms(2)])
qed (simp add: command_store[OF assms(2)])

lemma newGame_storeInv:
  "(\<forall>sv. st_run store = Some sv \<longrightarrow> durableSave d sv) \<Longrightarrow> storeInv d (newGame d store w)"
  by (simp add: storeInv_def newGame_def Let_def)

lemma reach_storeInv:
  assumes "reach d store w g" "\<forall>sv. st_run store = Some sv \<longrightarrow> durableSave d sv"
  shows "storeInv d g \<and> st_best store \<le> st_best (g_store g)"
  using assms
proof (induction rule: reach.induct)
  case reach_new
  then show ?case using newGame_storeInv[of store d w] by (simp add: newGame_def Let_def)
next
  case (reach_act g g')
  then have g: "storeInv d g" "st_best store \<le> st_best (g_store g)" by auto
  have "storeInv d g'" "g_best g \<le> g_best g'" using act_store[OF reach_act.hyps(2) g(1)] by auto
  then show ?case using g by (auto simp: storeInv_def)
qed

end
