(* ===== verification/Recording.thy ===== *)
theory Recording
  imports GameSafety
begin

text \<open>
  What the runtime's bookkeeping amounts to: at every moment of live play the history is the recording
  of a segment that ends in the current state, followed by the inputs that wait for the next tick; the
  orb values kept beside it are those its orbs drew; and every state in the rewind buffer is the end of
  the recording up to its tick, so a retry can cut the history there.
\<close>

section \<open>Kept orb values\<close>

lemma orbMap_map_of: "distinct (map fst m) \<Longrightarrow> orbMap m = map_of m"
  unfolding orbMap_def by (subst map_of_inject_set) (simp_all add: rev_map[symmetric])

lemma orbMap_putKey: "distinct (map fst m) \<Longrightarrow> orbMap (putKey i v m) = (orbMap m)(i \<mapsto> v)"
  by (simp add: orbMap_map_of distinct_putKey map_of_putKey)

lemma keptValues_append: "keptValues ov (a @ b) = keptValues ov a @ keptValues ov b"
proof -
  have "orbIds (a @ b) = orbIds a @ orbIds b" by (induction a rule: orbIds.induct) auto
  then show ?thesis by (simp add: keptValues_def)
qed

lemma orbIds_pickupIds: "set (orbIds h) \<subseteq> set (pickupIds h)"
  by (induction h rule: orbIds.induct) auto

lemma orbIds_inputs: "\<forall>e \<in> set ins. isInputEvent e \<Longrightarrow> orbIds ins = []"
  using length_orbIds[of ins] orbsOf_inputs[of ins] by simp

lemma recordOrbs_distinct: "distinct (map fst m) \<Longrightarrow> distinct (map fst (recordOrbs es vs m))"
  by (induction es vs m rule: recordOrbs.induct) (auto simp: distinct_putKey)

lemma orbIds_tail: "set (orbIds es) \<subseteq> set (orbIds (e # es))"
  by (cases e) auto

lemma recordOrbs_other:
  "distinct (map fst m) \<Longrightarrow> i \<notin> set (orbIds es) \<Longrightarrow> orbMap (recordOrbs es vs m) i = orbMap m i"
  by (induction es vs m rule: recordOrbs.induct)
    (auto simp: distinct_putKey orbMap_putKey dest: subsetD[OF orbIds_tail])

lemma keptValues_cong: "\<forall>i \<in> set (orbIds h). orbMap m i = orbMap m' i \<Longrightarrow> keptValues m h = keptValues m' h"
  by (simp add: keptValues_def)

lemma recordOrbs_kept:
  "distinct (map fst m) \<Longrightarrow> distinct (pickupIds es) \<Longrightarrow> length us = orbsOf es \<Longrightarrow>
   keptValues (recordOrbs es (answersOf es us) m) es = us"
proof (induction es us arbitrary: m rule: answersOf.induct)
  case (2 t i h es v vs)
  have "i \<notin> set (orbIds es)" using 2(3) orbIds_pickupIds by auto
  then have "orbMap (recordOrbs es (answersOf es vs) (putKey i v m)) i = Some v"
    using 2(2) by (simp add: recordOrbs_other distinct_putKey orbMap_putKey)
  then show ?case using 2 by (simp add: keptValues_def distinct_putKey)
qed (simp_all add: keptValues_def)

section \<open>Recorded states\<close>

text \<open>\<open>s\<close> is where the history up to its tick leads.\<close>

abbreviation before :: "int \<Rightarrow> HistoryEvent list \<Rightarrow> HistoryEvent list" where
  "before t \<equiv> filter (\<lambda>e. ev_tick e < t)"

definition recordedState ::
  "LevelTable \<Rightarrow> StartInput \<Rightarrow> HistoryEvent list \<Rightarrow> (int \<times> rat) list \<Rightarrow> GameState \<Rightarrow> bool" where
  "recordedState L start h ov s \<longleftrightarrow>
     segment L start (before (gs_tick s) h) s (keptValues ov (before (gs_tick s) h)) \<and> gs_status s = Running"

lemma before_before: "t \<le> t' \<Longrightarrow> before t (before t' h) = before t h"
  by (induction h) auto

lemma orbIds_before:
  assumes "t \<le> t'"
  shows "set (orbIds (before t h)) \<subseteq> set (orbIds (before t' h))"
proof (induction h)
  case (Cons e h)
  then show ?case using assms orbIds_tail by (cases e) auto
qed simp

lemma orbsOf_before: "orbsOf (before t h) \<le> orbsOf h"
proof (induction h)
  case (Cons e h)
  then show ?case by (cases e) auto
qed simp

lemma before_all: "\<forall>e \<in> set h. ev_tick e < t \<Longrightarrow> before t h = h"
  by (simp add: filter_id_conv)

lemma sorted_before:
  assumes "sorted (map ev_tick h)"
  shows "before j h @ filter (\<lambda>e. j \<le> ev_tick e) h = h"
  using assms
proof (induction h)
  case (Cons e h)
  show ?case
  proof (cases "j \<le> ev_tick e")
    case True
    then have "\<forall>x \<in> set (e # h). j \<le> ev_tick x" using Cons.prems by auto
    then show ?thesis using filter_True[of "e # h" "\<lambda>e. j \<le> ev_tick e"] by (auto simp: filter_empty_conv)
  qed (use Cons in auto)
qed simp

lemma before_none: "\<forall>e \<in> set h. t \<le> ev_tick e \<Longrightarrow> before t h = []"
  by (auto simp: filter_empty_conv)

lemma recordedState_cut:
  assumes "recordedState L start h ov s" "before (gs_tick s) h' = before (gs_tick s) h"
    "\<forall>i \<in> set (orbIds (before (gs_tick s) h)). orbMap ov' i = orbMap ov i"
  shows "recordedState L start h' ov' s"
  using assms keptValues_cong[OF assms(3)] by (simp add: recordedState_def)

lemma recordedState_start: "recordedState L start [] ov (initialState start L)"
  using segment_start[of L start] by (simp add: recordedState_def keptValues_def) (simp add: initialState_def)

text \<open>One tick of live play, as the runtime records it.\<close>

lemma recordedState_tick:
  assumes s: "recordedState L start (h @ queued) ov s" "\<forall>e \<in> set h. ev_tick e < gs_tick s"
    and ins: "\<forall>e \<in> set (queued @ keys). isInputEvent e \<and> ev_tick e = gs_tick s"
    and st: "step s (map inputOf (queued @ keys)) ports L w = Some (s', evs, w')"
    and us: "ask ports (callsOf evs) w = (answersOf evs us, w')" "length us = orbsOf evs"
    and ov: "distinct (map fst ov)" "ov' = recordOrbs evs (answersOf evs us) ov"
    and ok: "gs_status s' = Running \<or> gs_status s' = LevelDone"
  shows "segment L start (h @ queued @ keys @ evs) s' (keptValues ov' (h @ queued @ keys @ evs))"
    "\<forall>i \<in> set (orbIds h). orbMap ov' i = orbMap ov i"
proof -
  have q: "before (gs_tick s) (h @ queued) = h"
    using s(2) ins before_all[of h "gs_tick s"] before_none[of queued "gs_tick s"] by simp
  have seg: "segment L start h s (keptValues ov h)" "gs_status s = Running"
    using s(1) unfolding recordedState_def q by auto
  have new: "segment L start (h @ (queued @ keys) @ evs) s' (keptValues ov h @ us)"
    by (rule segment_live[OF seg ins st us ok])
  have p: "pickupIds (queued @ keys) = []" using ins by (intro pickupIds_inputs) (auto simp: isInputEvent_outcome)
  then have dist: "distinct (pickupIds h @ pickupIds evs)"
    using collected_distinct[OF segment_collected[OF new]] by simp
  then show other: "\<forall>i \<in> set (orbIds h). orbMap ov' i = orbMap ov i"
    using orbIds_pickupIds[of h] orbIds_pickupIds[of evs] unfolding ov(2)
    by (auto intro!: recordOrbs_other[OF ov(1)])
  have "keptValues ov' evs = us" unfolding ov(2) using dist ov(1) us(2) by (intro recordOrbs_kept) auto
  moreover have "keptValues ov' (queued @ keys) = []" using ins by (simp add: keptValues_def orbIds_inputs)
  moreover have "keptValues ov' h = keptValues ov h" by (rule keptValues_cong[OF other])
  ultimately have "keptValues ov' (h @ (queued @ keys) @ evs) = keptValues ov h @ us"
    unfolding keptValues_append by simp
  then show "segment L start (h @ queued @ keys @ evs) s' (keptValues ov' (h @ queued @ keys @ evs))"
    using new by simp
qed

section \<open>The recording of a game\<close>

definition bufferRecorded ::
  "LevelTable \<Rightarrow> StartInput \<Rightarrow> HistoryEvent list \<Rightarrow> (int \<times> rat) list \<Rightarrow> int \<Rightarrow> RewindBuffer \<Rightarrow> bool" where
  "bufferRecorded L start h ov t b \<longleftrightarrow> bufferInv b \<and> allStates b \<noteq> [] \<and> ascending (allStates b) \<and>
     (\<forall>s \<in> set (allStates b). gs_tick s \<le> t \<and> recordedState L start h ov s)"

definition recording :: "'w GameDeps \<Rightarrow> 'w Game \<Rightarrow> bool" where
  "recording d g \<longleftrightarrow>
     recordedState (dp_levels d) (g_start g) (g_history g) (g_orbValues g) (g_state g) \<and>
     distinct (map fst (g_orbValues g)) \<and>
     g_history g = before (gs_tick (g_state g)) (g_history g) @ g_queued g \<and>
     (\<forall>e \<in> set (g_queued g). isInputEvent e \<and> ev_tick e = gs_tick (g_state g)) \<and>
     bufferRecorded (dp_levels d) (g_start g) (g_history g) (g_orbValues g) (gs_tick (g_state g)) (g_rewind g)"

definition track where
  "track g = (g_start g, g_history g, g_orbValues g, g_state g, g_queued g, g_rewind g)"

lemma recording_track: "track g = track h \<Longrightarrow> recording d g = recording d h"
  by (simp add: track_def recording_def)

lemma drawn_track: "drawn g g' \<Longrightarrow> track g' = track g"
  by (simp add: track_def drawn_fields)

named_theorems track_fields \<open>the methods that leave the recording alone\<close>

lemmas chaos_track [track_fields] = scheduleNext_drawn[THEN drawn_track] chaosStart_drawn[THEN drawn_track]
  onPickup_drawn[THEN drawn_track]

lemma track_update [track_fields]:
  "track (g\<lparr>g_phase := a1\<rparr>) = track g" "track (g\<lparr>g_stats := a2\<rparr>) = track g" "track (g\<lparr>g_divergedAt := a3\<rparr>) = track g"
  "track (g\<lparr>g_prevState := a4\<rparr>) = track g" "track (g\<lparr>g_notice := a5\<rparr>) = track g" "track (g\<lparr>g_pending := a6\<rparr>) = track g"
  "track (g\<lparr>g_segments := a7\<rparr>) = track g" "track (g\<lparr>g_montage := a8\<rparr>) = track g" "track (g\<lparr>g_crashTick := a9\<rparr>) = track g"
  "track (g\<lparr>g_version := b1\<rparr>) = track g" "track (g\<lparr>g_store := b2\<rparr>) = track g" "track (g\<lparr>g_replayer := b3\<rparr>) = track g"
  "track (g\<lparr>g_tape := b4\<rparr>) = track g" "track (g\<lparr>g_liveTick := b5\<rparr>) = track g" "track (g\<lparr>g_inputCursor := b6\<rparr>) = track g"
  by (simp_all add: track_def)

lemma display_track [track_fields]:
  "track (touch g) = track g" "track (setNotice text g) = track g" "track (syncSlide g) = track g"
  "track (setPhase p g) = track g" "track (closeSegment d t g) = track g" "track (saveGame d g) = track g"
  "track (crash d g) = track g"
  by (simp_all add: touch_def setNotice_def syncSlide_def setPhase_def closeSegment_def saveGame_def crash_def
      Let_def track_fields)

lemma beginSegment_track:
  "track (beginSegment d start tip g) = (start, [], [], initialState start (dp_levels d), [],
     reset (initialState start (dp_levels d)) (g_rewind g))"
  unfolding beginSegment_def Let_def by (simp add: track_fields) (simp add: track_def)

lemma initialState_tick: "gs_tick (initialState start L) = 0" "gs_status (initialState start L) = Running"
  by (simp_all add: initialState_def)

lemma recording_beginSegment: "recording d (beginSegment d start tip g)"
proof -
  let ?g = "beginSegment d start tip g"
  have t: "g_start ?g = start" "g_history ?g = []" "g_orbValues ?g = []" "g_state ?g = initialState start (dp_levels d)"
    "g_queued ?g = []" "g_rewind ?g = reset (initialState start (dp_levels d)) (g_rewind g)"
    using beginSegment_track[of d start tip g] by (simp_all add: track_def)
  have "bufferRecorded (dp_levels d) start [] [] 0 (reset (initialState start (dp_levels d)) b)" for b
    using rw.inv_start rw.entries_start
    by (simp add: bufferRecorded_def recordedState_start initialState_tick)
  then show ?thesis by (simp add: recording_def t recordedState_start initialState_tick)
qed

lemma bufferRecorded_cut:
  assumes "bufferRecorded L start h ov t b" "before t h' = before t h"
    "\<forall>i \<in> set (orbIds (before t h)). orbMap ov' i = orbMap ov i" "t \<le> t'"
  shows "bufferRecorded L start h' ov' t' b"
proof -
  have "recordedState L start h' ov' s" if s: "s \<in> set (allStates b)" for s
  proof (rule recordedState_cut)
    show "recordedState L start h ov s" using assms(1) s by (simp add: bufferRecorded_def)
    have le: "gs_tick s \<le> t" using assms(1) s by (simp add: bufferRecorded_def)
    then show "before (gs_tick s) h' = before (gs_tick s) h" using assms(2) before_before[OF le] by metis
    have "set (orbIds (before (gs_tick s) h)) \<subseteq> set (orbIds (before t h))" using orbIds_before[OF le] .
    then show "\<forall>i \<in> set (orbIds (before (gs_tick s) h)). orbMap ov' i = orbMap ov i" using assms(3) by blast
  qed
  then show ?thesis using assms(1,4) by (auto simp: bufferRecorded_def)
qed

lemma recording_recordInput:
  assumes "recording d g" "isInputEvent e" "ev_tick e = gs_tick (g_state g)"
  shows "recording d (recordInput e g)"
proof -
  let ?t = "gs_tick (g_state g)"
  have b: "before ?t (g_history g @ [e]) = before ?t (g_history g)" using assms(3) by simp
  have "recordedState (dp_levels d) (g_start g) (g_history g @ [e]) (g_orbValues g) (g_state g)"
    using assms(1) by (intro recordedState_cut[of _ _ "g_history g" "g_orbValues g", OF _ b]) (simp_all add: recording_def)
  moreover have "bufferRecorded (dp_levels d) (g_start g) (g_history g @ [e]) (g_orbValues g) ?t (g_rewind g)"
    using assms(1) by (intro bufferRecorded_cut[of _ _ "g_history g" "g_orbValues g" ?t, OF _ b]) (simp_all add: recording_def)
  moreover have "g_history g @ [e] = before ?t (g_history g @ [e]) @ g_queued g @ [e]"
    using assms(1) unfolding b recording_def by (metis append.assoc)
  ultimately show ?thesis using assms by (simp add: recording_def recordInput_def)
qed

section \<open>Closed segments\<close>

text \<open>The segments kept for the montage, and those a running montage shows, are recordings.\<close>

definition clips where
  "clips g = (g_segments g, g_montage g)"

definition played :: "'w GameDeps \<Rightarrow> 'w Game \<Rightarrow> bool" where
  "played d g \<longleftrightarrow> (\<forall>seg \<in> set (g_segments g). \<exists>s. playedSegment (dp_levels d) seg s) \<and>
     (\<forall>m. g_montage g = Some m \<longrightarrow> (\<forall>seg \<in> set (mo_segments m). \<exists>s. playedSegment (dp_levels d) seg s))"

lemma played_clips: "clips g = clips h \<Longrightarrow> played d g = played d h"
  by (simp add: clips_def played_def)

lemma drawn_clips: "drawn g g' \<Longrightarrow> clips g' = clips g"
  by (simp add: clips_def drawn_fields)

named_theorems clip_fields \<open>the methods that leave the closed segments alone\<close>

lemmas chaos_clips [clip_fields] = scheduleNext_drawn[THEN drawn_clips] chaosStart_drawn[THEN drawn_clips]
  onPickup_drawn[THEN drawn_clips]

lemma clips_update [clip_fields]:
  "clips (g\<lparr>g_phase := a1\<rparr>) = clips g" "clips (g\<lparr>g_stats := a2\<rparr>) = clips g" "clips (g\<lparr>g_divergedAt := a3\<rparr>) = clips g"
  "clips (g\<lparr>g_prevState := a4\<rparr>) = clips g" "clips (g\<lparr>g_notice := a5\<rparr>) = clips g" "clips (g\<lparr>g_pending := a6\<rparr>) = clips g"
  "clips (g\<lparr>g_start := a7\<rparr>) = clips g" "clips (g\<lparr>g_history := a8\<rparr>) = clips g" "clips (g\<lparr>g_crashTick := a9\<rparr>) = clips g"
  "clips (g\<lparr>g_version := b1\<rparr>) = clips g" "clips (g\<lparr>g_store := b2\<rparr>) = clips g" "clips (g\<lparr>g_state := b3\<rparr>) = clips g"
  "clips (g\<lparr>g_tape := b4\<rparr>) = clips g" "clips (g\<lparr>g_liveTick := b5\<rparr>) = clips g" "clips (g\<lparr>g_inputCursor := b6\<rparr>) = clips g"
  "clips (g\<lparr>g_best := c1\<rparr>) = clips g" "clips (g\<lparr>g_dailyBest := c2\<rparr>) = clips g"
  "clips (g\<lparr>g_orbValues := b7\<rparr>) = clips g" "clips (g\<lparr>g_queued := b8\<rparr>) = clips g" "clips (g\<lparr>g_rewind := b9\<rparr>) = clips g"
  by (simp_all add: clips_def)

lemma display_clips [clip_fields]:
  "clips (touch g) = clips g" "clips (setNotice text g) = clips g" "clips (syncSlide g) = clips g"
  "clips (setPhase p g) = clips g" "clips (saveGame d g) = clips g" "clips (recordInput e g) = clips g"
  "clips (crash d g) = clips g" "clips (beginSegment d start tip g) = clips g"
  unfolding touch_def setNotice_def syncSlide_def setPhase_def saveGame_def crash_def recordInput_def beginSegment_def
    Let_def by (simp_all add: clip_fields)

lemma retry_clips: "retry d hit g = Some g' \<Longrightarrow> clips g' = clips g"
  by (auto simp: retry_def Let_def clip_fields elim!: bind_SomeE)

lemma handleEvents_clips [clip_fields]: "clips (foldl (\<lambda>g e. handleEvent d s e g) g es) = clips g"
proof (induction es arbitrary: g)
  case (Cons e es)
  then show ?case by (cases e) (simp_all add: handleEvent.simps Let_def clip_fields)
qed simp

lemma takeInputs_clips: "takeInputs g = (ks, g') \<Longrightarrow> clips g' = clips g"
  by (auto simp: takeInputs_def Let_def clip_fields split: if_splits)

lemma gameOver_clips: "clips (gameOver d r g) = clips g"
  by (simp add: gameOver_def storeClear_def Let_def clip_fields)

lemma closeSegment_played:
  assumes "played d g" "segment (dp_levels d) (g_start g) (g_history g) s (keptValues (g_orbValues g) (g_history g))"
    "t = gs_tick s"
  shows "played d (closeSegment d t g)"
proof -
  have "playedSegment (dp_levels d) \<lparr>ms_start = g_start g, ms_history = g_history g, ms_endTick = t,
      ms_orbValues = g_orbValues g\<rparr> s"
    using assms(2,3) unfolding playedSegment_def orbQueue_kept
    by (intro conjI exI[of _ "g_history g"] exI[of _ "[]"]) simp_all
  then show ?thesis using assms(1) by (auto simp: closeSegment_def played_def Let_def)
qed

lemma hotfix_played:
  assumes "played d g" "segment (dp_levels d) (g_start g) (g_history g) (g_state g) (keptValues (g_orbValues g) (g_history g))"
  shows "played d (hotfix d g)"
proof -
  have "played d (g\<lparr>g_divergedAt := None\<rparr>)" using assms(1) by (simp add: played_def)
  then have "played d (closeSegment d (gs_tick (g_state g)) (g\<lparr>g_divergedAt := None\<rparr>))"
    using assms(2) by (intro closeSegment_played[of _ _ "g_state g"]) simp_all
  moreover have "clips (hotfix d g) = clips (closeSegment d (gs_tick (g_state g)) (g\<lparr>g_divergedAt := None\<rparr>))"
    unfolding hotfix_def Let_def by (simp add: clip_fields)
  ultimately show ?thesis using played_clips by blast
qed

lemma finishLevel_played:
  assumes "played d g" "segment (dp_levels d) (g_start g) (g_history g) s (keptValues (g_orbValues g) (g_history g))"
  shows "played d (finishLevel d s g)"
proof -
  define g1 where "g1 = closeSegment d (gs_tick s) (g\<lparr>g_divergedAt := None\<rparr>)"
  have "played d (g\<lparr>g_divergedAt := None\<rparr>)" using assms(1) by (simp add: played_def)
  then have g1: "played d g1" unfolding g1_def using assms(2) by (intro closeSegment_played[of _ _ s]) simp_all
  then have none: "played d (g1\<lparr>g_segments := []\<rparr>)" by (simp add: played_def)
  have b: "clips (beginSegment d start True (g1\<lparr>g_segments := []\<rparr>)) = clips (g1\<lparr>g_segments := []\<rparr>)" for start
    by (simp add: clip_fields)
  show ?thesis
  proof (cases "newMontage (dp_levels d) (if lc_durable (dp_levels d (gs_level s)) then g_segments g1 else [])")
    case None
    then show ?thesis using played_clips[OF b] none by (simp add: finishLevel_def g1_def[symmetric] Let_def)
  next
    case (Some m)
    have "set (mo_segments m) \<subseteq> set (g_segments g1)"
      using Some by (auto simp: newMontage_def Let_def openSegment_def split: list.splits if_splits)
    moreover have "g_segments (beginSegment d start True (g1\<lparr>g_segments := []\<rparr>)) = []" for start
      using b[of start] by (simp add: clips_def)
    then have "clips (finishLevel d s g) = ([], Some m)"
      using Some by (simp add: finishLevel_def g1_def[symmetric] Let_def clip_fields) (simp add: clips_def)
    ultimately show ?thesis using g1 by (auto simp: played_def clips_def)
  qed
qed

section \<open>A retry\<close>

lemma dropAfter_states:
  assumes "ascending (allStates b)" "s \<in> set (allStates b)"
  shows "allStates (dropAfter (gs_tick s) b) = filter (\<lambda>u. gs_tick u \<le> gs_tick s) (allStates b)"
  using assms by (cases "rb_wrapped b"; cases "rb_anchor b") (auto simp: allStates_def dropAfter_def)

lemma bufferRecorded_dropAfter:
  assumes "bufferRecorded L start h ov t b" "s \<in> set (allStates b)"
  shows "bufferRecorded L start h ov (gs_tick s) (dropAfter (gs_tick s) b)"
proof -
  have "ascending (allStates b)" using assms(1) by (simp add: bufferRecorded_def)
  note a = dropAfter_states[OF this assms(2)]
  have "length (filter (\<lambda>u. gs_tick u \<le> gs_tick s) (rb_ring b)) \<le> length (rb_ring b)" by simp
  then have "bufferInv (dropAfter (gs_tick s) b)"
    using assms(1) by (simp add: bufferRecorded_def bufferInv_def dropAfter_def del: length_filter_le)
  then show ?thesis using assms unfolding bufferRecorded_def a
    by (auto simp: sorted_wrt_filter filter_empty_conv)
qed

lemma retry_recording:
  assumes b: "bufferRecorded (dp_levels d) (g_start g) (g_history g) (g_orbValues g) t (g_rewind g)"
    and ov: "distinct (map fst (g_orbValues g))"
  obtains g' where "retry d hit g = Some g'" "recording d g'" "g_state g' \<in> set (allStates (g_rewind g))"
proof -
  obtain target where p: "pick (gs_failedAt hit) (mathCeil (fdiv REWIND_PX (speedAt (dp_levels d (gs_level hit)) (gs_elapsed hit))))
      (case lastRetryTick (g_history g) of Some t \<Rightarrow> t + 1 | None \<Rightarrow> 0) (g_rewind g) = Some target"
    using b pick_None by (fastforce simp: bufferRecorded_def)
  let ?t = "gs_tick target"
  have tin: "target \<in> set (allStates (g_rewind g))" by (rule pick_in[OF p])
  then have rs: "recordedState (dp_levels d) (g_start g) (g_history g) (g_orbValues g) target"
    using b by (simp add: bufferRecorded_def)
  define g1 where "g1 = g\<lparr>g_history := before ?t (g_history g), g_rewind := dropAfter ?t (g_rewind g),
      g_state := target, g_prevState := None, g_pending := [], g_queued := [],
      g_stats := (g_stats g)\<lparr>rs_retriesUsed := rs_retriesUsed (g_stats g) + 1\<rparr>\<rparr>"
  define e where "e = RetryAttempt ?t (lc_retries (dp_levels d (gs_level hit)) - gs_retries target + 1) (gs_failedAt hit)"
  have bb: "before ?t (before ?t (g_history g)) = before ?t (g_history g)" by (simp add: before_before)
  have "recordedState (dp_levels d) (g_start g) (before ?t (g_history g)) (g_orbValues g) target"
    by (rule recordedState_cut[OF rs bb]) simp
  moreover have "bufferRecorded (dp_levels d) (g_start g) (before ?t (g_history g)) (g_orbValues g) ?t (dropAfter ?t (g_rewind g))"
    by (rule bufferRecorded_cut[OF bufferRecorded_dropAfter[OF b tin] bb]) simp_all
  ultimately have "recording d g1" using ov by (simp add: recording_def g1_def)
  then have r: "recording d (recordInput e g1)"
    by (rule recording_recordInput) (simp_all add: e_def isInputEvent_def g1_def)
  obtain g2 where g2: "retry d hit g = Some g2" "track g2 = track (recordInput e g1)"
    unfolding retry_def Let_def p bind.simps
    by (simp add: g1_def[symmetric] e_def[symmetric] track_fields split: if_split)
  have "g_state g2 = target" using g2(2) by (simp add: track_def recordInput_def g1_def)
  then show ?thesis using that[OF g2(1)] recording_track[OF g2(2)] r tin by blast
qed

section \<open>A live tick\<close>

lemma handleEvent_track:
  "track (handleEvent d s e g) = track (g\<lparr>g_history := g_history g @ [e]\<rparr>)"
  by (cases e) (simp_all add: handleEvent.simps Let_def track_fields)

lemma handleEvents_track:
  "track (foldl (\<lambda>g e. handleEvent d s e g) g es) = track (g\<lparr>g_history := g_history g @ es\<rparr>)"
proof (induction es arbitrary: g)
  case (Cons e es)
  show ?case using Cons.IH[of "handleEvent d s e g"] handleEvent_track[of d s e g] by (simp add: track_def)
qed (simp add: track_def)

lemma takeInputs_track:
  assumes "takeInputs g = (ks, g')"
  shows "track g' = track g"
  using assms by (auto simp: takeInputs_def Let_def track_fields split: if_splits)

lemma bufferRecorded_push:
  assumes "bufferRecorded L start h ov t b" "t < gs_tick s" "recordedState L start h ov s"
  shows "bufferRecorded L start h ov (gs_tick s) (push s b)"
proof -
  have inv: "bufferInv b" using assms(1) by (simp add: bufferRecorded_def)
  obtain k where k: "allStates (push s b) = drop k (allStates b) @ [s]" using allStates_push[OF inv, of s] by blast
  have "\<forall>u \<in> set (drop k (allStates b)). gs_tick u \<le> t \<and> recordedState L start h ov u"
    using assms(1) set_drop_subset[of k "allStates b"] by (auto simp: bufferRecorded_def)
  moreover have "ascending (drop k (allStates b))" using assms(1) by (simp add: bufferRecorded_def sorted_wrt_drop)
  ultimately show ?thesis
    using assms(2,3) push_inv[OF inv, of s] by (fastforce simp: bufferRecorded_def k sorted_wrt_append)
qed

lemma recording_finishLevel: "recording d (finishLevel d s g)"
  unfolding finishLevel_def Let_def
  using recording_track[of "setPhase p (beginSegment d a b c\<lparr>g_montage := m\<rparr>)" "beginSegment d a b c" d for p a b c m]
  by (auto split: option.split simp: recording_beginSegment track_fields)

lemma recording_hotfix: "recording d (hotfix d g)"
  unfolding hotfix_def Let_def
  using recording_track[of "setNotice p (beginSegment d a b c)" "beginSegment d a b c" d for p a b c]
  by (simp add: recording_beginSegment track_fields)

text \<open>
  The tick after its step: \<open>g\<close> already holds the inputs of the tick in its history, \<open>us\<close> are the values
  the orbs drew.
\<close>

lemma afterStep_recording:
  assumes h: "g_history g = h @ queued @ keys" "\<forall>e \<in> set h. ev_tick e < gs_tick s"
    and q: "g_queued g = []" "\<forall>e \<in> set (queued @ keys). isInputEvent e \<and> ev_tick e = gs_tick s"
    and s: "recordedState (dp_levels d) (g_start g) (h @ queued) (g_orbValues g) s" "distinct (map fst (g_orbValues g))"
    and b: "bufferRecorded (dp_levels d) (g_start g) (h @ queued) (g_orbValues g) (gs_tick s) (g_rewind g)"
    and st: "step s (map inputOf (queued @ keys)) ports (dp_levels d) w = Some (s', evs, w')"
      "ask ports (callsOf evs) w = (answersOf evs us, w')" "length us = orbsOf evs"
  shows "\<exists>g'. afterStep d s' evs inputs (answersOf evs us) g = Some g' \<and> (recording d g' \<or> isOver (g_phase g')) \<and>
    (played d g \<longrightarrow> played d g')"
proof (cases "gs_status s' = NeedsRetry")
  case True
  have bq: "before (gs_tick s) (h @ queued @ keys) = h" "before (gs_tick s) (h @ queued) = h"
    using h(2) q(2) before_all[of h "gs_tick s"] before_none[of queued "gs_tick s"] before_none[of keys "gs_tick s"] by simp_all
  have "bufferRecorded (dp_levels d) (g_start g) (g_history g) (g_orbValues g) (gs_tick s) (g_rewind g)"
    unfolding h(1) using bq by (intro bufferRecorded_cut[OF b]) simp_all
  from retry_recording[OF this s(2)] obtain g' where "retry d s' g = Some g'" "recording d g'" by metis
  then show ?thesis using True played_clips[OF retry_clips, of d s' g g' d] by (simp add: afterStep_def)
next
  case False
  define ov where "ov = recordOrbs evs (answersOf evs us) (g_orbValues g)"
  define g1 where "g1 = foldl (\<lambda>g e. handleEvent d s' e g) (g\<lparr>g_state := s', g_orbValues := ov\<rparr>) evs"
  define g2 where "g2 = g1\<lparr>g_rewind := push s' (g_rewind g1)\<rparr>"
  have t1: "g_start g1 = g_start g" "g_history g1 = h @ queued @ keys @ evs" "g_orbValues g1 = ov" "g_state g1 = s'"
    "g_queued g1 = []" "g_rewind g1 = g_rewind g"
    using handleEvents_track[of d s' "g\<lparr>g_state := s', g_orbValues := ov\<rparr>" evs] h(1) q(1)
    by (simp_all add: track_def g1_def)
  have seg: "segment (dp_levels d) (g_start g) (h @ queued @ keys @ evs) s' (keptValues ov (h @ queued @ keys @ evs))"
      "\<forall>i \<in> set (orbIds h). orbMap ov i = orbMap (g_orbValues g) i" if "gs_status s' = Running \<or> gs_status s' = LevelDone"
    using recordedState_tick[OF s(1) h(2) q(2) st s(2) ov_def that] by simp_all
  have run: "recording d g2" if r: "gs_status s' = Running"
  proof -
    note seg = seg[OF disjI1[OF r]]
    have all: "before (gs_tick s') (h @ queued @ keys @ evs) = h @ queued @ keys @ evs"
      using segment_ticks[OF seg(1)] by (intro before_all) auto
    have bq: "before (gs_tick s) (h @ queued) = h"
      using h(2) q(2) before_all[of h "gs_tick s"] before_none[of queued "gs_tick s"] by simp
    have run: "gs_status s = Running" using s(1) by (simp add: recordedState_def)
    have tk: "gs_tick s' = gs_tick s + 1" "\<forall>e \<in> set evs. ev_tick e = gs_tick s"
      using step_explained[OF st(1) run] by metis+
    have rs: "recordedState (dp_levels d) (g_start g) (h @ queued @ keys @ evs) ov s'"
      using seg(1) r by (simp only: recordedState_def all simp_thms)
    have "before (gs_tick s) (h @ queued @ keys @ evs) = h"
      using h(2) q(2) tk(2) before_all[of h "gs_tick s"] before_none[of queued "gs_tick s"]
        before_none[of keys "gs_tick s"] before_none[of evs "gs_tick s"] by simp
    then have "bufferRecorded (dp_levels d) (g_start g) (h @ queued @ keys @ evs) ov (gs_tick s) (g_rewind g)"
      using seg(2) bq by (intro bufferRecorded_cut[OF b]) simp_all
    from bufferRecorded_push[OF this _ rs] tk(1)
    have "bufferRecorded (dp_levels d) (g_start g) (h @ queued @ keys @ evs) ov (gs_tick s') (push s' (g_rewind g))" by simp
    then show ?thesis
      using rs all recordOrbs_distinct[OF s(2), of evs "answersOf evs us"]
      by (simp add: recording_def g2_def t1 ov_def[symmetric])
  qed
  have t2: "recording d k = recording d g2" if "k \<in> {crash d g2, touch g2, touch (saveGame d g2), saveGame d g2}" for k
    using that by (intro recording_track) (auto simp: track_fields)
  have over: "isOver (g_phase (gameOver d r g))" for r g
    by (simp add: gameOver_def Let_def setPhase_def touch_def isOver_def)
  have "\<exists>g'. afterStep d s' evs inputs (answersOf evs us) g = Some g' \<and>
      (gs_status s' = Failed \<and> g' = gameOver d (failReason s' (g_divergedAt g1)) g1 \<or>
       gs_status s' = LevelDone \<and> g' = finishLevel d s' g1 \<or>
       gs_status s' = Running \<and> g' \<in> {hotfix d g2, g2, crash d g2, touch g2, touch (saveGame d g2), saveGame d g2})"
    using False unfolding afterStep_def ov_def[symmetric] g1_def[symmetric] g2_def Let_def
    by (cases "gs_status s'") auto
  then obtain g' where g': "afterStep d s' evs inputs (answersOf evs us) g = Some g'"
      "gs_status s' = Failed \<and> g' = gameOver d (failReason s' (g_divergedAt g1)) g1 \<or>
       gs_status s' = LevelDone \<and> g' = finishLevel d s' g1 \<or>
       gs_status s' = Running \<and> g' \<in> {hotfix d g2, g2, crash d g2, touch g2, touch (saveGame d g2), saveGame d g2}"
    by blast
  have "recording d g' \<or> isOver (g_phase g')"
    using g'(2) over recording_finishLevel recording_hotfix run t2 by (metis insert_iff empty_iff)
  moreover have "played d g'" if "played d g"
  proof -
    have p: "played d g1" "played d g2"
      using that played_clips[of g1 g d] played_clips[of g2 g d] by (simp_all add: g1_def g2_def clip_fields)
    have "g' = gameOver d r g1 \<Longrightarrow> played d g'" for r using played_clips[OF gameOver_clips[of d r g1], of d] p(1) by simp
    moreover have "gs_status s' = LevelDone \<Longrightarrow> played d (finishLevel d s' g1)"
      using finishLevel_played[OF p(1), of s'] seg t1 by simp
    moreover have "gs_status s' = Running \<Longrightarrow> played d (hotfix d g2)"
      using hotfix_played[OF p(2)] seg t1 by (simp add: g2_def)
    moreover have "played d g'" if "g' \<in> {g2, crash d g2, touch g2, touch (saveGame d g2), saveGame d g2}"
      using that p(2) played_clips[of g' g2 d] by (auto simp: clip_fields)
    ultimately show ?thesis using g'(2) by blast
  qed
  ultimately show ?thesis using g'(1) by blast
qed

lemma tick_recording:
  assumes "recording d g" "\<And>inputs w. \<exists>r. step (g_state g) inputs (livePorts d) (dp_levels d) w = Some r"
  shows "\<exists>g'. tick d g = Some g' \<and> (recording d g' \<or> isOver (g_phase g')) \<and> (played d g \<longrightarrow> played d g')"
proof -
  let ?s = "g_state g" and ?L = "dp_levels d"
  obtain ks g1 where 1: "takeInputs (g\<lparr>g_queued := []\<rparr>) = (ks, g1)" by force
  define keys where "keys = map (Input (gs_tick ?s)) ks"
  define g2 where "g2 = g1\<lparr>g_history := g_history g1 @ keys, g_prevState := Some ?s\<rparr>"
  have t2: "g_start g2 = g_start g" "g_history g2 = g_history g @ keys" "g_orbValues g2 = g_orbValues g" "g_state g2 = ?s"
    "g_queued g2 = []" "g_rewind g2 = g_rewind g"
    using takeInputs_track[OF 1] by (simp_all add: track_def g2_def)
  have t1: "g_state g1 = ?s" using takeInputs_track[OF 1] by (simp add: track_def)
  have inp: "map inputOf (g_queued g) @ map Key ks = map inputOf (g_queued g @ keys)" by (simp add: keys_def)
  obtain s' evs g3 calls where st: "step ?s (map inputOf (g_queued g @ keys)) (livePorts d) ?L (g2, []) = Some (s', evs, g3, calls)"
    using assms(2)[of "map inputOf (g_queued g @ keys)" "(g2, [])"] by (metis prod_cases4)
  have run: "gs_status ?s = Running" using assms(1) by (simp add: recording_def recordedState_def)
  obtain us where us: "length us = orbsOf evs" "ask (livePorts d) (callsOf evs) (g2, []) = (answersOf evs us, g3, calls)"
    using step_explained[OF st run] by metis
  have t3: "track g3 = track g2" "calls = answersOf evs us" using ask_drawn[OF us(2)] drawn_track by auto
  have r: "recordedState ?L (g_start g) (g_history g) (g_orbValues g) ?s" "distinct (map fst (g_orbValues g))"
    "g_history g = before (gs_tick ?s) (g_history g) @ g_queued g"
    "\<forall>e \<in> set (g_queued g). isInputEvent e \<and> ev_tick e = gs_tick ?s"
    "bufferRecorded ?L (g_start g) (g_history g) (g_orbValues g) (gs_tick ?s) (g_rewind g)"
    using assms(1) by (auto simp: recording_def)
  have "\<exists>g'. afterStep d s' evs inputs (answersOf evs us) g3 = Some g' \<and> (recording d g' \<or> isOver (g_phase g')) \<and>
      (played d g3 \<longrightarrow> played d g')" for inputs
  proof (rule afterStep_recording[OF _ _ _ _ _ _ _ st us(2,1)])
    show "g_history g3 = before (gs_tick ?s) (g_history g) @ g_queued g @ keys"
      using t2 t3 r(3) by (simp add: track_def)
    show "\<forall>e \<in> set (g_queued g @ keys). isInputEvent e \<and> ev_tick e = gs_tick ?s"
      using r(4) by (auto simp: keys_def isInputEvent_def)
  qed (use t2 t3 r in \<open>simp_all add: track_def flip: r(3)\<close>)
  then obtain g' where "afterStep d s' evs (map inputOf (g_queued g @ keys)) (answersOf evs us) g3 = Some g'"
    "recording d g' \<or> isOver (g_phase g')" "played d g3 \<longrightarrow> played d g'" by blast
  moreover have "played d g3 = played d g"
  proof (rule played_clips)
    have "clips g3 = clips g2" using drawn_clips ask_drawn[OF us(2)] by blast
    then show "clips g3 = clips g" using takeInputs_clips[OF 1] by (simp add: g2_def clip_fields)
  qed
  moreover have "tick d g = afterStep d s' evs (map inputOf (g_queued g @ keys)) calls g3"
    using st t1 unfolding tick_def Let_def 1 by (simp add: keys_def[symmetric] g2_def[symmetric] inp)
  ultimately show ?thesis using t3(2) by auto
qed

lemma recording_replays:
  assumes "recording d g"
    "draws imp (orbsOf (g_history g)) w = (keptValues (g_orbValues g) (g_history g), w')"
  shows "replay (g_start g) (g_history g) (gs_tick (g_state g)) imp (dp_levels d) w = Some (ReplayOk (g_state g), w')"
proof -
  let ?h = "before (gs_tick (g_state g)) (g_history g)"
  have r: "segment (dp_levels d) (g_start g) ?h (g_state g) (keptValues (g_orbValues g) ?h)"
    "g_history g = ?h @ g_queued g" "\<forall>e \<in> set (g_queued g). isInputEvent e \<and> gs_tick (g_state g) \<le> ev_tick e"
    using assms(1) by (auto simp: recording_def recordedState_def)
  have "orbsOf (?h @ g_queued g) = orbsOf ?h" "keptValues (g_orbValues g) (?h @ g_queued g) = keptValues (g_orbValues g) ?h"
    using r(3) by (simp_all add: orbsOf_inputs keptValues_append) (simp add: keptValues_def orbIds_inputs)
  then have "draws imp (orbsOf ?h) w = (keptValues (g_orbValues g) ?h, w')" using assms(2) r(2) by metis
  from replay_segment[OF r(1,3) this] r(2) show ?thesis by metis
qed

section \<open>Crash recovery\<close>

text \<open>The states a recorded segment passed through.\<close>

lemma segment_prefix:
  assumes "segment L start h s vs" "0 \<le> k" "k \<le> gs_tick s"
  shows "\<exists>u. segment L start (before k h) u (take (orbsOf (before k h)) vs) \<and> gs_tick u = k \<and>
    (k < gs_tick s \<longrightarrow> gs_status u = Running) \<and> (k = gs_tick s \<longrightarrow> u = s)"
  using assms
proof (induction arbitrary: k rule: segment.induct)
  case segment_start
  then show ?case using segment.segment_start[of L start] by (auto simp: initialState_tick)
next
  case (segment_tick h s vs ins evs us s')
  have s': "segment L start (h @ ins @ evs) s' (vs @ us)"
    using segment.segment_tick[OF segment_tick.hyps(1-6)] .
  have tk: "gs_tick s' = gs_tick s + 1" "\<forall>e \<in> set evs. ev_tick e = gs_tick s"
    using step_explained[OF segment_tick.hyps(4,2)] by metis+
  show ?case
  proof (cases "k = gs_tick s'")
    case True
    have "before k (h @ ins @ evs) = h @ ins @ evs" using segment_ticks[OF s'] True by (intro before_all) auto
    then show ?thesis using s' True segment_orbs[OF s'] by (intro exI[of _ s']) simp
  next
    case False
    then have k: "k \<le> gs_tick s" using tk segment_tick.prems by simp
    have b: "before k (h @ ins @ evs) = before k h"
      using segment_tick.hyps(3) tk(2) k before_none[of ins k] before_none[of evs k] by simp
    have "orbsOf (before k h) \<le> length vs"
      using orbsOf_before[of k h] segment_orbs[OF segment_tick.hyps(1)] by simp
    then show ?thesis using segment_tick.IH[OF segment_tick.prems(1) k] segment_tick.hyps(2) k tk False
      unfolding b by auto
  qed
qed

definition replayedTo :: "StartInput \<Rightarrow> HistoryEvent list \<Rightarrow> int \<Rightarrow> GameState \<Rightarrow> int \<Rightarrow> Replayer" where
  "replayedTo start h t u k = \<lparr>rp_state = u, rp_cursor = length (before k h), rp_divergedAt = None, rp_done = (t \<le> k)\<rparr>"

lemma replayedTo_next:
  assumes u: "segment L start (before k h) u []" "gs_tick u = k" "gs_status u = Running"
    and v: "segment L start (before (k + 1) h) v []" "gs_tick v = k + 1" "gs_status v = Running"
    and h: "sorted (map ev_tick h)" "distinct (pickupIds h)" and t: "k < t"
  shows "advance 1 h t imp L (replayedTo start h t u k, w) = Some (replayedTo start h t v (k + 1), w)"
proof -
  have split: "before j h @ filter (\<lambda>e. j \<le> ev_tick e) h = h" for j
    by (rule sorted_before[OF h(1)])
  have reach: "advance (nat j) h t imp L (createReplayer start t L, w) = Some (replayedTo start h t x j, w)"
    if x: "segment L start (before j h) x []" "gs_tick x = j" "gs_status x = Running" "j \<le> t" for x j
  proof -
    have "draws imp (orbsOf (before j h)) w = ([], w)" using segment_orbs[OF x(1)] by simp
    from advance_segment[OF x(1), of "filter (\<lambda>e. j \<le> ev_tick e) h" t, OF _ _ _ this] x h(2) split[of j]
    show ?thesis by (simp add: replayedTo_def)
  qed
  have "0 \<le> k" using segment_ticks[OF u(1)] u(2) by simp
  then have n: "nat (k + 1) = nat k + 1" by simp
  show ?thesis
    using reach[OF v] reach[OF u] t unfolding n advance_add by simp
qed

lemma segment_zero:
  assumes "segment L start h s vs" "gs_tick s = 0"
  shows "s = initialState start L" "h = []"
proof -
  have "s = initialState start L \<and> h = []" using assms(1)
  proof cases
    case (segment_tick h s0 vs ins evs us)
    have "gs_tick s = gs_tick s0 + 1" by (rule step_explained[OF segment_tick(6,4)])
    then show ?thesis using assms(2) segment_ticks[OF segment_tick(3)] by simp
  qed simp
  then show "s = initialState start L" "h = []" by auto
qed

text \<open>
  \<open>S k\<close> is the state at tick \<open>k\<close> of a recording without orbs that ends at tick \<open>t\<close>; inputs of tick \<open>t\<close> are
  still to be applied.
\<close>

definition passes :: "LevelTable \<Rightarrow> StartInput \<Rightarrow> HistoryEvent list \<Rightarrow> int \<Rightarrow> (int \<Rightarrow> GameState) \<Rightarrow> bool" where
  "passes L start h t S \<longleftrightarrow> 0 \<le> t \<and> sorted (map ev_tick h) \<and> distinct (pickupIds h) \<and>
     (\<forall>e \<in> set h. t \<le> ev_tick e \<longrightarrow> isInputEvent e \<and> ev_tick e = t) \<and>
     (\<forall>k. 0 \<le> k \<and> k \<le> t \<longrightarrow> segment L start (before k h) (S k) [] \<and> gs_tick (S k) = k \<and> gs_status (S k) = Running)"

lemma passes_at:
  assumes "passes L start h t S" "0 \<le> k" "k \<le> t"
  shows "segment L start (before k h) (S k) []" "gs_tick (S k) = k" "gs_status (S k) = Running"
  using assms by (auto simp: passes_def)

lemma segment_sorted: "segment L start h s vs \<Longrightarrow> sorted (map ev_tick h)"
proof (induction rule: segment.induct)
  case (segment_tick h s vs ins evs us s')
  have "\<forall>e \<in> set (ins @ evs). ev_tick e = gs_tick s"
    using segment_tick.hyps(3) step_explained[OF segment_tick.hyps(4,2)] by (metis Un_iff set_append)
  then have "sorted (map ev_tick (ins @ evs))" "\<forall>e \<in> set h. \<forall>e' \<in> set (ins @ evs). ev_tick e \<le> ev_tick e'"
    using segment_ticks[OF segment_tick.hyps(1)] by (auto simp: sorted_iff_nth_mono_less nth_append less_imp_le)
  then show ?case using segment_tick.IH by (subst map_append) (auto simp: sorted_append simp del: map_append)
qed simp

lemma recording_passes:
  assumes "recording d g" "orbsOf (g_history g) = 0"
  obtains S where "passes (dp_levels d) (g_start g) (g_history g) (gs_tick (g_state g)) S"
    "S (gs_tick (g_state g)) = g_state g"
proof -
  let ?T = "gs_tick (g_state g)" and ?L = "dp_levels d"
  let ?h = "before ?T (g_history g)"
  have r: "segment ?L (g_start g) ?h (g_state g) (keptValues (g_orbValues g) ?h)" "gs_status (g_state g) = Running"
    "g_history g = ?h @ g_queued g" "\<forall>e \<in> set (g_queued g). isInputEvent e \<and> ev_tick e = ?T"
    using assms(1) by (auto simp: recording_def recordedState_def)
  have no: "orbsOf (before k (g_history g)) = 0" for k using orbsOf_before[of k "g_history g"] assms(2) by simp
  have "\<exists>u. segment ?L (g_start g) (before k (g_history g)) u [] \<and> gs_tick u = k \<and> gs_status u = Running \<and>
      (k = ?T \<longrightarrow> u = g_state g)" if k: "0 \<le> k \<and> k \<le> ?T" for k
  proof -
    have "before k ?h = before k (g_history g)" using k by (intro before_before) simp
    then show ?thesis using segment_prefix[OF r(1), of k] k r(2) no[of k] by (cases "k = ?T") auto
  qed
  then obtain S where S: "\<forall>k. 0 \<le> k \<and> k \<le> ?T \<longrightarrow> segment ?L (g_start g) (before k (g_history g)) (S k) [] \<and>
      gs_tick (S k) = k \<and> gs_status (S k) = Running \<and> (k = ?T \<longrightarrow> S k = g_state g)" by metis
  have q: "pickupIds (g_queued g) = []" using r(4) by (intro pickupIds_inputs) (simp add: isInputEvent_outcome)
  have dist: "distinct (pickupIds (?h @ g_queued g))"
    using collected_distinct[OF segment_collected[OF r(1)]] q by simp
  have lt: "0 \<le> ?T" "\<forall>e \<in> set ?h. ev_tick e < ?T" using segment_ticks[OF r(1)] by auto
  have "sorted (map ev_tick (g_queued g))"
    using r(4) by (auto simp: sorted_iff_nth_mono_less)
  then have srt: "sorted (map ev_tick (?h @ g_queued g))"
    using segment_sorted[OF r(1)] r(4) by (auto simp: sorted_append)
  have later: "\<forall>e \<in> set (?h @ g_queued g). ?T \<le> ev_tick e \<longrightarrow> isInputEvent e \<and> ev_tick e = ?T"
    using r(4) by auto
  show ?thesis
    using that[of S] S lt(1) dist srt later unfolding passes_def r(3)[symmetric] by auto
qed

lemma passes_recorded:
  assumes "passes L start h t S" "0 \<le> k" "k \<le> t" "orbsOf h = 0"
  shows "recordedState L start h ov (S k)"
proof -
  have "orbIds (before k h) = []" using orbsOf_before[of k h] assms(4) length_orbIds[of "before k h"] by simp
  then show ?thesis using assms(1-3) by (simp add: passes_def recordedState_def keptValues_def)
qed

lemma replayFrame_recorded:
  assumes "passes (dp_levels d) start (g_history g) (g_crashTick g) S" "0 \<le> k" "k \<le> g_crashTick g" "orbsOf (g_history g) = 0"
    "bufferRecorded (dp_levels d) start (g_history g) ov k (g_rewind g)"
  shows "\<exists>b. replayFrame d n (replayedTo start (g_history g) (g_crashTick g) (S k) k, g)
      = Some (replayedTo start (g_history g) (g_crashTick g) (S (min (k + int n) (g_crashTick g))) (min (k + int n) (g_crashTick g)),
              g\<lparr>g_rewind := b\<rparr>) \<and>
    bufferRecorded (dp_levels d) start (g_history g) ov (min (k + int n) (g_crashTick g)) b"
  using assms
proof (induction n arbitrary: k g)
  case 0
  then show ?case by (intro exI[of _ "g_rewind g"]) (simp add: min_absorb1)
next
  case (Suc n)
  let ?T = "g_crashTick g" and ?h = "g_history g"
  show ?case
  proof (cases "k < ?T")
    case True
    note k = passes_at[OF Suc.prems(1,2,3)] and k1 = passes_at[OF Suc.prems(1), of "k + 1"]
    have h: "sorted (map ev_tick ?h)" "distinct (pickupIds ?h)" using Suc.prems(1) by (auto simp: passes_def)
    have nx: "advance 1 ?h ?T imp (dp_levels d) (replayedTo start ?h ?T (S k) k, w)
        = Some (replayedTo start ?h ?T (S (k + 1)) (k + 1), w)" for imp w
      using k k1 h Suc.prems(2) True by (intro replayedTo_next) auto
    have run: "gs_status (S (k + 1)) = Running" "gs_tick (S (k + 1)) = k + 1" using k1 Suc.prems(2) True by auto
    define g1 where "g1 = g\<lparr>g_rewind := push (S (k + 1)) (g_rewind g)\<rparr>"
    have "recordedState (dp_levels d) start ?h ov (S (k + 1))"
      using Suc.prems True by (intro passes_recorded[OF Suc.prems(1)]) auto
    from bufferRecorded_push[OF Suc.prems(5) _ this]
    have b1: "bufferRecorded (dp_levels d) start (g_history g1) ov (k + 1) (g_rewind g1)"
      using run by (simp add: g1_def)
    have "replayFrame d (Suc n) (replayedTo start ?h ?T (S k) k, g)
        = replayFrame d n (replayedTo start ?h ?T (S (k + 1)) (k + 1), g1)"
      using nx[of "sourceImpure d" g] run True
      by (simp add: replayedTo_def g1_def Let_def del: advance.simps)
    then show ?thesis using Suc.IH[of g1 "k + 1"] Suc.prems b1 True by (simp add: g1_def add.assoc)
  next
    case False
    then have "k = ?T" using Suc.prems(3) by simp
    then show ?thesis using Suc.prems(5)
      by (intro exI[of _ "g_rewind g"]) (simp add: replayedTo_def min_absorb2)
  qed
qed

text \<open>A game in the middle of rebuilding such a recording, at tick \<open>k\<close>.\<close>

definition rebuilding :: "'w GameDeps \<Rightarrow> (int \<Rightarrow> GameState) \<Rightarrow> int \<Rightarrow> 'w Game \<Rightarrow> bool" where
  "rebuilding d S k g \<longleftrightarrow> g_phase g = ReplayingPhase \<and> \<not> g_playback g \<and> 0 \<le> k \<and> k \<le> g_crashTick g \<and>
     orbsOf (g_history g) = 0 \<and> distinct (map fst (g_orbValues g)) \<and>
     passes (dp_levels d) (g_start g) (g_history g) (g_crashTick g) S \<and>
     g_replayer g = Some (replayedTo (g_start g) (g_history g) (g_crashTick g) (S k) k) \<and>
     bufferRecorded (dp_levels d) (g_start g) (g_history g) (g_orbValues g) k (g_rewind g)"

text \<open>What a successful recovery leaves: the state and history of the crash, and the resume recorded.\<close>

definition recovered :: "'w GameDeps \<Rightarrow> StartInput \<Rightarrow> HistoryEvent list \<Rightarrow> GameState \<Rightarrow> 'w Game \<Rightarrow> bool" where
  "recovered d start h s g \<longleftrightarrow> g_phase g = PlayingPhase \<and> g_start g = start \<and> g_state g = s \<and>
     g_history g = h @ [OrchestratorStarted (gs_tick s)] \<and> recording d g"

lemma finishReplay_recovers:
  assumes p: "passes (dp_levels d) (g_start g) (g_history g) t S" and no: "orbsOf (g_history g) = 0"
    and ov: "distinct (map fst (g_orbValues g))"
    and b: "bufferRecorded (dp_levels d) (g_start g) (g_history g) (g_orbValues g) t (g_rewind g)"
  shows "recovered d (g_start g) (g_history g) (S t) (finishReplay d (ReplayOk (S t)) g)"
proof -
  let ?s = "S t" and ?h = "g_history g"
  have tt: "0 \<le> t" using p by (simp add: passes_def)
  have s: "gs_tick ?s = t" using passes_at(2)[OF p tt] by simp
  define q where "q = filter (\<lambda>e. isInputEvent e \<and> ev_tick e = gs_tick ?s) ?h"
  define g1 where "g1 = g\<lparr>g_state := ?s, g_queued := q\<rparr>"
  have "q = filter (\<lambda>e. t \<le> ev_tick e) ?h"
    unfolding q_def s using p by (intro filter_cong) (auto simp: passes_def)
  then have "?h = before t ?h @ q" using sorted_before[of ?h t] p by (simp add: passes_def)
  moreover have "recordedState (dp_levels d) (g_start g) ?h (g_orbValues g) ?s"
    by (rule passes_recorded[OF p tt order_refl no])
  ultimately have "recording d g1" using b ov s by (simp add: recording_def g1_def q_def)
  then have r: "recording d (recordInput (OrchestratorStarted t) g1)"
    by (rule recording_recordInput) (simp_all add: g1_def s isInputEvent_def)
  let ?g = "finishReplay d (ReplayOk ?s) g"
  have trk: "track ?g = track (recordInput (OrchestratorStarted t) g1)"
    using scheduleNext_drawn[THEN drawn_track]
    by (simp add: finishReplay_def Let_def track_fields)
       (simp add: recordInput_def track_def g1_def q_def s drawn_fields[OF scheduleNext_drawn])
  have "g_phase ?g = PlayingPhase"
    by (simp add: finishReplay_def Let_def setPhase_def touch_def syncSlide_def)
  then show ?thesis using trk r recording_track[OF trk]
    by (simp add: recovered_def) (simp add: track_def recordInput_def g1_def s)
qed

lemma frame_rebuilds:
  assumes r: "rebuilding d S k g" and p: "0 < g_replayTicksPerFrame g"
  shows "\<exists>g'. frame d n g = Some g' \<and>
    (if k + g_replayTicksPerFrame g < g_crashTick g
     then rebuilding d S (k + g_replayTicksPerFrame g) g' \<and> g_replayTicksPerFrame g' = g_replayTicksPerFrame g \<and>
       g_start g' = g_start g \<and> g_history g' = g_history g \<and> g_crashTick g' = g_crashTick g
     else recovered d (g_start g) (g_history g) (S (g_crashTick g)) g')"
proof -
  let ?p = "g_replayTicksPerFrame g" and ?T = "g_crashTick g" and ?h = "g_history g"
  let ?k = "min (k + ?p) ?T"
  have R: "g_phase g = ReplayingPhase" "\<not> g_playback g" "0 \<le> k" "k \<le> ?T" "orbsOf ?h = 0" "distinct (map fst (g_orbValues g))"
    "passes (dp_levels d) (g_start g) ?h ?T S" "g_replayer g = Some (replayedTo (g_start g) ?h ?T (S k) k)"
    "bufferRecorded (dp_levels d) (g_start g) ?h (g_orbValues g) k (g_rewind g)"
    using r by (auto simp: rebuilding_def)
  obtain b where b: "replayFrame d (nat ?p) (replayedTo (g_start g) ?h ?T (S k) k, g)
      = Some (replayedTo (g_start g) ?h ?T (S ?k) ?k, g\<lparr>g_rewind := b\<rparr>)"
    "bufferRecorded (dp_levels d) (g_start g) ?h (g_orbValues g) ?k b"
    using replayFrame_recorded[OF R(7,3,4,5,9), of "nat ?p"] p by auto
  have f: "frame d n g = advanceReplay d g"
    using R(1,2) by (cases "advanceReplay d g") (auto simp: frame_def frameStep_def keeps_advanceReplay[unfolded keeps_def])
  show ?thesis
  proof (cases "k + ?p < ?T")
    case True
    then have "advanceReplay d g = Some (g\<lparr>g_rewind := b, g_state := S (k + ?p), g_prevState := None,
        g_replayer := Some (replayedTo (g_start g) ?h ?T (S (k + ?p)) (k + ?p))\<rparr>)"
      using b(1) by (simp add: advanceReplay_def R(8) Let_def replayedTo_def)
    then show ?thesis using True R b(2) p unfolding f by (simp add: rebuilding_def)
  next
    case False
    then have kT: "?k = ?T" by simp
    let ?g = "g\<lparr>g_rewind := b, g_state := S ?T, g_prevState := None, g_replayer := None\<rparr>"
    have "advanceReplay d g = Some (finishReplay d (ReplayOk (S ?T)) ?g)"
      using b(1) False unfolding kT by (simp add: advanceReplay_def R(8) Let_def replayedTo_def result_def)
    then show ?thesis
      using False finishReplay_recovers[of d ?g ?T S] R b(2) unfolding f kT by simp
  qed
qed

text \<open>Animation frames one after the other, with the live ticks each reports.\<close>

fun framesOf :: "'w GameDeps \<Rightarrow> nat list \<Rightarrow> 'w Game \<Rightarrow> 'w Game option" where
  "framesOf d [] g = Some g"
| "framesOf d (n # ns) g = frame d n g \<bind> framesOf d ns"

lemma framesOf_append: "framesOf d (ms @ ns) g = framesOf d ms g \<bind> framesOf d ns"
proof (induction ms arbitrary: g)
  case (Cons m ms)
  then show ?case by (cases "frame d m g") simp_all
qed simp

lemma rebuild_ends:
  assumes "rebuilding d S k g" "0 < g_replayTicksPerFrame g" "g_crashTick g - k \<le> g_replayTicksPerFrame g * int j" "1 \<le> j"
  shows "\<exists>m \<le> j. \<forall>ns. length ns = m \<longrightarrow> (\<exists>g'. framesOf d ns g = Some g' \<and>
    recovered d (g_start g) (g_history g) (S (g_crashTick g)) g')"
  using assms
proof (induction j arbitrary: k g)
  case (Suc j)
  let ?p = "g_replayTicksPerFrame g"
  show ?case
  proof (cases "k + ?p < g_crashTick g")
    case False
    show ?thesis
    proof (intro exI[of _ 1] conjI allI impI)
      fix ns :: "nat list" assume "length ns = 1"
      then obtain n where "ns = [n]" by (auto simp: length_Suc_conv)
      then show "\<exists>g'. framesOf d ns g = Some g' \<and> recovered d (g_start g) (g_history g) (S (g_crashTick g)) g'"
        using frame_rebuilds[OF Suc.prems(1,2), of n] False by auto
    qed simp
  next
    case True
    then have j: "1 \<le> j" using Suc.prems(3) by (cases j) auto
    have "\<exists>m \<le> j. \<forall>n ns. length ns = m \<longrightarrow> (\<exists>g'. framesOf d (n # ns) g = Some g' \<and>
        recovered d (g_start g) (g_history g) (S (g_crashTick g)) g')"
    proof -
      obtain g0 where g0: "frame d 0 g = Some g0" "rebuilding d S (k + ?p) g0" "g_replayTicksPerFrame g0 = ?p"
        "g_start g0 = g_start g" "g_history g0 = g_history g" "g_crashTick g0 = g_crashTick g"
        using frame_rebuilds[OF Suc.prems(1,2), of 0] True by auto
      have same: "frame d n g = frame d 0 g" for n
        using Suc.prems(1) by (simp add: rebuilding_def frame_def frameStep_def)
      have "g_crashTick g0 - (k + ?p) \<le> g_replayTicksPerFrame g0 * int j"
        using Suc.prems(3) g0(3,6) by (simp add: algebra_simps)
      from Suc.IH[OF g0(2) _ this j] obtain m where "m \<le> j" "\<forall>ns. length ns = m \<longrightarrow> (\<exists>g'. framesOf d ns g0 = Some g' \<and>
          recovered d (g_start g0) (g_history g0) (S (g_crashTick g0)) g')" using Suc.prems(2) g0(3) by auto
      then show ?thesis using same g0 by (intro exI[of _ m]) simp
    qed
    then obtain m where m: "m \<le> j" "\<forall>n ns. length ns = m \<longrightarrow> (\<exists>g'. framesOf d (n # ns) g = Some g' \<and>
        recovered d (g_start g) (g_history g) (S (g_crashTick g)) g')" by blast
    then show ?thesis by (intro exI[of _ "Suc m"]) (auto simp: length_Suc_conv simp del: framesOf.simps)
  qed
qed simp

lemma ceil_fdiv:
  assumes "0 \<le> t" "t \<le> 2 ^ 48"
  shows "t \<le> 120 * mathCeil (fdiv (of_int t) 120)"
proof (rule ccontr)
  define n where "n = mathCeil (fdiv (of_int t) 120)"
  assume "\<not> t \<le> 120 * mathCeil (fdiv (of_int t) 120)"
  then have lt: "120 * n + 1 \<le> t" by (simp add: n_def)
  have "0 \<le> fdiv (of_int t) 120" using assms fdiv_nonneg[of "of_int t" 120] by simp
  then have "0 \<le> n" by (simp add: n_def mathCeil_def)
  then have m: "\<bar>128 * n + 1\<bar> \<le> 2 ^ 53" using lt assms(2) by simp
  have "(of_int (128 * n + 1) :: rat) * 2 powi (- 7) = of_int n + 1 / 128" by (simp add: power_int_def power_divide field_simps)
  then have ex: "rnd (of_int n + 1 / 128) = of_int n + 1 / 128" using rnd_exact[OF m, of "- 7"] by metis
  have "(of_int (120 * n + 1) :: rat) \<le> of_int t" using lt by (simp only: of_int_le_iff)
  then have "of_int n + 1 / 128 \<le> (of_int t :: rat) / 120" by simp
  from rnd_mono[OF this] have "of_int n + 1 / 128 \<le> fdiv (of_int t) 120" by (simp add: ex fdiv_def)
  moreover have "fdiv (of_int t) 120 \<le> of_int n" by (simp add: n_def mathCeil_def)
  ultimately show False by simp
qed

lemma crash_countdown:
  assumes "g_phase g = CrashingPhase f" "\<not> g_playback g" "1 \<le> f" "length ns = nat f"
  shows "framesOf d ns g = Some (startReplay d (g\<lparr>g_phase := CrashingPhase 1\<rparr>))"
  using assms
proof (induction ns arbitrary: f g)
  case (Cons n ns)
  show ?case
  proof (cases "1 < f")
    case True
    have "framesOf d ns (g\<lparr>g_phase := CrashingPhase (f - 1)\<rparr>) =
        Some (startReplay d ((g\<lparr>g_phase := CrashingPhase (f - 1)\<rparr>)\<lparr>g_phase := CrashingPhase 1\<rparr>))"
      using Cons.prems True by (intro Cons.IH[of _ "f - 1"]) auto
    then show ?thesis using Cons.prems True by (simp add: frame_def frameStep_def)
  next
    case False
    then have f: "f = 1" "ns = []" using Cons.prems by auto
    then have eq: "g\<lparr>g_phase := CrashingPhase 1\<rparr> = g" using Cons.prems(1) by (cases g) simp
    have "\<not> g_playback (startReplay d g)" using Cons.prems(2) keeps_startReplay[of d g] by (simp add: keeps_def)
    then show ?thesis using Cons.prems f unfolding eq by (simp add: frame_def frameStep_def)
  qed
qed simp

lemma startReplay_rebuilding:
  assumes "recording d g" "\<not> g_playback g" "lc_durable (dp_levels d (si_level (g_start g)))" "orbsOf (g_history g) = 0"
    "g_crashTick g = gs_tick (g_state g)" "gs_tick (g_state g) \<le> TICK_LIMIT"
  obtains S where "rebuilding d S 0 (startReplay d g)" "S (g_crashTick g) = g_state g"
    "g_start (startReplay d g) = g_start g" "g_history (startReplay d g) = g_history g"
    "g_crashTick (startReplay d g) = g_crashTick g" "0 < g_replayTicksPerFrame (startReplay d g)"
    "g_crashTick g \<le> g_replayTicksPerFrame (startReplay d g) * 120"
proof -
  let ?s = "startReplay d g" and ?T = "g_crashTick g" and ?L = "dp_levels d"
  obtain S where S: "passes ?L (g_start g) (g_history g) ?T S" "S ?T = g_state g"
    using recording_passes[OF assms(1,4)] unfolding assms(5)[symmetric] by metis
  have T: "0 \<le> ?T" using S(1) by (simp add: passes_def)
  note f = startReplay_def setPhase_def touch_def Let_def
  have p: "g_replayTicksPerFrame ?s = max 8 (mathCeil (fdiv (of_int ?T) 120))" using assms(3) by (simp add: f)
  have S0: "S 0 = initialState (g_start g) ?L" "before 0 (g_history g) = []"
    using segment_zero[OF passes_at(1)[OF S(1), of 0] passes_at(2)[OF S(1), of 0]] T by auto
  have b: "bufferRecorded ?L (g_start g) (g_history g) (g_orbValues g) 0 (reset (S 0) (g_rewind g))"
    using rw.inv_start rw.entries_start passes_recorded[OF S(1), of 0] T assms(4) passes_at(2)[OF S(1), of 0]
    by (simp add: bufferRecorded_def)
  have "rebuilding d S 0 ?s"
    using assms(1-4) S(1) b T S0 by (simp add: f rebuilding_def recording_def createReplayer_def replayedTo_def)
  moreover have "?T \<le> g_replayTicksPerFrame ?s * 120"
    using ceil_fdiv[of ?T] T assms(5,6) by (simp add: p max_def)
  ultimately show ?thesis using that[of S] S(2) assms(3) p by (simp add: f)
qed

lemma crash_recovers:
  assumes "recording d g" "g_phase g = CrashingPhase CRASH_FRAMES" "\<not> g_playback g"
    "g_crashTick g = gs_tick (g_state g)" "gs_tick (g_state g) \<le> TICK_LIMIT"
    "lc_durable (dp_levels d (si_level (g_start g)))" "orbsOf (g_history g) = 0"
  shows "\<exists>m \<le> nat (CRASH_FRAMES + REPLAY_MAX_FRAMES). \<forall>ns. length ns = m \<longrightarrow>
    (\<exists>g'. framesOf d ns g = Some g' \<and> recovered d (g_start g) (g_history g) (g_state g) g')"
proof -
  let ?g = "g\<lparr>g_phase := CrashingPhase 1\<rparr>"
  have "recording d ?g" using assms(1) recording_track[of ?g g d] by (simp add: track_fields)
  then obtain S where S: "rebuilding d S 0 (startReplay d ?g)" "S (g_crashTick g) = g_state g"
    "g_start (startReplay d ?g) = g_start g" "g_history (startReplay d ?g) = g_history g"
    "g_crashTick (startReplay d ?g) = g_crashTick g" "0 < g_replayTicksPerFrame (startReplay d ?g)"
    "g_crashTick g \<le> g_replayTicksPerFrame (startReplay d ?g) * 120"
    using startReplay_rebuilding[of d ?g] assms(3-7) by auto
  then obtain m where m: "m \<le> 120" "\<forall>ns. length ns = m \<longrightarrow> (\<exists>g'. framesOf d ns (startReplay d ?g) = Some g' \<and>
      recovered d (g_start g) (g_history g) (g_state g) g')"
    using rebuild_ends[OF S(1,6), of 120] by auto
  show ?thesis
  proof (intro exI[of _ "90 + m"] conjI allI impI)
    fix ns :: "nat list" assume l: "length ns = 90 + m"
    have "framesOf d (take 90 ns) g = Some (startReplay d ?g)"
      using l assms(2,3) by (intro crash_countdown) auto
    then have "framesOf d ns g = framesOf d (drop 90 ns) (startReplay d ?g)"
      using framesOf_append[of d "take 90 ns" "drop 90 ns" g] by simp
    moreover have "length (drop 90 ns) = m" using l by simp
    ultimately show "\<exists>g'. framesOf d ns g = Some g' \<and> recovered d (g_start g) (g_history g) (g_state g) g'"
      using m(2) by auto
  qed (use m(1) in simp)
qed

end
