(* ===== verification/GameTheorems.thy ===== *)
theory GameTheorems
  imports Recording
begin

text \<open>
  The properties of the runtime, over the lemmas of the theories it imports: crash recovery, the
  recording, retries, what reaches the store, the montage, the store itself and the crash scheduler.
\<close>

section \<open>Games for the witnesses\<close>

text \<open>A game on the real levels whose outside world always answers one half, with an empty store.\<close>

definition demoDeps :: "unit GameDeps" where
  "demoDeps = \<lparr>dp_world = \<lparr>wd_impure = (\<lambda>w. (1 / 2, w)), wd_chaosRand = (\<lambda>w. (1 / 2, w))\<rparr>,
     dp_today = (\<lambda>_. ''2026-01-01''), dp_levels = LEVELS\<rparr>"

definition demoStore :: GameStore where
  "demoStore = \<lparr>st_run = None, st_best = 40, st_daily = None\<rparr>"

definition demoGame :: "unit Game" where
  "demoGame = newGame demoDeps demoStore ()"

text \<open>A run on the first durable level, and the same run at its first crash.\<close>

definition demoLevel :: "unit Game" where
  "demoLevel = beginSegment demoDeps (levelStart L1 7 3) False demoGame"

definition demoCrash :: "unit Game" where
  "demoCrash = crash demoDeps demoLevel"

lemma demoLevel_recording: "recording demoDeps demoLevel"
  by (simp add: demoLevel_def recording_beginSegment)

lemma demoLevel_fields:
  "g_start demoLevel = levelStart L1 7 3" "g_history demoLevel = []" "g_orbValues demoLevel = []"
  "g_state demoLevel = initialState (levelStart L1 7 3) LEVELS"
  using beginSegment_track[of demoDeps "levelStart L1 7 3" False demoGame]
  by (simp_all add: demoLevel_def track_def demoDeps_def)

lemma demoLevel_playback: "\<not> g_playback demoLevel"
  using keeps_beginSegment[of demoDeps demoGame "levelStart L1 7 3" False]
  by (simp add: demoLevel_def keeps_def) (simp add: demoGame_def newGame_def Let_def)

section \<open>Crash recovery\<close>

text \<open>
  C8. Crash recovery. When the process dies on a durable level during a segment in which no orb was
  taken, then after a bounded number of animation frames (the glitch, then at most
  \<open>REPLAY_MAX_FRAMES\<close>), however many live ticks they report, the game is playing again in exactly the
  state of the crash; its history is the old one followed by \<open>OrchestratorStarted\<close>, and it is again the
  recording of that state, so the next crash recovers too.
\<close>

theorem crash_recovery:
  assumes "recording d g" "g_phase g = CrashingPhase CRASH_FRAMES" "\<not> g_playback g"
    "g_crashTick g = gs_tick (g_state g)" "gs_tick (g_state g) \<le> TICK_LIMIT"
    "lc_durable (dp_levels d (si_level (g_start g)))" "orbsOf (g_history g) = 0"
  shows "\<exists>m \<le> nat (CRASH_FRAMES + REPLAY_MAX_FRAMES). \<forall>ns. length ns = m \<longrightarrow>
    (\<exists>g'. framesOf d ns g = Some g' \<and> g_phase g' = PlayingPhase \<and> g_state g' = g_state g \<and>
       g_history g' = g_history g @ [OrchestratorStarted (gs_tick (g_state g))] \<and> recording d g')"
  using crash_recovers[OF assms] unfolding recovered_def by blast

theorem crash_recovery_witness:
  "\<exists>m \<le> 210. \<forall>ns. length ns = m \<longrightarrow>
    (\<exists>g'. framesOf demoDeps ns demoCrash = Some g' \<and> g_phase g' = PlayingPhase \<and>
       g_state g' = initialState (levelStart L1 7 3) LEVELS \<and> g_history g' = [OrchestratorStarted 0])"
proof -
  have t: "track demoCrash = track demoLevel" by (simp add: demoCrash_def track_fields)
  have p: "g_phase demoCrash = CrashingPhase CRASH_FRAMES" "g_crashTick demoCrash = gs_tick (g_state demoLevel)"
    "\<not> g_playback demoCrash"
    using demoLevel_playback
    by (simp_all add: demoCrash_def crash_def setPhase_def touch_def saveGame_def Let_def)
  have r: "recording demoDeps demoCrash" using demoLevel_recording recording_track[OF t] by blast
  have f: "g_start demoCrash = levelStart L1 7 3" "g_history demoCrash = []"
    "g_state demoCrash = initialState (levelStart L1 7 3) LEVELS"
    using t demoLevel_fields by (simp_all add: track_def)
  show ?thesis
    using crash_recovery[OF r p(1,3)] p(2) unfolding f demoLevel_fields
    by (simp add: initialState_tick demoDeps_def levelStart_def) blast
qed

section \<open>Live play\<close>

text \<open>
  C9. Every live tick of a recording game returns, on playable levels up to \<open>2^48\<close> ticks: no loop runs
  forever and no exception is thrown. Unless the run is over, the history it leaves is again the
  recording of the state it leaves (through inputs, pickups, a retry, a new level or a hotfix), and
  every segment it closes for the montage is a recording with the values its orbs drew.
\<close>

theorem live_tick_recorded:
  assumes "recording d g" "\<forall>l. playable (dp_levels d l)" "0 \<le> si_elapsed (g_start g)"
    "gs_tick (g_state g) < TICK_LIMIT"
  shows "\<exists>g'. tick d g = Some g' \<and> (recording d g' \<or> isOver (g_phase g')) \<and> (played d g \<longrightarrow> played d g')"
proof (rule tick_recording[OF assms(1)])
  obtain h vs where "segment (dp_levels d) (g_start g) h (g_state g) vs"
    using assms(1) by (auto simp: recording_def recordedState_def)
  then have "paced (g_state g)" using segment_paced[of "dp_levels d" "g_start g" h "g_state g" vs] assms(2-4) by simp
  then show "\<exists>r. step (g_state g) inputs (livePorts d) (dp_levels d) w = Some r" for inputs w
    using step_ends[of "g_state g" "dp_levels d" inputs "livePorts d" w] assms(2,4) by blast
qed

theorem live_tick_recorded_witness:
  "\<exists>g'. tick demoDeps demoLevel = Some g' \<and> (recording demoDeps g' \<or> isOver (g_phase g')) \<and>
     (played demoDeps demoLevel \<longrightarrow> played demoDeps g')"
  by (rule live_tick_recorded[OF demoLevel_recording])
    (simp_all add: demoDeps_def LEVELS_playable demoLevel_fields initialState_tick levelStart_def)



text \<open>
  C12. A retry never throws \<open>rewind buffer is empty\<close>: from every recording game it rewinds to a state
  of the buffer that is not ahead of the current one, and the game is again recording: the cut history is
  the recording of the state it went back to.
\<close>

theorem retry_rewinds:
  assumes "recording d g"
  shows "\<exists>g'. retry d hit g = Some g' \<and> recording d g' \<and> g_state g' \<in> set (allStates (g_rewind g)) \<and>
    gs_tick (g_state g') \<le> gs_tick (g_state g)"
proof -
  have b: "bufferRecorded (dp_levels d) (g_start g) (g_history g) (g_orbValues g) (gs_tick (g_state g)) (g_rewind g)"
    "distinct (map fst (g_orbValues g))" using assms by (auto simp: recording_def)
  from retry_recording[OF b, of hit] obtain g' where "retry d hit g = Some g'" "recording d g'"
    "g_state g' \<in> set (allStates (g_rewind g))" by metis
  then show ?thesis using b(1) by (auto simp: bufferRecorded_def)
qed

theorem retry_rewinds_witness:
  "\<exists>g'. retry demoDeps ((g_state demoLevel)\<lparr>gs_status := NeedsRetry\<rparr>) demoLevel = Some g' \<and> recording demoDeps g' \<and>
     g_state g' \<in> set (allStates (g_rewind demoLevel)) \<and> gs_tick (g_state g') \<le> gs_tick (g_state demoLevel)"
  by (rule retry_rewinds[OF demoLevel_recording])

section \<open>The store\<close>

text \<open>
  C13. Watching a recorded run is private: no animation frame of a playback writes to the store, changes
  the best scores or ends the playback, whatever the tape holds.
\<close>

theorem watching_private:
  assumes "g_playback g" "frame d n g = Some g'"
  shows "g_store g' = g_store g \<and> g_best g' = g_best g \<and> g_dailyBest g' = g_dailyBest g \<and> g_playback g'"
  using keeps_frame[OF assms(2)] assms(1) by (simp add: keeps_def)

definition demoWatch :: "unit Game" where
  "demoWatch = snd (watch demoDeps (emptyTape ''2026-01-02'') demoGame)"

theorem watching_private_witness:
  "case frame demoDeps 1 demoWatch of None \<Rightarrow> False
   | Some g' \<Rightarrow> g_store g' = g_store demoWatch \<and> g_best g' = g_best demoWatch \<and>
       g_dailyBest g' = g_dailyBest demoWatch \<and> g_playback g'"
proof -
  have "g_playback demoWatch \<and> frame demoDeps 1 demoWatch \<noteq> None" by code_simp
  then show ?thesis using watching_private[of demoWatch demoDeps 1] by (auto split: option.split)
qed

text \<open>
  C14. The store and the game agree in every game the page can reach (by commands, frames, suspension,
  run codes): a stored run is always one of a durable level, so it can be resumed; the stored best
  score is the one the game shows and never falls below the one it started with; and outside playback
  the daily best shown is the one stored for the date of the run.
\<close>

theorem store_agrees:
  assumes "reach d store w g" "\<forall>sv. st_run store = Some sv \<longrightarrow> durableSave d sv"
  shows "(\<forall>sv. st_run (g_store g) = Some sv \<longrightarrow> durableSave d sv) \<and> st_best (g_store g) = g_best g \<and>
    st_best store \<le> st_best (g_store g) \<and> (\<not> g_playback g \<longrightarrow> g_dailyBest g = storeDaily (g_runDate g) (g_store g))"
  using reach_storeInv[OF assms] by (simp add: storeInv_def)

theorem store_agrees_witness:
  "st_best (g_store (command demoDeps ConfirmCmd demoGame)) = g_best (command demoDeps ConfirmCmd demoGame) \<and>
   40 \<le> st_best (g_store (command demoDeps ConfirmCmd demoGame))"
proof -
  have "reach demoDeps demoStore () (command demoDeps ConfirmCmd demoGame)"
    unfolding demoGame_def by (rule reach_act[OF reach_new act_command])
  from store_agrees[OF this] show ?thesis by (simp add: demoStore_def)
qed

datatype GameOp = SaveRun Save | ClearRun | RecordBest int | RecordDaily string int

fun gameOp :: "GameOp \<Rightarrow> GameStore \<Rightarrow> GameStore" where
  "gameOp (SaveRun sv) st = st\<lparr>st_run := Some sv\<rparr>"
| "gameOp ClearRun st = st\<lparr>st_run := None\<rparr>"
| "gameOp (RecordBest n) st = st\<lparr>st_best := n\<rparr>"
| "gameOp (RecordDaily date n) st = st\<lparr>st_daily := Some (date, n)\<rparr>"

fun storageOp :: "GameOp \<Rightarrow> Storage \<Rightarrow> Storage" where
  "storageOp (SaveRun sv) st = save (saveJson sv) st"
| "storageOp ClearRun st = clear st"
| "storageOp (RecordBest n) st = saveBest n st"
| "storageOp (RecordDaily date n) st = saveDailyBest date n st"

fun wellFormedOp :: "GameOp \<Rightarrow> bool" where
  "wellFormedOp (SaveRun sv) = (bodyOk (sa_body sv) \<and> tapeOk (sa_tape sv))"
| "wellFormedOp ClearRun = True"
| "wellFormedOp (RecordBest n) = (0 \<le> n)"
| "wellFormedOp (RecordDaily _ n) = (0 \<le> n)"

text \<open>
  C15. Local storage implements the store the game talks to. If the two hold the same and storage works,
  they still do after every operation of the game: saving a well-formed run, clearing, and recording
  scores. In particular the JSON text of every save passes its own validation and loads as what was
  saved.
\<close>

theorem storage_refines:
  assumes "storeRel g st" "\<forall>op \<in> set ops. wellFormedOp op"
  shows "storeRel (fold gameOp ops g) (fold storageOp ops st)"
  using assms
proof (induction ops arbitrary: g st)
  case (Cons op ops)
  have "storeRel (gameOp op g) (storageOp op st)"
    using Cons.prems by (cases op) (auto intro: storeRel_save storeRel_ops)
  then show ?case using Cons by simp
qed simp

definition emptyStorage :: Storage where
  "emptyStorage = \<lparr>sg_items = Map.empty, sg_off = False, sg_full = False\<rparr>"

lemma emptyStorage_rel: "storeRel \<lparr>st_run = None, st_best = 0, st_daily = None\<rparr> emptyStorage"
  by (simp add: storeRel_def emptyStorage_def storage_defs storeDaily_def mathFloor_def)

theorem storage_refines_witness:
  "loadBest (fold storageOp [RecordBest 12, ClearRun, RecordDaily ''2026-01-01'' 12] emptyStorage) = 12"
  using storage_refines[OF emptyStorage_rel, of "[RecordBest 12, ClearRun, RecordDaily ''2026-01-01'' 12]"]
  by (simp add: storeRel_def)

section \<open>The montage\<close>

text \<open>
  C16. The montage shows what happened and then ends: a closed segment, replayed with the orb values
  kept for it, runs to its last tick without divergence and stops in exactly the state live play
  reached there; and on playable levels every montage of segments up to \<open>2^48\<close> ticks is done after
  finitely many frames.
\<close>

theorem montage_faithful:
  assumes "newMontage L segments = Some m" "\<forall>l. playable (L l)"
    "\<forall>seg \<in> set segments. 0 \<le> si_elapsed (ms_start seg) \<and> ms_endTick seg \<le> TICK_LIMIT"
  shows "(\<exists>n m'. montageFrames L n m = Some m' \<and> montageDone m') \<and>
    (\<forall>seg \<in> set segments. \<forall>s. playedSegment L seg s \<longrightarrow>
      (\<exists>c. advance (nat (gs_tick s)) (ms_history seg) (ms_endTick seg) nextValue L (openSegment L seg)
        = Some (\<lparr>rp_state = s, rp_cursor = c, rp_divergedAt = None, rp_done = True\<rparr>, [])))"
  using montage_ends[OF newMontage_ok[OF assms]] openSegment_replays by blast

definition demoSegment :: MontageSegment where
  "demoSegment = \<lparr>ms_start = levelStart L1 7 3, ms_history = [OrchestratorStarted 0], ms_endTick = 0, ms_orbValues = []\<rparr>"

theorem montage_faithful_witness:
  "case newMontage LEVELS [demoSegment] of None \<Rightarrow> False
   | Some m \<Rightarrow> (\<exists>n m'. montageFrames LEVELS n m = Some m' \<and> montageDone m') \<and>
      (\<exists>c. advance 0 [OrchestratorStarted 0] 0 nextValue LEVELS (openSegment LEVELS demoSegment)
        = Some (\<lparr>rp_state = initialState (levelStart L1 7 3) LEVELS, rp_cursor = c, rp_divergedAt = None,
                 rp_done = True\<rparr>, []))"
proof -
  let ?s = "initialState (levelStart L1 7 3) LEVELS"
  obtain m where m: "newMontage LEVELS [demoSegment] = Some m" by (simp add: newMontage_def openSegment_def Let_def)
  have p: "playedSegment LEVELS demoSegment ?s"
    using segment_start[of LEVELS "levelStart L1 7 3"]
    unfolding playedSegment_def
    by (intro conjI, simp add: demoSegment_def initialState_tick)
      (rule exI[of _ "[]"], rule exI[of _ "[OrchestratorStarted 0]"],
       simp add: demoSegment_def orbQueue_def initialState_tick isInputEvent_def)
  have "0 \<le> si_elapsed (ms_start demoSegment) \<and> ms_endTick demoSegment \<le> TICK_LIMIT"
    by (simp add: demoSegment_def levelStart_def)
  then have "(\<exists>n m'. montageFrames LEVELS n m = Some m' \<and> montageDone m') \<and>
      (\<exists>c. advance (nat (gs_tick ?s)) (ms_history demoSegment) (ms_endTick demoSegment) nextValue LEVELS
        (openSegment LEVELS demoSegment) = Some (\<lparr>rp_state = ?s, rp_cursor = c, rp_divergedAt = None, rp_done = True\<rparr>, []))"
    using montage_faithful[OF m] p by (simp add: LEVELS_playable)
  then show ?thesis using m initialState_tick(1)[of "levelStart L1 7 3" LEVELS] by (simp add: demoSegment_def)
qed

section \<open>Rewinding\<close>

text \<open>
  The state a retry goes back to. In a buffer in tick order the pick is the latest state that is
  safe, at least \<open>minBack\<close> ticks before the hit and not before \<open>lowest\<close>; when there is none, it is not
  before \<open>lowest\<close> (the tick after the last retry) and no later than any state from \<open>lowest\<close> on.
\<close>

theorem pick_specified:
  assumes "pick failedAt minBack lowest b = Some s" "ascending (allStates b)"
  shows "(\<forall>t \<in> set (allStates b). eligible failedAt minBack lowest t \<longrightarrow>
      eligible failedAt minBack lowest s \<and> gs_tick t \<le> gs_tick s) \<and>
    ((\<forall>t \<in> set (allStates b). \<not> eligible failedAt minBack lowest t) \<longrightarrow>
      (\<forall>u \<in> set (allStates b). lowest \<le> gs_tick u \<longrightarrow> lowest \<le> gs_tick s \<and> gs_tick s \<le> gs_tick u))"
  using pick_eligible[OF assms] pick_fallback[OF assms] by blast

definition demoBuffer :: RewindBuffer where
  "demoBuffer = push ((initialState (levelStart L1 7 3) LEVELS)\<lparr>gs_tick := 1\<rparr>)
     (reset (initialState (levelStart L1 7 3) LEVELS) emptyBuffer)"

theorem pick_specified_witness:
  "case pick 100 20 0 demoBuffer of None \<Rightarrow> False
   | Some s \<Rightarrow> eligible 100 20 0 s \<and> (\<forall>t \<in> set (allStates demoBuffer). eligible 100 20 0 t \<longrightarrow> gs_tick t \<le> gs_tick s)"
proof -
  have a: "allStates demoBuffer = [initialState (levelStart L1 7 3) LEVELS, (initialState (levelStart L1 7 3) LEVELS)\<lparr>gs_tick := 1\<rparr>]"
    by (simp add: demoBuffer_def push_def reset_def allStates_def Let_def)
  have asc: "ascending (allStates demoBuffer)" by (simp add: a initialState_tick)
  have e: "eligible 100 20 0 (initialState (levelStart L1 7 3) LEVELS)"
    by (simp add: eligible_def isSafe_def hatSafe_def initialState_def newPlayer_def)
  obtain s where s: "pick 100 20 0 demoBuffer = Some s" using pick_None[of 100 20 0 demoBuffer] a by force
  show ?thesis using pick_specified[OF s asc] e s a by auto
qed

text \<open>
  The frames of the rewind effect: \<open>sample\<close> returns as many items as asked for or as there are,
  whichever is less, all of them from the list, and with at least two asked for it keeps the first and
  the last.
\<close>

theorem sample_specified:
  assumes "length items \<le> 2 ^ 53"
  shows "length (sample items n) = min n (length items) \<and> set (sample items n) \<subseteq> set items \<and>
    (items \<noteq> [] \<and> 1 < n \<longrightarrow> hd (sample items n) = hd items \<and> last (sample items n) = last items)"
  using sample_length sample_set[OF assms] sample_ends[OF _ _ assms] by auto

theorem sample_specified_witness:
  "length (sample [1..100 :: int] REWIND_FRAMES) = 30 \<and> hd (sample [1..100 :: int] REWIND_FRAMES) = 1 \<and>
   last (sample [1..100 :: int] REWIND_FRAMES) = 100"
  using sample_specified[of "[1..100 :: int]" REWIND_FRAMES] by (simp add: upto_rec1[of 1] upto_rec2[of _ 100])

section \<open>The crash scheduler\<close>

text \<open>The game's own source of outside values, live or from a tape, keeps the contract of a source.\<close>

definition sourceOk :: "'w Game \<Rightarrow> bool" where
  "sourceOk g = (case g_source g of Recorder \<Rightarrow> tapeValues (g_tape g) | Player p \<Rightarrow> tapeValues (py_tape p))"

interpretation game_source: source "sourceImpure d" "sourceChaos d" sourceOk for d :: "'w GameDeps"
proof
  fix s s' :: "'w Game" and v
  assume ok: "sourceOk s"
  show "sourceImpure d s = (v, s') \<Longrightarrow> 0 \<le> v \<and> v < 1 \<and> sourceOk s'"
    using ok recorder.imp_unit[of "(g_tape s, g_world s)" "dp_world d"] tape_player.imp_unit
    by (auto simp: sourceImpure_def sourceOk_def split: Source.splits prod.splits)
  show "sourceChaos d s = (v, s') \<Longrightarrow> 0 \<le> v \<and> v < 1 \<and> sourceOk s'"
    using ok recorder.cha_unit[of "(g_tape s, g_world s)" "dp_world d"] tape_player.cha_unit
    by (auto simp: sourceChaos_def sourceOk_def split: Source.splits prod.splits)
qed



end
