(* ===== verification/YamlEmit.thy ===== *)
theory YamlEmit
  imports JsText
begin

text \<open>
  \<open>web/src/lib/yaml-emit.ts\<close>: the clean-up the builders run on a configuration before it is printed as
  YAML. Printing itself (\<open>dumpYaml\<close>) is the library js-yaml and is not modelled. A value is a tree of
  what the builders put into it; object fields keep their order.
\<close>

datatype jsval =
    Undefined
  | Null
  | Bool bool
  | Num rat
  | Str string
  | Arr "jsval list"
  | Obj "(string \<times> jsval) list"

fun isEmptyContainer :: "jsval \<Rightarrow> bool" where
  "isEmptyContainer (Arr vs) = (vs = [])"
| "isEmptyContainer (Obj fs) = (fs = [])"
| "isEmptyContainer _ = False"

text \<open>The condition under which a key is deleted at once.\<close>

fun emptyValue :: "jsval \<Rightarrow> bool" where
  "emptyValue Null = True"
| "emptyValue Undefined = True"
| "emptyValue (Str s) = (trim s = [])"
| "emptyValue (Arr vs) = isEmptyContainer (Arr vs)"
| "emptyValue (Obj fs) = isEmptyContainer (Obj fs)"
| "emptyValue _ = False"

fun recursivelyRemoveEmptyValues :: "jsval \<Rightarrow> jsval" and keptFields :: "(string \<times> jsval) list \<Rightarrow> (string \<times> jsval) list" where
  "recursivelyRemoveEmptyValues (Obj fs) = Obj (keptFields fs)"
| "recursivelyRemoveEmptyValues v = v"
| "keptFields [] = []"
| "keptFields ((k, v) # fs) =
     (if emptyValue v then keptFields fs
      else (case v of
              Obj gs \<Rightarrow>
                let v' = recursivelyRemoveEmptyValues (Obj gs)
                in if isEmptyContainer v' then keptFields fs else (k, v') # keptFields fs
            | _ \<Rightarrow> (k, v) # keptFields fs))"

section \<open>Nothing empty is left\<close>

text \<open>No field of an object, at any depth below objects, is empty.\<close>

fun clean :: "jsval \<Rightarrow> bool" where
  "clean (Obj fs) = (\<forall>f \<in> set fs. \<not> emptyValue (snd f) \<and> clean (snd f))"
| "clean _ = True"

lemma pruned_clean:
  "clean (recursivelyRemoveEmptyValues v)"
  "\<forall>f \<in> set (keptFields fs). \<not> emptyValue (snd f) \<and> clean (snd f)"
  by (induction v and fs rule: recursivelyRemoveEmptyValues_keptFields.induct)
    (auto simp: Let_def split: jsval.splits)

lemma clean_fixed:
  "clean v \<Longrightarrow> recursivelyRemoveEmptyValues v = v"
  "\<forall>f \<in> set fs. \<not> emptyValue (snd f) \<and> clean (snd f) \<Longrightarrow> keptFields fs = fs"
  by (induction v and fs rule: recursivelyRemoveEmptyValues_keptFields.induct)
    (auto simp: Let_def split: jsval.splits)

text \<open>Whatever is not empty and not an object is kept as it is.\<close>

lemma kept_values:
  "(k, v) \<in> set (keptFields fs) \<Longrightarrow> \<exists>u. (k, u) \<in> set fs \<and> v = recursivelyRemoveEmptyValues u"
proof (induction fs)
  case (Cons f fs)
  obtain a w where f: "f = (a, w)" by force
  have "(k, v) \<in> set (keptFields fs) \<or> k = a \<and> v = recursivelyRemoveEmptyValues w"
    using Cons.prems unfolding f by (cases w) (auto simp: Let_def split: if_splits)
  then show ?case using Cons.IH f by (metis list.set_intros)
qed simp

lemma kept_atoms:
  assumes "(k, v) \<in> set fs" "\<not> emptyValue v" "\<forall>gs. v \<noteq> Obj gs"
  shows "(k, v) \<in> set (keptFields fs)"
  using assms by (induction fs) (auto simp: Let_def split: jsval.splits)

text \<open>
  The clean-up leaves no empty value at any depth, changes nothing on a second run, and keeps every
  number (0 included), boolean (false included), non-blank text and non-empty array of an object.
\<close>

theorem removeEmpty_clean:
  "clean (recursivelyRemoveEmptyValues v) \<and>
   recursivelyRemoveEmptyValues (recursivelyRemoveEmptyValues v) = recursivelyRemoveEmptyValues v \<and>
   (\<exists>gs. recursivelyRemoveEmptyValues (Obj fs) = Obj gs \<and>
     {(k, u) \<in> set fs. \<not> emptyValue u \<and> (\<nexists>hs. u = Obj hs)} = {(k, u) \<in> set gs. \<nexists>hs. u = Obj hs})"
proof -
  have "{(k, u) \<in> set fs. \<not> emptyValue u \<and> (\<nexists>hs. u = Obj hs)} = {(k, u) \<in> set (keptFields fs). \<nexists>hs. u = Obj hs}"
  proof (intro subset_antisym subsetI)
    fix x assume "x \<in> {(k, u) \<in> set (keptFields fs). \<nexists>hs. u = Obj hs}"
    then obtain k u where x: "x = (k, u)" "(k, u) \<in> set (keptFields fs)" "\<nexists>hs. u = Obj hs" by auto
    then obtain w where w: "(k, w) \<in> set fs" "u = recursivelyRemoveEmptyValues w" using kept_values by blast
    then have "u = w" using x(3) by (cases w) auto
    moreover have "\<not> emptyValue u" using x(2) pruned_clean(2)[of fs] by auto
    ultimately show "x \<in> {(k, u) \<in> set fs. \<not> emptyValue u \<and> (\<nexists>hs. u = Obj hs)}" using x w by auto
  qed (use kept_atoms in fastforce)
  then show ?thesis using pruned_clean(1)[of v] clean_fixed(1)[OF pruned_clean(1)] by auto
qed

end
