(* ===== verification/Validation.thy ===== *)
theory Validation
  imports JsText
begin

text \<open>
  The validators of the builders' forms (\<open>web/src/lib/validation.ts\<close>). Regular expressions are written
  out as the matchers they denote; error texts are the source's, \<open>None\<close> is \<open>null\<close>.
\<close>

section \<open>Go durations\<close>

text \<open>
  \<open>DURATION_RE\<close>: six optional groups, each digits and a unit, anchored at both ends. The matcher tries
  a group before it skips it and backtracks, as the expression does.
\<close>

definition DURATION_RE :: "string list list" where
  "DURATION_RE = [[''h''], [''m''], [''s''], [''ms''], [''us'', CHR 0xB5 # ''s''], [''ns'']]"

definition UNIT_ORDER :: "string list" where
  "UNIT_ORDER = [''h'', ''m'', ''s'', ''ms'', ''us'', CHR 0xB5 # ''s'', ''ns'']"

text \<open>\<open>\d+u\<close> at the start of \<open>s\<close>: the matched text and what follows it.\<close>

definition matchUnit :: "string \<Rightarrow> string \<Rightarrow> (string \<times> string) option" where
  "matchUnit s u =
     (let ds = takeWhile isDigit s; r = dropWhile isDigit s
      in if ds \<noteq> [] \<and> startsWith r u then Some (ds @ u, drop (length u) r) else None)"

fun matchAny :: "string \<Rightarrow> string list \<Rightarrow> (string \<times> string) option" where
  "matchAny s [] = None"
| "matchAny s (u # us) = (case matchUnit s u of None \<Rightarrow> matchAny s us | Some m \<Rightarrow> Some m)"

fun orElse :: "'a option \<Rightarrow> 'a option \<Rightarrow> 'a option" where
  "orElse (Some x) y = Some x"
| "orElse None y = y"

primrec matchGroups :: "string list list \<Rightarrow> string \<Rightarrow> string option list option" where
  "matchGroups [] s = (if s = [] then Some [] else None)"
| "matchGroups (us # groups) s =
     orElse
       (case matchAny s us of
          None \<Rightarrow> None
        | Some (m, r) \<Rightarrow> map_option (\<lambda>ms. Some m # ms) (matchGroups groups r))
       (map_option (\<lambda>ms. None # ms) (matchGroups groups s))"

definition unitOf :: "string \<Rightarrow> string" where
  "unitOf m =
     (if endsWith m ''ms'' then ''ms''
      else if endsWith m ''us'' then ''us''
      else if endsWith m (CHR 0xB5 # ''s'') then CHR 0xB5 # ''s''
      else if endsWith m ''ns'' then ''ns''
      else (case find (endsWith m) UNIT_ORDER of Some u \<Rightarrow> u | None \<Rightarrow> []))"

fun indexIn :: "string \<Rightarrow> string list \<Rightarrow> int" where
  "indexIn u [] = - 1"
| "indexIn u (x # xs) = (if x = u then 0 else let i = indexIn u xs in if i < 0 then i else i + 1)"

text \<open>The loop over the groups: every present unit must come after the last one.\<close>

fun unitsAscend :: "int \<Rightarrow> string option list \<Rightarrow> bool" where
  "unitsAscend lastIndex [] = True"
| "unitsAscend lastIndex (None # ms) = unitsAscend lastIndex ms"
| "unitsAscend lastIndex (Some m # ms) =
     (let idx = indexIn (unitOf m) UNIT_ORDER in if idx \<le> lastIndex then False else unitsAscend idx ms)"

definition validateGoDuration :: "string \<Rightarrow> bool" where
  "validateGoDuration value =
     (case matchGroups DURATION_RE value of None \<Rightarrow> False | Some ms \<Rightarrow> unitsAscend (- 1) ms)"

section \<open>Names, codes, integers\<close>

definition isNameChar :: "char \<Rightarrow> bool" where
  "isNameChar c \<longleftrightarrow> isLetter c \<or> isDigit c \<or> c = CHR ''-''"

definition validateResourceName :: "string \<Rightarrow> string option" where
  "validateResourceName value =
     (if value = [] then Some ''Name is required''
      else if CHR '' '' \<in> set value then Some ''Name cannot contain spaces''
      else if \<exists>c \<in> set value. \<not> isNameChar c then Some ''Only alphanumeric characters and hyphens are allowed''
      else if \<not> isLetter (hd value) then Some ''Name must start with a letter''
      else None)"

text \<open>\<open>^\d{1,3}(-\d{1,3})?$\<close>: the digits are matched greedily, and a dash is not a digit.\<close>

definition isCode :: "string \<Rightarrow> bool" where
  "isCode s \<longleftrightarrow> 1 \<le> length s \<and> length s \<le> 3 \<and> list_all isDigit s"

definition isCodeOrRange :: "string \<Rightarrow> bool" where
  "isCodeOrRange s \<longleftrightarrow> (case splitOn (CHR ''-'') s of [a] \<Rightarrow> isCode a | [a, b] \<Rightarrow> isCode a \<and> isCode b | _ \<Rightarrow> False)"

definition validateStatusCodes :: "string \<Rightarrow> string option" where
  "validateStatusCodes value =
     (if trim value = [] then None
      else if list_all (\<lambda>p. isCodeOrRange (trim p)) (splitOn (CHR '','') value) then None
      else Some ''Use comma-separated codes or ranges, e.g. 200,404,500-503'')"

definition requiredError :: "string \<Rightarrow> string option" where
  "requiredError value = (if trim value = [] then Some ''This field is required'' else None)"

definition isInteger :: "string \<Rightarrow> bool" where
  "isInteger s = (case s of [] \<Rightarrow> False | c # ds \<Rightarrow>
     if c = CHR ''-'' then ds \<noteq> [] \<and> list_all isDigit ds else list_all isDigit s)"

definition integerError :: "string \<Rightarrow> string option" where
  "integerError value =
     (if trim value = [] then None else if isInteger (trim value) then None else Some ''Must be an integer'')"

section \<open>What is a duration\<close>

text \<open>
  The intended language: for each group in order, nothing or digits with one of its units.
\<close>

fun durations :: "string list list \<Rightarrow> string set" where
  "durations [] = {[]}"
| "durations (us # groups) =
     durations groups \<union> {ds @ u @ r | ds u r. ds \<noteq> [] \<and> list_all isDigit ds \<and> u \<in> set us \<and> r \<in> durations groups}"

definition unitLike :: "string \<Rightarrow> bool" where
  "unitLike u \<longleftrightarrow> u \<noteq> [] \<and> \<not> isDigit (hd u)"

lemma matchUnit_iff:
  assumes "unitLike u"
  shows "matchUnit s u = Some (m, r) \<longleftrightarrow> (\<exists>ds. ds \<noteq> [] \<and> list_all isDigit ds \<and> m = ds @ u \<and> s = ds @ u @ r)"
proof
  assume "matchUnit s u = Some (m, r)"
  then have "takeWhile isDigit s \<noteq> []" "startsWith (dropWhile isDigit s) u" "m = takeWhile isDigit s @ u"
    "r = drop (length u) (dropWhile isDigit s)" by (auto simp: matchUnit_def Let_def split: if_splits)
  then show "\<exists>ds. ds \<noteq> [] \<and> list_all isDigit ds \<and> m = ds @ u \<and> s = ds @ u @ r"
    by (intro exI[of _ "takeWhile isDigit s"]) (auto simp: list_all_iff startsWith_drop dest: set_takeWhileD)
next
  assume "\<exists>ds. ds \<noteq> [] \<and> list_all isDigit ds \<and> m = ds @ u \<and> s = ds @ u @ r"
  then obtain ds where ds: "ds \<noteq> []" "list_all isDigit ds" "m = ds @ u" "s = ds @ u @ r" by blast
  obtain c cs where u: "u = c # cs" "\<not> isDigit c" using assms by (cases u) (auto simp: unitLike_def)
  have "takeWhile isDigit s = ds" "dropWhile isDigit s = u @ r"
    using ds(2) u unfolding ds(4) by (simp_all add: takeWhile_append2 dropWhile_append2 list_all_iff)
  then show "matchUnit s u = Some (m, r)" using ds(1,3) by (auto simp: matchUnit_def startsWith_append)
qed

lemma matchAny_sound:
  assumes "matchAny s us = Some (m, r)" "\<forall>u \<in> set us. unitLike u"
  shows "\<exists>ds u. ds \<noteq> [] \<and> list_all isDigit ds \<and> u \<in> set us \<and> m = ds @ u \<and> s = ds @ u @ r"
  using assms
proof (induction us)
  case (Cons u us)
  show ?case
  proof (cases "matchUnit s u")
    case None
    then show ?thesis using Cons by auto
  next
    case (Some x)
    then have "matchUnit s u = Some (m, r)" using Cons.prems(1) by (cases x) simp
    then show ?thesis using matchUnit_iff[of u s m r] Cons.prems(2) by auto
  qed
qed simp

lemma orElse_Some: "orElse x y = Some z \<longleftrightarrow> x = Some z \<or> x = None \<and> y = Some z"
  by (cases x) auto

text \<open>What a match found in a group: nothing, or digits with one of the group's units.\<close>

definition fits :: "string list \<Rightarrow> string option \<Rightarrow> bool" where
  "fits us m = (case m of None \<Rightarrow> True | Some t \<Rightarrow> \<exists>ds u. ds \<noteq> [] \<and> list_all isDigit ds \<and> u \<in> set us \<and> t = ds @ u)"

lemma matchGroups_sound:
  assumes "matchGroups groups s = Some ms" "\<forall>us \<in> set groups. \<forall>u \<in> set us. unitLike u"
  shows "s \<in> durations groups" "list_all2 fits groups ms"
proof -
  have "s \<in> durations groups \<and> list_all2 fits groups ms" using assms
  proof (induction groups arbitrary: s ms)
    case (Cons us groups)
    consider m r ms' where "matchAny s us = Some (m, r)" "matchGroups groups r = Some ms'" "ms = Some m # ms'"
      | ms' where "matchGroups groups s = Some ms'" "ms = None # ms'"
      using Cons.prems(1) by (auto simp: orElse_Some split: option.splits)
    then show ?case
    proof cases
      case 1
      obtain ds u where u: "ds \<noteq> []" "list_all isDigit ds" "u \<in> set us" "m = ds @ u" "s = ds @ u @ r"
        using matchAny_sound[OF 1(1)] Cons.prems(2) by auto
      then have f: "fits us (Some m)" by (auto simp: fits_def)
      have "r \<in> durations groups" "list_all2 fits groups ms'" using Cons.IH[OF 1(2)] Cons.prems(2) by auto
      moreover then have "s \<in> durations (us # groups)" using u by (simp only: durations.simps) blast
      ultimately show ?thesis using 1(3) f by simp
    next
      case 2
      then show ?thesis using Cons.IH[OF 2(1)] Cons.prems(2) by (auto simp: fits_def)
    qed
  qed (auto split: if_splits)
  then show "s \<in> durations groups" "list_all2 fits groups ms" by auto
qed

lemma matchAny_complete:
  assumes "ds \<noteq> []" "list_all isDigit ds" "u \<in> set us" "\<forall>u \<in> set us. unitLike u" "inj_on hd (set us)"
  shows "matchAny (ds @ u @ r) us = Some (ds @ u, r)"
  using assms(3-5)
proof (induction us)
  case (Cons v us)
  show ?case
  proof (cases "u = v")
    case True
    then have "matchUnit (ds @ u @ r) v = Some (ds @ u, r)" using matchUnit_iff[of v] Cons.prems assms(1,2) by simp
    then show ?thesis by simp
  next
    case False
    have "matchUnit (ds @ u @ r) v = None"
    proof (rule ccontr)
      assume "matchUnit (ds @ u @ r) v \<noteq> None"
      then obtain m r' where "matchUnit (ds @ u @ r) v = Some (m, r')" by auto
      then obtain ds' where d: "list_all isDigit ds'" "ds @ u @ r = ds' @ v @ r'"
        using matchUnit_iff[of v "ds @ u @ r" m r'] Cons.prems(2) by auto
      have uv: "unitLike u" "unitLike v" using Cons.prems(1,2) by auto
      obtain c cs e es where c: "u = c # cs" "v = e # es" "\<not> isDigit c" "\<not> isDigit e"
        using uv by (cases u; cases v) (auto simp: unitLike_def)
      have "takeWhile isDigit (ds @ u @ r) = ds" "takeWhile isDigit (ds' @ v @ r') = ds'"
        using assms(2) d(1) c by (simp_all add: takeWhile_append2 list_all_iff)
      then have "u @ r = v @ r'" using d(2) by auto
      then have "hd u = hd v" using c by simp
      then show False using False Cons.prems(1,3) by (auto simp: inj_on_def)
    qed
    then show ?thesis using Cons False by (auto simp: inj_on_def)
  qed
qed simp

lemma matchGroups_complete:
  assumes "s \<in> durations groups" "\<forall>us \<in> set groups. (\<forall>u \<in> set us. unitLike u) \<and> inj_on hd (set us)"
  shows "matchGroups groups s \<noteq> None"
  using assms
proof (induction groups arbitrary: s)
  case (Cons us groups)
  consider "s \<in> durations groups"
    | ds u r where "s = ds @ u @ r" "ds \<noteq> []" "list_all isDigit ds" "u \<in> set us" "r \<in> durations groups"
    using Cons.prems(1) by auto
  then show ?case
  proof cases
    case 1
    then show ?thesis using Cons.IH[OF 1] Cons.prems(2) by (cases "matchAny s us") (auto, metis orElse.elims option.distinct(1))
  next
    case 2
    then have "matchAny s us = Some (ds @ u, r)" using matchAny_complete[of ds u us r] Cons.prems(2) by simp
    then show ?thesis using Cons.IH[OF 2(5)] Cons.prems(2) by auto
  qed
qed simp

section \<open>The order check never rejects\<close>

lemma isDigit_neq: "isDigit c \<Longrightarrow> c \<noteq> CHR ''m'' \<and> c \<noteq> CHR ''u'' \<and> c \<noteq> CHR ''n'' \<and> c \<noteq> CHR 0xB5 \<and> c \<noteq> CHR ''h'' \<and> c \<noteq> CHR ''s''"
  by (auto simp: isDigit_def)

lemma unitOf_digits:
  assumes "ds \<noteq> []" "list_all isDigit ds" "u \<in> set UNIT_ORDER"
  shows "unitOf (ds @ u) = u"
proof -
  obtain ds' c where ds: "ds = ds' @ [c]" using assms(1) by (metis append_butlast_last_id)
  then have c: "isDigit c" using assms(2) by simp
  note n = isDigit_neq[OF c]
  have "u = ''h'' \<or> u = ''m'' \<or> u = ''s'' \<or> u = ''ms'' \<or> u = ''us'' \<or> u = CHR 0xB5 # ''s'' \<or> u = ''ns''"
    using assms(3) by (simp add: UNIT_ORDER_def)
  then show ?thesis unfolding ds by (elim disjE) (simp_all add: n unitOf_def endsWith_def UNIT_ORDER_def)
qed

lemma unitsAscend_fits:
  assumes "list_all2 fits DURATION_RE ms"
  shows "unitsAscend (- 1) ms"
proof -
  have idx: "indexIn (unitOf m) UNIT_ORDER = indexIn u UNIT_ORDER"
    if "ds \<noteq> []" "list_all isDigit ds" "u \<in> set UNIT_ORDER" "m = ds @ u" for ds u m
    using unitOf_digits[OF that(1-3)] that(4) by simp
  obtain a b c d e f where ms: "ms = [a, b, c, d, e, f]" "fits [''h''] a" "fits [''m''] b" "fits [''s''] c"
    "fits [''ms''] d" "fits [''us'', CHR 0xB5 # ''s''] e" "fits [''ns''] f"
    using assms by (auto simp: DURATION_RE_def list_all2_Cons1)
  have i: "\<exists>u \<in> set us. indexIn (unitOf m) UNIT_ORDER = indexIn u UNIT_ORDER"
    if "fits us (Some m)" "set us \<subseteq> set UNIT_ORDER" for us m
    using that unfolding fits_def option.case by (metis idx subsetD)
  have v: "a = Some m \<Longrightarrow> indexIn (unitOf m) UNIT_ORDER = 0" "b = Some m \<Longrightarrow> indexIn (unitOf m) UNIT_ORDER = 1"
    "c = Some m \<Longrightarrow> indexIn (unitOf m) UNIT_ORDER = 2" "d = Some m \<Longrightarrow> indexIn (unitOf m) UNIT_ORDER = 3"
    "e = Some m \<Longrightarrow> indexIn (unitOf m) UNIT_ORDER \<in> {4, 5}" "f = Some m \<Longrightarrow> indexIn (unitOf m) UNIT_ORDER = 6" for m
    using ms(2-7) i[of "[''h'']" m] i[of "[''m'']" m] i[of "[''s'']" m] i[of "[''ms'']" m]
      i[of "[''us'', CHR 0xB5 # ''s'']" m] i[of "[''ns'']" m] by (auto simp: UNIT_ORDER_def)
  show ?thesis unfolding ms(1)
    using v by (cases a; cases b; cases c; cases d; cases e; cases f) (auto simp: Let_def)
qed


section \<open>The validators decide what they mean to\<close>

lemma DURATION_RE_units: "\<forall>us \<in> set DURATION_RE. (\<forall>u \<in> set us. unitLike u) \<and> inj_on hd (set us)"
  by (simp add: DURATION_RE_def unitLike_def isDigit_def)

text \<open>
  C24. \<open>validateGoDuration\<close> accepts exactly the sequences of hours, minutes, seconds, milliseconds,
  microseconds and nanoseconds in that order, each present at most once with at least one digit; the
  ordering loop after the match never rejects what the expression accepted.
\<close>

theorem validateGoDuration_specified:
  "validateGoDuration value \<longleftrightarrow> value \<in> durations DURATION_RE"
proof
  assume "validateGoDuration value"
  then obtain ms where "matchGroups DURATION_RE value = Some ms" by (auto simp: validateGoDuration_def split: option.splits)
  then show "value \<in> durations DURATION_RE" using matchGroups_sound(1) DURATION_RE_units by blast
next
  assume "value \<in> durations DURATION_RE"
  then obtain ms where ms: "matchGroups DURATION_RE value = Some ms"
    using matchGroups_complete DURATION_RE_units by blast
  then have "list_all2 fits DURATION_RE ms" using matchGroups_sound(2) DURATION_RE_units by blast
  then show "validateGoDuration value" using ms unitsAscend_fits by (simp add: validateGoDuration_def)
qed

lemma validateResourceName_None:
  "validateResourceName s = None \<longleftrightarrow> (\<exists>c cs. s = c # cs \<and> isLetter c \<and> list_all isNameChar cs)"
proof -
  have "\<not> isNameChar CHR '' ''" by (simp add: isNameChar_def isLower_def isUpper_def isDigit_def)
  then have "(\<forall>c \<in> set s. isNameChar c) \<Longrightarrow> CHR '' '' \<notin> set s" by blast
  then show ?thesis by (cases s) (auto simp: validateResourceName_def list_all_iff isNameChar_def)
qed

end
