(* ===== verification/ResiliencyBuilder.thy ===== *)
theory ResiliencyBuilder
  imports Validation YamlEmit
begin

text \<open>
  The resiliency builder: the policy and target types (\<open>web/src/types/resiliency.ts\<close>), the reserved
  retry policies (\<open>pages/resiliency-builder/defaultPolicies.ts\<close>) and the wizard's reducer
  (\<open>pages/resiliency-builder/reducer.ts\<close>). A JavaScript record keyed by name is an association list in
  insertion order. The reducer's checks whether a map changed (\<open>mapValues\<close>, \<open>remapPolicyRefs\<close>) only spare
  React a render: the value is the same, so the maps are simply rewritten here.
\<close>

section \<open>Policies and targets\<close>

datatype RetryKind = Constant | Exponential

record Matching =
  mt_httpStatusCodes :: "string option"
  mt_grpcStatusCodes :: "string option"

record RetryPolicy =
  rt_policy :: "RetryKind option"
  rt_duration :: "string option"
  rt_maxRetries :: "int option"
  rt_maxInterval :: "string option"
  rt_matching :: "Matching option"

record CircuitBreakerPolicy =
  cb_maxRequests :: "int option"
  cb_timeout :: "string option"
  cb_trip :: "string option"
  cb_interval :: "string option"

type_synonym 'v named = "(string \<times> 'v) list"

type_synonym TimeoutPolicy = "string named"

record Policies =
  po_timeouts :: TimeoutPolicy
  po_retries :: "RetryPolicy named"
  po_circuitBreakers :: "CircuitBreakerPolicy named"

text \<open>The references of a target, or of one direction of a component target; an app target has no more.\<close>

record PolicyRefs =
  pr_timeout :: "string option"
  pr_retry :: "string option"
  pr_circuitBreaker :: "string option"

type_synonym AppTarget = PolicyRefs

record ActorTarget = PolicyRefs +
  at_circuitBreakerScope :: "string option"
  at_circuitBreakerCacheSize :: "int option"

record ComponentTarget =
  ct_outbound :: "PolicyRefs option"
  ct_inbound :: "PolicyRefs option"

record Targets =
  tg_apps :: "AppTarget named option"
  tg_actors :: "ActorTarget named option"
  tg_components :: "ComponentTarget named option"

record DaprResiliency =
  dr_apiVersion :: string
  dr_kind :: string
  dr_name :: string
  dr_namespace :: "string option"
  dr_policies :: Policies
  dr_targets :: Targets

definition defaultResiliencyConfig :: DaprResiliency where
  "defaultResiliencyConfig =
     \<lparr>dr_apiVersion = ''dapr.io/v1alpha1'', dr_kind = ''Resiliency'', dr_name = '''', dr_namespace = Some ''default'',
      dr_policies = \<lparr>po_timeouts = [], po_retries = [], po_circuitBreakers = []\<rparr>,
      dr_targets = \<lparr>tg_apps = Some [], tg_actors = Some [], tg_components = Some []\<rparr>\<rparr>"

section \<open>Reserved policies\<close>

record DefaultPolicyPreset =
  dp_label :: string
  dp_policy :: RetryKind
  dp_duration :: string
  dp_maxInterval :: string
  dp_maxRetries :: int

definition DEFAULT_DAPR_RETRY_POLICIES :: "DefaultPolicyPreset list" where
  "DEFAULT_DAPR_RETRY_POLICIES =
     [\<lparr>dp_label = ''DaprBuiltInServiceRetries'', dp_policy = Constant, dp_duration = ''1s'', dp_maxInterval = '''', dp_maxRetries = 3\<rparr>,
      \<lparr>dp_label = ''DaprBuiltInActorRetries'', dp_policy = Constant, dp_duration = ''1s'', dp_maxInterval = '''', dp_maxRetries = 3\<rparr>,
      \<lparr>dp_label = ''DaprBuiltInActorReminderRetries'', dp_policy = Exponential, dp_duration = ''15m'', dp_maxInterval = ''60s'', dp_maxRetries = 3\<rparr>,
      \<lparr>dp_label = ''DaprBuiltInInitializationRetries'', dp_policy = Exponential, dp_duration = ''10s'', dp_maxInterval = ''500ms'', dp_maxRetries = 3\<rparr>]"

definition isDefaultPolicyName :: "string \<Rightarrow> bool" where
  "isDefaultPolicyName name = startsWith name ''DaprBuiltIn''"

definition presetToRetryPolicy :: "DefaultPolicyPreset \<Rightarrow> RetryPolicy" where
  "presetToRetryPolicy p =
     \<lparr>rt_policy = Some (dp_policy p), rt_duration = Some (dp_duration p), rt_maxRetries = Some (dp_maxRetries p),
      rt_maxInterval = (if dp_maxInterval p = [] then None else Some (dp_maxInterval p)), rt_matching = None\<rparr>"

section \<open>The reducer\<close>

record ResiliencyState =
  rs_config :: DaprResiliency
  rs_activeStep :: int

datatype ResiliencyAction =
    SetName string
  | SetNamespace string
  | UpsertTimeout string string
  | RemoveTimeout string
  | RenameTimeout string string
  | UpsertRetry string RetryPolicy
  | RemoveRetry string
  | RenameRetry string string
  | UpsertCB string CircuitBreakerPolicy
  | RemoveCB string
  | RenameCB string string
  | UpsertApp string AppTarget
  | RemoveApp string
  | UpsertActor string ActorTarget
  | RemoveActor string
  | UpsertComponent string ComponentTarget
  | RemoveComponent string
  | Next
  | Back

definition resiliencyInitialState :: ResiliencyState where
  "resiliencyInitialState = \<lparr>rs_config = defaultResiliencyConfig, rs_activeStep = 0\<rparr>"

text \<open>The loop of \<open>nextName\<close>, from index \<open>i\<close>; only finitely many names are taken.\<close>

function nextNameFrom :: "string \<Rightarrow> string list \<Rightarrow> nat \<Rightarrow> string" where
  "nextNameFrom prefix existing i =
     (let candidate = prefix @ showNat i
      in if candidate \<in> set existing then nextNameFrom prefix existing (i + 1) else candidate)"
  by pat_completeness auto

lemma taken_finite: "finite {j :: nat. i \<le> j \<and> prefix @ showNat j \<in> set existing}"
proof (rule finite_subset[of _ "(\<lambda>n. readNat (drop (length prefix) n)) ` set existing"])
  show "{j. i \<le> j \<and> prefix @ showNat j \<in> set existing} \<subseteq> (\<lambda>n. readNat (drop (length prefix) n)) ` set existing"
  proof
    fix j assume "j \<in> {j. i \<le> j \<and> prefix @ showNat j \<in> set existing}"
    then show "j \<in> (\<lambda>n. readNat (drop (length prefix) n)) ` set existing"
      by (intro image_eqI[of _ _ "prefix @ showNat j"]) simp_all
  qed
qed simp

termination nextNameFrom
proof (relation "measure (\<lambda>(prefix, existing, i). card {j :: nat. i \<le> j \<and> prefix @ showNat j \<in> set existing})")
  fix prefix existing and i :: nat and candidate
  assume c: "candidate = prefix @ showNat i" "candidate \<in> set existing"
  have "{j. i + 1 \<le> j \<and> prefix @ showNat j \<in> set existing} \<subset> {j. i \<le> j \<and> prefix @ showNat j \<in> set existing}"
  proof -
    have "i \<in> {j. i \<le> j \<and> prefix @ showNat j \<in> set existing}" using c by simp
    moreover have "i \<notin> {j. i + 1 \<le> j \<and> prefix @ showNat j \<in> set existing}" by simp
    moreover have "{j. i + 1 \<le> j \<and> prefix @ showNat j \<in> set existing} \<subseteq> {j. i \<le> j \<and> prefix @ showNat j \<in> set existing}"
      by auto
    ultimately show ?thesis by blast
  qed
  then show "((prefix, existing, i + 1), (prefix, existing, i))
      \<in> measure (\<lambda>(prefix, existing, i). card {j :: nat. i \<le> j \<and> prefix @ showNat j \<in> set existing})"
    by (simp add: psubset_card_mono[OF taken_finite])
qed simp

declare nextNameFrom.simps [simp del]

definition nextName :: "string \<Rightarrow> 'v named \<Rightarrow> string" where
  "nextName prefix existing = nextNameFrom prefix (map fst existing) 1"

text \<open>The actions a dialog's save dispatches, in order.\<close>

definition upsertWithRename ::
  "string option \<Rightarrow> string \<Rightarrow> (string \<Rightarrow> string \<Rightarrow> ResiliencyAction) \<Rightarrow> ResiliencyAction \<Rightarrow> ResiliencyAction list" where
  "upsertWithRename editName name oldNameAction upsert =
     (case editName of
        Some old \<Rightarrow> if old \<noteq> [] \<and> old \<noteq> name then [oldNameAction old name, upsert] else [upsert]
      | None \<Rightarrow> [upsert])"

abbreviation withoutKey :: "'v named \<Rightarrow> string \<Rightarrow> 'v named" where
  "withoutKey m key \<equiv> dropKey key m"

definition renamedKey :: "'v named \<Rightarrow> string \<Rightarrow> string \<Rightarrow> 'v named" where
  "renamedKey m old new =
     (if old \<notin> fst ` set m then m
      else foldl (\<lambda>next (k, v). putKey (if k = old then new else k) v next) [] m)"

datatype PolicyField = TimeoutRef | RetryRef | CircuitBreakerRef

fun refOf :: "PolicyField \<Rightarrow> 'a PolicyRefs_scheme \<Rightarrow> string option" where
  "refOf TimeoutRef leg = pr_timeout leg"
| "refOf RetryRef leg = pr_retry leg"
| "refOf CircuitBreakerRef leg = pr_circuitBreaker leg"

fun setRef :: "PolicyField \<Rightarrow> string option \<Rightarrow> 'a PolicyRefs_scheme \<Rightarrow> 'a PolicyRefs_scheme" where
  "setRef TimeoutRef r leg = leg\<lparr>pr_timeout := r\<rparr>"
| "setRef RetryRef r leg = leg\<lparr>pr_retry := r\<rparr>"
| "setRef CircuitBreakerRef r leg = leg\<lparr>pr_circuitBreaker := r\<rparr>"

definition remapRef :: "PolicyField \<Rightarrow> string \<Rightarrow> string option \<Rightarrow> 'a PolicyRefs_scheme \<Rightarrow> 'a PolicyRefs_scheme" where
  "remapRef field old new leg = (if refOf field leg \<noteq> Some old then leg else setRef field new leg)"

text \<open>Deleting the circuit breaker of an actor target deletes its settings with it.\<close>

definition remapActorRef :: "PolicyField \<Rightarrow> string \<Rightarrow> string option \<Rightarrow> ActorTarget \<Rightarrow> ActorTarget" where
  "remapActorRef field old new t =
     (if refOf field t = Some old \<and> new = None \<and> field = CircuitBreakerRef
      then (remapRef field old new t)\<lparr>at_circuitBreakerScope := None, at_circuitBreakerCacheSize := None\<rparr>
      else remapRef field old new t)"

definition remapComponentRef :: "PolicyField \<Rightarrow> string \<Rightarrow> string option \<Rightarrow> ComponentTarget \<Rightarrow> ComponentTarget" where
  "remapComponentRef field old new t =
     \<lparr>ct_outbound = map_option (remapRef field old new) (ct_outbound t),
      ct_inbound = map_option (remapRef field old new) (ct_inbound t)\<rparr>"

definition mapValues :: "('v \<Rightarrow> 'v) \<Rightarrow> 'v named option \<Rightarrow> 'v named option" where
  "mapValues f m = map_option (map (map_prod id f)) m"

definition remapPolicyRefs :: "PolicyField \<Rightarrow> string \<Rightarrow> string option \<Rightarrow> Targets \<Rightarrow> Targets" where
  "remapPolicyRefs field old new t =
     \<lparr>tg_apps = mapValues (remapRef field old new) (tg_apps t),
      tg_actors = mapValues (remapActorRef field old new) (tg_actors t),
      tg_components = mapValues (remapComponentRef field old new) (tg_components t)\<rparr>"

definition setSpec :: "ResiliencyState \<Rightarrow> Policies \<Rightarrow> Targets \<Rightarrow> ResiliencyState" where
  "setSpec st pol tgt = st\<lparr>rs_config := (rs_config st)\<lparr>dr_policies := pol, dr_targets := tgt\<rparr>\<rparr>"

abbreviation orEmpty :: "'v named option \<Rightarrow> 'v named" where
  "orEmpty m \<equiv> (case m of None \<Rightarrow> [] | Some ps \<Rightarrow> ps)"

fun resiliencyReducer :: "ResiliencyState \<Rightarrow> ResiliencyAction \<Rightarrow> ResiliencyState" where
  "resiliencyReducer st (SetName name) = st\<lparr>rs_config := (rs_config st)\<lparr>dr_name := name\<rparr>\<rparr>"
| "resiliencyReducer st (SetNamespace ns) = st\<lparr>rs_config := (rs_config st)\<lparr>dr_namespace := Some ns\<rparr>\<rparr>"
| "resiliencyReducer st (UpsertTimeout name duration) =
     (let pol = dr_policies (rs_config st); tgt = dr_targets (rs_config st)
      in setSpec st (pol\<lparr>po_timeouts := putKey name duration (po_timeouts pol)\<rparr>) tgt)"
| "resiliencyReducer st (RemoveTimeout name) =
     (let pol = dr_policies (rs_config st); tgt = dr_targets (rs_config st)
      in setSpec st (pol\<lparr>po_timeouts := withoutKey (po_timeouts pol) name\<rparr>) (remapPolicyRefs TimeoutRef name None tgt))"
| "resiliencyReducer st (RenameTimeout old new) =
     (let pol = dr_policies (rs_config st); tgt = dr_targets (rs_config st)
      in setSpec st (pol\<lparr>po_timeouts := renamedKey (po_timeouts pol) old new\<rparr>) (remapPolicyRefs TimeoutRef old (Some new) tgt))"
| "resiliencyReducer st (UpsertRetry name policy) =
     (let pol = dr_policies (rs_config st); tgt = dr_targets (rs_config st)
      in setSpec st (pol\<lparr>po_retries := putKey name policy (po_retries pol)\<rparr>) tgt)"
| "resiliencyReducer st (RemoveRetry name) =
     (let pol = dr_policies (rs_config st); tgt = dr_targets (rs_config st)
      in setSpec st (pol\<lparr>po_retries := withoutKey (po_retries pol) name\<rparr>) (remapPolicyRefs RetryRef name None tgt))"
| "resiliencyReducer st (RenameRetry old new) =
     (let pol = dr_policies (rs_config st); tgt = dr_targets (rs_config st)
      in setSpec st (pol\<lparr>po_retries := renamedKey (po_retries pol) old new\<rparr>) (remapPolicyRefs RetryRef old (Some new) tgt))"
| "resiliencyReducer st (UpsertCB name policy) =
     (let pol = dr_policies (rs_config st); tgt = dr_targets (rs_config st)
      in setSpec st (pol\<lparr>po_circuitBreakers := putKey name policy (po_circuitBreakers pol)\<rparr>) tgt)"
| "resiliencyReducer st (RemoveCB name) =
     (let pol = dr_policies (rs_config st); tgt = dr_targets (rs_config st)
      in setSpec st (pol\<lparr>po_circuitBreakers := withoutKey (po_circuitBreakers pol) name\<rparr>)
           (remapPolicyRefs CircuitBreakerRef name None tgt))"
| "resiliencyReducer st (RenameCB old new) =
     (let pol = dr_policies (rs_config st); tgt = dr_targets (rs_config st)
      in setSpec st (pol\<lparr>po_circuitBreakers := renamedKey (po_circuitBreakers pol) old new\<rparr>)
           (remapPolicyRefs CircuitBreakerRef old (Some new) tgt))"
| "resiliencyReducer st (UpsertApp name target) =
     (let pol = dr_policies (rs_config st); tgt = dr_targets (rs_config st)
      in setSpec st pol (tgt\<lparr>tg_apps := Some (putKey name target (orEmpty (tg_apps tgt)))\<rparr>))"
| "resiliencyReducer st (RemoveApp name) =
     (let pol = dr_policies (rs_config st); tgt = dr_targets (rs_config st)
      in setSpec st pol (tgt\<lparr>tg_apps := Some (withoutKey (orEmpty (tg_apps tgt)) name)\<rparr>))"
| "resiliencyReducer st (UpsertActor name target) =
     (let pol = dr_policies (rs_config st); tgt = dr_targets (rs_config st)
      in setSpec st pol (tgt\<lparr>tg_actors := Some (putKey name target (orEmpty (tg_actors tgt)))\<rparr>))"
| "resiliencyReducer st (RemoveActor name) =
     (let pol = dr_policies (rs_config st); tgt = dr_targets (rs_config st)
      in setSpec st pol (tgt\<lparr>tg_actors := Some (withoutKey (orEmpty (tg_actors tgt)) name)\<rparr>))"
| "resiliencyReducer st (UpsertComponent name target) =
     (let pol = dr_policies (rs_config st); tgt = dr_targets (rs_config st)
      in setSpec st pol (tgt\<lparr>tg_components := Some (putKey name target (orEmpty (tg_components tgt)))\<rparr>))"
| "resiliencyReducer st (RemoveComponent name) =
     (let pol = dr_policies (rs_config st); tgt = dr_targets (rs_config st)
      in setSpec st pol (tgt\<lparr>tg_components := Some (withoutKey (orEmpty (tg_components tgt)) name)\<rparr>))"
| "resiliencyReducer st Next = st\<lparr>rs_activeStep := rs_activeStep st + 1\<rparr>"
| "resiliencyReducer st Back = st\<lparr>rs_activeStep := max 0 (rs_activeStep st - 1)\<rparr>"

definition countAll :: "'v named option \<Rightarrow> nat" where
  "countAll m = (case m of None \<Rightarrow> 0 | Some ps \<Rightarrow> length ps)"

definition resiliencyCanContinue :: "ResiliencyState \<Rightarrow> bool" where
  "resiliencyCanContinue st =
     (let pol = dr_policies (rs_config st); tgt = dr_targets (rs_config st) in
      if rs_activeStep st = 0 then validateResourceName (dr_name (rs_config st)) = None
      else if rs_activeStep st = 1 then
        0 < countAll (Some (po_timeouts pol)) + countAll (Some (po_retries pol)) + countAll (Some (po_circuitBreakers pol))
      else if rs_activeStep st = 2 then
        0 < countAll (tg_apps tgt) + countAll (tg_actors tgt) + countAll (tg_components tgt) \<or>
        list_ex (isDefaultPolicyName \<circ> fst) (po_retries pol)
      else True)"

section \<open>The YAML object\<close>

fun optValue :: "('a \<Rightarrow> jsval) \<Rightarrow> 'a option \<Rightarrow> jsval" where
  "optValue f None = Undefined"
| "optValue f (Some x) = f x"

definition namedValue :: "('v \<Rightarrow> jsval) \<Rightarrow> 'v named \<Rightarrow> jsval" where
  "namedValue f m = Obj (map (map_prod id f) m)"

fun kindValue :: "RetryKind \<Rightarrow> jsval" where
  "kindValue Constant = Str ''constant''"
| "kindValue Exponential = Str ''exponential''"

definition matchingValue :: "Matching \<Rightarrow> jsval" where
  "matchingValue m = Obj [(''httpStatusCodes'', optValue Str (mt_httpStatusCodes m)),
     (''grpcStatusCodes'', optValue Str (mt_grpcStatusCodes m))]"

definition retryValue :: "RetryPolicy \<Rightarrow> jsval" where
  "retryValue p = Obj [(''policy'', optValue kindValue (rt_policy p)), (''duration'', optValue Str (rt_duration p)),
     (''maxRetries'', optValue (Num \<circ> of_int) (rt_maxRetries p)), (''maxInterval'', optValue Str (rt_maxInterval p)),
     (''matching'', optValue matchingValue (rt_matching p))]"

definition circuitBreakerValue :: "CircuitBreakerPolicy \<Rightarrow> jsval" where
  "circuitBreakerValue p = Obj [(''maxRequests'', optValue (Num \<circ> of_int) (cb_maxRequests p)), (''timeout'', optValue Str (cb_timeout p)),
     (''trip'', optValue Str (cb_trip p)), (''interval'', optValue Str (cb_interval p))]"

definition refsFields :: "'a PolicyRefs_scheme \<Rightarrow> (string \<times> jsval) list" where
  "refsFields t = [(''timeout'', optValue Str (pr_timeout t)), (''retry'', optValue Str (pr_retry t)),
     (''circuitBreaker'', optValue Str (pr_circuitBreaker t))]"

definition actorValue :: "ActorTarget \<Rightarrow> jsval" where
  "actorValue t = Obj (refsFields t @ [(''circuitBreakerScope'', optValue Str (at_circuitBreakerScope t)),
     (''circuitBreakerCacheSize'', optValue (Num \<circ> of_int) (at_circuitBreakerCacheSize t))])"

definition componentValue :: "ComponentTarget \<Rightarrow> jsval" where
  "componentValue t = Obj [(''outbound'', optValue (Obj \<circ> refsFields) (ct_outbound t)),
     (''inbound'', optValue (Obj \<circ> refsFields) (ct_inbound t))]"

definition specValue :: "Policies \<Rightarrow> Targets \<Rightarrow> jsval" where
  "specValue pol tgt = Obj
     [(''policies'', Obj [(''timeouts'', namedValue Str (po_timeouts pol)), (''retries'', namedValue retryValue (po_retries pol)),
        (''circuitBreakers'', namedValue circuitBreakerValue (po_circuitBreakers pol))]),
      (''targets'', Obj [(''apps'', optValue (namedValue (Obj \<circ> refsFields)) (tg_apps tgt)),
        (''actors'', optValue (namedValue actorValue) (tg_actors tgt)),
        (''components'', optValue (namedValue componentValue) (tg_components tgt))])]"

definition assembleResiliency :: "DaprResiliency \<Rightarrow> jsval" where
  "assembleResiliency c =
     (let ns = (case dr_namespace c of None \<Rightarrow> [] | Some n \<Rightarrow> n);
          metadata = [(''name'', Str (dr_name c))] @ (if trim ns \<noteq> [] then [(''namespace'', Str ns)] else [])
      in Obj [(''apiVersion'', Str (dr_apiVersion c)), (''kind'', Str (dr_kind c)), (''metadata'', Obj metadata),
              (''spec'', recursivelyRemoveEmptyValues (specValue (dr_policies c) (dr_targets c)))])"

section \<open>Names\<close>

lemma nextNameFrom_fresh:
  "\<exists>n \<ge> i. nextNameFrom prefix existing i = prefix @ showNat n \<and> prefix @ showNat n \<notin> set existing \<and>
    (\<forall>j. i \<le> j \<and> j < n \<longrightarrow> prefix @ showNat j \<in> set existing)"
proof (induction prefix existing i rule: nextNameFrom.induct)
  case (1 prefix existing i)
  show ?case
  proof (cases "prefix @ showNat i \<in> set existing")
    case False
    then show ?thesis by (intro exI[of _ i]) (auto simp: nextNameFrom.simps[of _ _ i])
  next
    case True
    from 1[OF refl True] obtain n where n: "i + 1 \<le> n" "nextNameFrom prefix existing (i + 1) = prefix @ showNat n"
      "prefix @ showNat n \<notin> set existing" "\<forall>j. i + 1 \<le> j \<and> j < n \<longrightarrow> prefix @ showNat j \<in> set existing" by blast
    have "\<forall>j. i \<le> j \<and> j < n \<longrightarrow> prefix @ showNat j \<in> set existing"
      using n(4) True by (metis Suc_eq_plus1 le_antisym not_less_eq_eq)
    then show ?thesis using True n by (intro exI[of _ n]) (simp add: nextNameFrom.simps[of _ _ i])
  qed
qed

text \<open>
  \<open>nextName\<close> returns, and what it returns is free: a prefix with the least positive number whose name
  is not taken, so saving under it never overwrites a record.
\<close>

theorem nextName_free:
  "\<exists>n \<ge> 1. nextName prefix existing = prefix @ showNat n \<and> nextName prefix existing \<notin> fst ` set existing \<and>
    (\<lambda>j. prefix @ showNat j) ` {1..<n} \<subseteq> fst ` set existing"
proof -
  have "\<exists>n \<ge> 1. nextName prefix existing = prefix @ showNat n \<and> nextName prefix existing \<notin> fst ` set existing \<and>
    (\<forall>j. 1 \<le> j \<and> j < n \<longrightarrow> prefix @ showNat j \<in> fst ` set existing)"
    using nextNameFrom_fresh[of 1 prefix "map fst existing"] unfolding nextName_def list.set_map by metis
  then show ?thesis by (auto simp: image_subset_iff)
qed

section \<open>References stay intact\<close>

abbreviation keys :: "'v named \<Rightarrow> string set" where
  "keys m \<equiv> fst ` set m"

definition legOk :: "Policies \<Rightarrow> 'a PolicyRefs_scheme \<Rightarrow> bool" where
  "legOk pol t \<longleftrightarrow> set_option (pr_timeout t) \<subseteq> keys (po_timeouts pol) \<and> set_option (pr_retry t) \<subseteq> keys (po_retries pol) \<and>
     set_option (pr_circuitBreaker t) \<subseteq> keys (po_circuitBreakers pol)"

definition componentOk :: "Policies \<Rightarrow> ComponentTarget \<Rightarrow> bool" where
  "componentOk pol t \<longleftrightarrow> (\<forall>l \<in> set_option (ct_outbound t) \<union> set_option (ct_inbound t). legOk pol l)"

definition allValues :: "('v \<Rightarrow> bool) \<Rightarrow> 'v named option \<Rightarrow> bool" where
  "allValues p m \<longleftrightarrow> (\<forall>kv \<in> set (orEmpty m). p (snd kv))"

definition refsIntact :: "ResiliencyState \<Rightarrow> bool" where
  "refsIntact st \<longleftrightarrow> (let pol = dr_policies (rs_config st); tgt = dr_targets (rs_config st) in
     allValues (legOk pol) (tg_apps tgt) \<and> allValues (legOk pol) (tg_actors tgt) \<and> allValues (componentOk pol) (tg_components tgt))"

lemma keys_foldl_rename:
  "keys (foldl (\<lambda>next (k, v). putKey (f k) v next) acc m) = keys acc \<union> f ` keys m"
proof (induction m arbitrary: acc)
  case (Cons x m)
  show ?case by (cases x) (simp add: Cons.IH keys_putKey)
qed simp

lemma keys_renamedKey: "keys (renamedKey m old new) = (if old \<in> keys m then insert new (keys m - {old}) else keys m)"
  using keys_foldl_rename[of "\<lambda>k. if k = old then new else k" "[]" m]
  by (auto simp: renamedKey_def)

lemma allValues_mapValues: "allValues p (mapValues f m) = allValues (p \<circ> f) m"
  by (cases m) (auto simp: allValues_def mapValues_def)

lemma allValues_mono: "allValues p m \<Longrightarrow> (\<And>v. p v \<Longrightarrow> q v) \<Longrightarrow> allValues q m"
  by (auto simp: allValues_def)

lemma values_putKey: "snd ` set (putKey k v ps) \<subseteq> insert v (snd ` set ps)"
proof (induction ps)
  case (Cons p ps)
  then show ?case by (cases p) auto
qed simp

lemma allValues_image: "allValues p m \<longleftrightarrow> (\<forall>v \<in> snd ` set (orEmpty m). p v)"
  by (simp add: allValues_def)

lemma allValues_put: "allValues p m \<Longrightarrow> p v \<Longrightarrow> allValues p (Some (putKey k v (orEmpty m)))"
  unfolding allValues_image option.case using values_putKey[of k v "orEmpty m"] by blast

lemma allValues_drop: "allValues p m \<Longrightarrow> allValues p (Some (dropKey k (orEmpty m)))"
  by (auto simp: allValues_def dropKey_def)

text \<open>How the names of one kind of policy change, with the references that follow them.\<close>

definition follows :: "PolicyField \<Rightarrow> string \<Rightarrow> string option \<Rightarrow> Policies \<Rightarrow> Policies \<Rightarrow> bool" where
  "follows field old new pol pol' \<longleftrightarrow>
     (\<forall>(t :: PolicyRefs). legOk pol t \<longrightarrow> legOk pol' (remapRef field old new t)) \<and>
     (\<forall>t :: ActorTarget. legOk pol t \<longrightarrow> legOk pol' (remapRef field old new t))"

lemma remapActorRef_refs:
  "legOk pol (remapActorRef field old new t) = legOk pol (remapRef field old new t)"
  by (simp add: remapActorRef_def legOk_def)

lemma follows_intact:
  assumes "refsIntact st" "follows field old new (dr_policies (rs_config st)) pol'"
  shows "refsIntact (setSpec st pol' (remapPolicyRefs field old new (dr_targets (rs_config st))))"
proof -
  let ?pol = "dr_policies (rs_config st)"
  have a: "legOk ?pol t \<Longrightarrow> legOk pol' (remapRef field old new t)" for t :: PolicyRefs
    using assms(2) by (simp add: follows_def)
  have b: "legOk ?pol t \<Longrightarrow> legOk pol' (remapActorRef field old new t)" for t
    using assms(2) unfolding remapActorRef_refs by (simp add: follows_def)
  have c: "componentOk ?pol t \<Longrightarrow> componentOk pol' (remapComponentRef field old new t)" for t
    using a by (auto simp: componentOk_def remapComponentRef_def option.set_map)
  show ?thesis using assms(1) a b c
    by (auto simp: refsIntact_def setSpec_def remapPolicyRefs_def allValues_mapValues Let_def elim!: allValues_mono)
qed

lemma follows_remove:
  "follows TimeoutRef n None pol (pol\<lparr>po_timeouts := dropKey n (po_timeouts pol)\<rparr>)"
  "follows RetryRef n None pol (pol\<lparr>po_retries := dropKey n (po_retries pol)\<rparr>)"
  "follows CircuitBreakerRef n None pol (pol\<lparr>po_circuitBreakers := dropKey n (po_circuitBreakers pol)\<rparr>)"
  by (auto simp: follows_def legOk_def remapRef_def keys_dropKey)

lemma follows_rename:
  "follows TimeoutRef o' (Some n) pol (pol\<lparr>po_timeouts := renamedKey (po_timeouts pol) o' n\<rparr>)"
  "follows RetryRef o' (Some n) pol (pol\<lparr>po_retries := renamedKey (po_retries pol) o' n\<rparr>)"
  "follows CircuitBreakerRef o' (Some n) pol (pol\<lparr>po_circuitBreakers := renamedKey (po_circuitBreakers pol) o' n\<rparr>)"
  by (auto simp: follows_def legOk_def remapRef_def keys_renamedKey)

lemma more_policies_intact:
  assumes "refsIntact st" "keys (po_timeouts (dr_policies (rs_config st))) \<subseteq> keys (po_timeouts pol')"
    "keys (po_retries (dr_policies (rs_config st))) \<subseteq> keys (po_retries pol')"
    "keys (po_circuitBreakers (dr_policies (rs_config st))) \<subseteq> keys (po_circuitBreakers pol')"
  shows "refsIntact (setSpec st pol' (dr_targets (rs_config st)))"
proof -
  have l: "legOk (dr_policies (rs_config st)) t \<Longrightarrow> legOk pol' t" for t :: "'a PolicyRefs_scheme"
    using assms(2-4) by (auto simp: legOk_def)
  have l': "legOk (dr_policies (rs_config st)) t \<Longrightarrow> legOk pol' t" for t :: ActorTarget
    using assms(2-4) by (auto simp: legOk_def)
  have "legOk (dr_policies (rs_config st)) t \<Longrightarrow> legOk pol' t" for t :: PolicyRefs
    using assms(2-4) by (auto simp: legOk_def)
  then show ?thesis using assms(1) l'
    by (auto simp: refsIntact_def setSpec_def componentOk_def Let_def elim!: allValues_mono)
qed

text \<open>What a dialog may save: a target that names policies there are (the pickers offer no others).\<close>

fun actionOk :: "ResiliencyState \<Rightarrow> ResiliencyAction \<Rightarrow> bool" where
  "actionOk st (UpsertApp _ t) = legOk (dr_policies (rs_config st)) t"
| "actionOk st (UpsertActor _ t) = legOk (dr_policies (rs_config st)) t"
| "actionOk st (UpsertComponent _ t) = componentOk (dr_policies (rs_config st)) t"
| "actionOk st _ = True"

lemma reducer_intact:
  assumes "refsIntact st" "actionOk st a"
  shows "refsIntact (resiliencyReducer st a)"
  using assms
  by (cases a)
    (simp_all add: Let_def follows_intact follows_remove follows_rename more_policies_intact keys_putKey subset_insertI,
     simp_all add: refsIntact_def setSpec_def Let_def allValues_put allValues_drop)

text \<open>Any number of actions, each allowed where it happens.\<close>

fun allowedRun :: "ResiliencyState \<Rightarrow> ResiliencyAction list \<Rightarrow> bool" where
  "allowedRun st [] = True"
| "allowedRun st (a # as) = (actionOk st a \<and> allowedRun (resiliencyReducer st a) as)"

lemma run_intact: "refsIntact st \<Longrightarrow> allowedRun st as \<Longrightarrow> refsIntact (foldl resiliencyReducer st as)"
  by (induction as arbitrary: st) (simp_all add: reducer_intact)

lemma initial_intact: "refsIntact resiliencyInitialState"
  by (simp add: refsIntact_def resiliencyInitialState_def defaultResiliencyConfig_def allValues_def)

text \<open>
  C22. No target of the builder ever refers to a policy that is not there: whatever is added, edited,
  renamed and removed, in any order, every timeout, retry and circuit breaker an app, actor or
  component target names exists.
\<close>

theorem references_intact:
  assumes "allowedRun resiliencyInitialState as"
  shows "refsIntact (foldl resiliencyReducer resiliencyInitialState as)"
  by (rule run_intact[OF initial_intact assms])

theorem references_intact_witness:
  "refsIntact (foldl resiliencyReducer resiliencyInitialState
     [UpsertTimeout ''t1'' ''5s'', UpsertApp ''shop'' \<lparr>pr_timeout = Some ''t1'', pr_retry = None, pr_circuitBreaker = None\<rparr>,
      RenameTimeout ''t1'' ''slow'', RemoveTimeout ''slow''])"
  by (rule references_intact)
    (simp add: legOk_def resiliencyInitialState_def defaultResiliencyConfig_def setSpec_def Let_def)

section \<open>Renaming a policy\<close>

lemma map_of_foldl_rename:
  assumes "inj_on f (keys m)" "distinct (map fst m)" "keys acc \<inter> f ` keys m = {}"
  shows "map_of (foldl (\<lambda>next (k, v). putKey (f k) v next) acc m) =
    map_of acc ++ map_of (map (\<lambda>(k, v). (f k, v)) m)"
  using assms
proof (induction m arbitrary: acc)
  case (Cons x m)
  obtain k v where x: "x = (k, v)" by force
  have "f k \<notin> f ` keys m" using Cons.prems(1,2) by (auto simp: x inj_on_def)
  then have "keys (putKey (f k) v acc) \<inter> f ` keys m = {}" using Cons.prems(3) by (auto simp: x keys_putKey)
  moreover have "inj_on f (keys m)" using Cons.prems(1) by (rule inj_on_subset) auto
  moreover have "f k \<notin> dom (map_of (map (\<lambda>(k, v). (f k, v)) m))"
    using \<open>f k \<notin> f ` keys m\<close> by (auto simp: dom_map_of_conv_image_fst image_image case_prod_unfold)
  ultimately show ?case using Cons.IH[of "putKey (f k) v acc"] Cons.prems(2)
    by (auto simp: x map_of_putKey map_add_upd_left fun_eq_iff map_add_def split: option.splits)
qed simp

lemma map_of_renamedKey:
  assumes "distinct (map fst m)" "old \<in> keys m" "new \<notin> keys m"
  shows "map_of (renamedKey m old new) = (map_of m)(old := None, new := map_of m old)"
proof -
  let ?f = "\<lambda>k. if k = old then new else k"
  have inj: "inj_on ?f (keys m)" using assms(3) by (auto simp: inj_on_def)
  have "map_of (renamedKey m old new) = map_of (map (\<lambda>(k, v). (?f k, v)) m)"
    using map_of_foldl_rename[OF inj assms(1), of "[]"] assms(2) by (simp add: renamedKey_def)
  moreover have "map_of (map (\<lambda>(k, v). (?f k, v)) m) = (map_of m)(old := None, new := map_of m old)"
    using assms(1,3)
  proof (induction m)
    case (Cons x m)
    obtain k v where x: "x = (k, v)" by force
    have IH: "map_of (map (\<lambda>(k, v). (?f k, v)) m) = (map_of m)(old := None, new := map_of m old)"
      using Cons.prems by (intro Cons.IH) (auto simp: x)
    have "k \<notin> keys m" "k \<noteq> new" using Cons.prems by (auto simp: x)
    then have "map_of m k = None" by (simp add: map_of_eq_None_iff)
    then show ?case using IH \<open>k \<noteq> new\<close> by (auto simp: x fun_eq_iff)
  qed (simp add: fun_eq_iff)
  ultimately show ?thesis by simp
qed

text \<open>
  Editing a timeout under a new free name moves it: the old name is gone, the new one has the new
  duration, every other timeout is as before, and each target that used the old name uses the new one
  while all its other references stay.
\<close>

theorem edit_renames:
  assumes "distinct (map fst (po_timeouts (dr_policies (rs_config st))))" "old \<noteq> []"
    "old \<in> keys (po_timeouts (dr_policies (rs_config st)))" "name \<notin> keys (po_timeouts (dr_policies (rs_config st)))"
    "st' = foldl resiliencyReducer st (upsertWithRename (Some old) name RenameTimeout (UpsertTimeout name duration))"
  shows "map_of (po_timeouts (dr_policies (rs_config st'))) =
      (map_of (po_timeouts (dr_policies (rs_config st))))(old := None, name \<mapsto> duration) \<and>
    dr_targets (rs_config st') = remapPolicyRefs TimeoutRef old (Some name) (dr_targets (rs_config st)) \<and>
    po_retries (dr_policies (rs_config st')) = po_retries (dr_policies (rs_config st)) \<and>
    po_circuitBreakers (dr_policies (rs_config st')) = po_circuitBreakers (dr_policies (rs_config st))"
proof -
  have "old \<noteq> name" using assms(3,4) by auto
  then have st': "st' = resiliencyReducer (resiliencyReducer st (RenameTimeout old name)) (UpsertTimeout name duration)"
    using assms(2,5) by (simp add: upsertWithRename_def)
  show ?thesis unfolding st' using map_of_renamedKey[OF assms(1,3,4)]
    by (simp add: Let_def setSpec_def map_of_putKey)
qed

theorem edit_renames_witness:
  "map_of (po_timeouts (dr_policies (rs_config (foldl resiliencyReducer resiliencyInitialState
     (UpsertTimeout ''t1'' ''5s'' # upsertWithRename (Some ''t1'') ''slow'' RenameTimeout (UpsertTimeout ''slow'' ''9s''))))))
   = [''slow'' \<mapsto> ''9s'']"
proof -
  let ?st = "resiliencyReducer resiliencyInitialState (UpsertTimeout ''t1'' ''5s'')"
  have t: "po_timeouts (dr_policies (rs_config ?st)) = [(''t1'', ''5s'')]"
    by (simp add: resiliencyInitialState_def defaultResiliencyConfig_def setSpec_def Let_def)
  show ?thesis
    using edit_renames[of ?st "''t1''" "''slow''" _ "''9s''", OF _ _ _ _ refl] unfolding t by (simp add: fun_eq_iff)
qed

end
