(* ===== verification/ResiliencyDialogs.thy ===== *)
theory ResiliencyDialogs
  imports ResiliencyBuilder JsNumber
begin

text \<open>
  The dialogs of the resiliency builder (\<open>pages/resiliency-builder/policyDialogs.tsx\<close>,
  \<open>targetDialogs.tsx\<close>, \<open>StepPolicies.tsx\<close>, \<open>StepTargets.tsx\<close>): the fields a dialog opens with, when its
  Save button is enabled, what it hands to \<open>onSave\<close>, and the actions the step dispatches then. The markup
  is left out. Numbers are typed as text; a saved number is the double nearest to it.
\<close>

section \<open>Shared\<close>

definition duplicateNameError :: "string \<Rightarrow> string list \<Rightarrow> bool \<Rightarrow> string \<Rightarrow> string \<Rightarrow> string option" where
  "duplicateNameError name existingNames editing initialName what =
     (if name \<notin> set existingNames then None
      else if editing \<and> name = initialName then None
      else Some (''A '' @ what @ '' with this name already exists''))"

text \<open>\<open>Number(s)\<close> for a text \<open>integerError\<close> accepts; blank text is 0.\<close>

definition readInt :: "string \<Rightarrow> int" where
  "readInt s = (case s of [] \<Rightarrow> 0 | c # ds \<Rightarrow> if c = CHR ''-'' then - int (readNat ds) else int (readNat s))"

definition numberOfText :: "string \<Rightarrow> int" where
  "numberOfText s = \<lfloor>rnd (of_int (readInt (trim s)))\<rfloor>"

definition optionalNumber :: "string \<Rightarrow> int option" where
  "optionalNumber s = (if s = [] then None else Some (numberOfText s))"

definition nameError :: "string \<Rightarrow> string option \<Rightarrow> string option" where
  "nameError name other =
     (if name = [] then Some ''Name is required''
      else (case validateResourceName name of Some e \<Rightarrow> Some e | None \<Rightarrow> other))"

abbreviation orElseText :: "string option \<Rightarrow> string \<Rightarrow> string" where
  "orElseText x d \<equiv> (case x of Some v \<Rightarrow> v | None \<Rightarrow> d)"

section \<open>Policy dialogs\<close>

record TimeoutForm =
  tf_name :: string
  tf_duration :: string

definition openTimeout :: "string \<Rightarrow> string option \<Rightarrow> TimeoutForm" where
  "openTimeout initialName initialDuration = \<lparr>tf_name = initialName, tf_duration = orElseText initialDuration ''5s''\<rparr>"

definition timeoutCanSave :: "string list \<Rightarrow> bool \<Rightarrow> string \<Rightarrow> TimeoutForm \<Rightarrow> bool" where
  "timeoutCanSave existing editing initialName f \<longleftrightarrow>
     nameError (tf_name f) (duplicateNameError (tf_name f) existing editing initialName ''timeout policy'') = None \<and>
     tf_duration f \<noteq> [] \<and> validateGoDuration (tf_duration f)"

record RetryForm =
  rf_name :: string
  rf_policy :: RetryKind
  rf_duration :: string
  rf_maxInterval :: string
  rf_maxRetries :: string
  rf_http :: string
  rf_grpc :: string

definition openRetry :: "string \<Rightarrow> RetryPolicy option \<Rightarrow> RetryForm" where
  "openRetry initialName initial =
     (let get = (\<lambda>f d. case initial of None \<Rightarrow> d | Some p \<Rightarrow> orElseText (f p) d);
          codes = (\<lambda>f. case initial of None \<Rightarrow> [] | Some p \<Rightarrow> (case rt_matching p of None \<Rightarrow> [] | Some m \<Rightarrow> orElseText (f m) []))
      in \<lparr>rf_name = initialName,
          rf_policy = (case initial of None \<Rightarrow> Constant | Some p \<Rightarrow> (case rt_policy p of None \<Rightarrow> Constant | Some k \<Rightarrow> k)),
          rf_duration = get rt_duration ''5s'', rf_maxInterval = get rt_maxInterval ''60s'',
          rf_maxRetries = get (\<lambda>p. map_option showInt (rt_maxRetries p)) ''-1'',
          rf_http = codes mt_httpStatusCodes, rf_grpc = codes mt_grpcStatusCodes\<rparr>)"

definition retryCanSave :: "string list \<Rightarrow> bool \<Rightarrow> bool \<Rightarrow> string \<Rightarrow> RetryForm \<Rightarrow> bool" where
  "retryCanSave existing editing lockName initialName f \<longleftrightarrow>
     (let reservedErr = (if \<not> lockName \<and> isDefaultPolicyName (rf_name f)
            then Some ''Names starting with \"DaprBuiltIn\" are reserved for built-in overrides'' else None);
          other = (case reservedErr of Some e \<Rightarrow> Some e
                   | None \<Rightarrow> duplicateNameError (rf_name f) existing editing initialName ''retry policy'');
          durField = (if rf_policy f = Constant then rf_duration f else rf_maxInterval f)
      in nameError (rf_name f) other = None \<and> durField \<noteq> [] \<and> validateGoDuration durField \<and>
         integerError (rf_maxRetries f) = None \<and>
         validateStatusCodes (rf_http f) = None \<and> validateStatusCodes (rf_grpc f) = None)"

definition retrySave :: "bool \<Rightarrow> RetryForm \<Rightarrow> RetryPolicy" where
  "retrySave keepDurationForExponential f =
     (let p = \<lparr>rt_policy = Some (rf_policy f), rt_duration = None, rt_maxRetries = optionalNumber (rf_maxRetries f),
               rt_maxInterval = None,
               rt_matching = Some \<lparr>mt_httpStatusCodes = Some (rf_http f), mt_grpcStatusCodes = Some (rf_grpc f)\<rparr>\<rparr>
      in if rf_policy f = Constant then p\<lparr>rt_duration := Some (rf_duration f)\<rparr>
         else
           let p = p\<lparr>rt_maxInterval := Some (rf_maxInterval f)\<rparr>
           in if keepDurationForExponential \<and> rf_duration f \<noteq> [] then p\<lparr>rt_duration := Some (rf_duration f)\<rparr> else p)"

record CircuitBreakerForm =
  cf_name :: string
  cf_maxRequests :: string
  cf_timeout :: string
  cf_trip :: string
  cf_interval :: string

definition openCircuitBreaker :: "string \<Rightarrow> CircuitBreakerPolicy option \<Rightarrow> CircuitBreakerForm" where
  "openCircuitBreaker initialName initial =
     (let get = (\<lambda>f d. case initial of None \<Rightarrow> d | Some p \<Rightarrow> orElseText (f p) d)
      in \<lparr>cf_name = initialName, cf_maxRequests = get (\<lambda>p. map_option showInt (cb_maxRequests p)) ''1'',
          cf_timeout = get cb_timeout ''45s'', cf_trip = get cb_trip ''consecutiveFailures >= 5'',
          cf_interval = get cb_interval ''8s''\<rparr>)"

definition circuitBreakerCanSave :: "string list \<Rightarrow> bool \<Rightarrow> string \<Rightarrow> CircuitBreakerForm \<Rightarrow> bool" where
  "circuitBreakerCanSave existing editing initialName f \<longleftrightarrow>
     nameError (cf_name f) (duplicateNameError (cf_name f) existing editing initialName ''circuit breaker policy'') = None \<and>
     integerError (cf_maxRequests f) = None \<and> validateGoDuration (cf_timeout f) \<and> validateGoDuration (cf_interval f)"

definition circuitBreakerSave :: "CircuitBreakerForm \<Rightarrow> CircuitBreakerPolicy" where
  "circuitBreakerSave f =
     \<lparr>cb_maxRequests = optionalNumber (cf_maxRequests f), cb_timeout = Some (cf_timeout f), cb_trip = Some (cf_trip f),
      cb_interval = Some (cf_interval f)\<rparr>"

section \<open>Target dialogs\<close>

record PolicyNames =
  pn_timeouts :: "string list"
  pn_retries :: "string list"
  pn_circuitBreakers :: "string list"

definition policyNames :: "ResiliencyState \<Rightarrow> PolicyNames" where
  "policyNames st = (let pol = dr_policies (rs_config st) in
     \<lparr>pn_timeouts = map fst (po_timeouts pol), pn_retries = map fst (po_retries pol),
      pn_circuitBreakers = map fst (po_circuitBreakers pol)\<rparr>)"

text \<open>The three pickers; the empty text is no policy.\<close>

record RefForm =
  ff_name :: string
  ff_timeout :: string
  ff_retry :: string
  ff_cb :: string

definition openRefs :: "string option \<Rightarrow> 'a PolicyRefs_scheme option \<Rightarrow> RefForm" where
  "openRefs initialName initial =
     (let get = (\<lambda>f. case initial of None \<Rightarrow> [] | Some t \<Rightarrow> orElseText (f t) [])
      in \<lparr>ff_name = orElseText initialName [], ff_timeout = get pr_timeout, ff_retry = get pr_retry, ff_cb = get pr_circuitBreaker\<rparr>)"

definition pickersOffer :: "PolicyNames \<Rightarrow> 'a RefForm_scheme \<Rightarrow> bool" where
  "pickersOffer names f \<longleftrightarrow> ff_timeout f \<in> set ([] # pn_timeouts names) \<and> ff_retry f \<in> set ([] # pn_retries names) \<and>
     ff_cb f \<in> set ([] # pn_circuitBreakers names)"

definition targetCanSave :: "string list \<Rightarrow> bool \<Rightarrow> string \<Rightarrow> string \<Rightarrow> 'a RefForm_scheme \<Rightarrow> bool" where
  "targetCanSave existing editing initialName what f \<longleftrightarrow>
     validateResourceName (ff_name f) = None \<and>
     duplicateNameError (ff_name f) existing editing initialName what = None \<and>
     (ff_timeout f \<noteq> [] \<or> ff_retry f \<noteq> [] \<or> ff_cb f \<noteq> [])"

abbreviation picked :: "string \<Rightarrow> string option" where
  "picked s \<equiv> (if s = [] then None else Some s)"

definition legSave :: "'a RefForm_scheme \<Rightarrow> PolicyRefs" where
  "legSave f = \<lparr>pr_timeout = picked (ff_timeout f), pr_retry = picked (ff_retry f), pr_circuitBreaker = picked (ff_cb f)\<rparr>"

record ActorForm = RefForm +
  ff_scope :: string
  ff_cacheSize :: string

definition openActor :: "string option \<Rightarrow> ActorTarget option \<Rightarrow> ActorForm" where
  "openActor initialName initial =
     RefForm.extend (openRefs initialName initial)
       (ActorForm.fields (case initial of None \<Rightarrow> [] | Some t \<Rightarrow> orElseText (at_circuitBreakerScope t) [])
         (case initial of None \<Rightarrow> [] | Some t \<Rightarrow> orElseText (map_option showInt (at_circuitBreakerCacheSize t)) []))"

definition actorCanSave :: "string list \<Rightarrow> bool \<Rightarrow> string \<Rightarrow> ActorForm \<Rightarrow> bool" where
  "actorCanSave existing editing initialName f \<longleftrightarrow>
     targetCanSave existing editing initialName ''actor target'' f \<and> integerError (ff_cacheSize f) = None"

definition actorSave :: "ActorForm \<Rightarrow> ActorTarget" where
  "actorSave f =
     \<lparr>pr_timeout = picked (ff_timeout f), pr_retry = picked (ff_retry f), pr_circuitBreaker = picked (ff_cb f),
      at_circuitBreakerScope = (if ff_cb f \<noteq> [] then picked (ff_scope f) else None),
      at_circuitBreakerCacheSize = (if ff_cb f \<noteq> [] then optionalNumber (ff_cacheSize f) else None)\<rparr>"

datatype Direction = Outbound | Inbound | Both

record ComponentForm = RefForm +
  ff_direction :: Direction

definition openComponent :: "string option \<Rightarrow> ComponentTarget option \<Rightarrow> ComponentForm" where
  "openComponent initialName initial =
     (let out = (case initial of None \<Rightarrow> None | Some t \<Rightarrow> ct_outbound t);
          inb = (case initial of None \<Rightarrow> None | Some t \<Rightarrow> ct_inbound t);
          direction = (if out \<noteq> None \<and> inb \<noteq> None then Both else if inb \<noteq> None then Inbound else Outbound);
          leg = (case out of Some l \<Rightarrow> Some l | None \<Rightarrow> inb)
      in RefForm.extend (openRefs initialName leg) (ComponentForm.fields direction))"

definition componentSave :: "ComponentForm \<Rightarrow> ComponentTarget" where
  "componentSave f =
     \<lparr>ct_outbound = (if ff_direction f = Outbound \<or> ff_direction f = Both then Some (legSave f) else None),
      ct_inbound = (if ff_direction f = Inbound \<or> ff_direction f = Both then Some (legSave f) else None)\<rparr>"

section \<open>What the steps dispatch\<close>

datatype DialogSave =
    SaveTimeout "string option" TimeoutForm
  | SaveRetry "string option" RetryForm
  | SaveOverride string RetryForm
  | SaveCircuitBreaker "string option" CircuitBreakerForm
  | SaveApp "string option" RefForm
  | SaveActor "string option" ActorForm
  | SaveComponent "string option" ComponentForm

fun dispatchSave :: "DialogSave \<Rightarrow> ResiliencyAction list" where
  "dispatchSave (SaveTimeout edit f) = upsertWithRename edit (tf_name f) RenameTimeout (UpsertTimeout (tf_name f) (tf_duration f))"
| "dispatchSave (SaveRetry edit f) = upsertWithRename edit (rf_name f) RenameRetry (UpsertRetry (rf_name f) (retrySave False f))"
| "dispatchSave (SaveOverride label f) = [UpsertRetry label (retrySave True f)]"
| "dispatchSave (SaveCircuitBreaker edit f) =
     upsertWithRename edit (cf_name f) RenameCB (UpsertCB (cf_name f) (circuitBreakerSave f))"
| "dispatchSave (SaveApp edit f) =
     upsertWithRename edit (ff_name f) (\<lambda>old _. RemoveApp old) (UpsertApp (ff_name f) (legSave f))"
| "dispatchSave (SaveActor edit f) =
     upsertWithRename edit (ff_name f) (\<lambda>old _. RemoveActor old) (UpsertActor (ff_name f) (actorSave f))"
| "dispatchSave (SaveComponent edit f) =
     upsertWithRename edit (ff_name f) (\<lambda>old _. RemoveComponent old) (UpsertComponent (ff_name f) (componentSave f))"

section \<open>Numbers survive being shown and read\<close>

lemma isSpace_digit: "isDigit c \<or> c = CHR ''-'' \<Longrightarrow> \<not> isSpace c"
  by (auto simp: isDigit_def isSpace_def)

lemma trim_showInt: "trim (showInt n) = showInt n"
proof (rule trim_id)
  have d: "\<forall>c \<in> set (showInt n). isDigit c \<or> c = CHR ''-''"
    using showNat_isDigit by (auto simp: showInt_def)
  show "showInt n \<noteq> []" by (simp add: showInt_def)
  then show "\<not> isSpace (hd (showInt n))" "\<not> isSpace (last (showInt n))"
    using d isSpace_digit by (metis list.set_sel(1), metis last_in_set)
qed

lemma readInt_showInt: "readInt (showInt n) = n"
proof (cases "n < 0")
  case True
  then show ?thesis by (simp add: showInt_def readInt_def)
next
  case False
  obtain c cs where c: "showNat (nat n) = c # cs" using showNat_nonempty[of "nat n"] by (metis list.exhaust)
  then have "c \<in> set ''0123456789''" using showNat_digits[of c "nat n"] by simp
  then have "c \<noteq> CHR ''-''" by auto
  moreover have "showInt n = c # cs" using False c by (simp add: showInt_def)
  moreover have "readNat (c # cs) = nat n" using readNat_showNat[of "nat n"] c by simp
  ultimately show ?thesis using False by (simp add: readInt_def)
qed

lemma rnd_of_int_int: "\<exists>k. rnd (of_int m) = of_int k"
proof (cases "\<bar>m\<bar> \<le> 2 ^ 53")
  case True
  then show ?thesis using rnd_of_int by blast
next
  case False
  then have m: "(2 :: rat) ^ 52 \<le> \<bar>of_int m\<bar>" "of_int m \<noteq> (0 :: rat)"
    using of_int_le_iff[of "2 ^ 52" "\<bar>m\<bar>", where 'a = rat] by auto
  have "(2 :: rat) powi 52 < 2 powi (ilog2 \<bar>of_int m\<bar> + 1)" using ilog2_bounds(2)[of "\<bar>of_int m\<bar>"] m by simp
  then have "52 < ilog2 \<bar>of_int m :: rat\<bar> + 1" by (meson linorder_not_le power_int_increasing one_le_numeral)
  then have "ulp (of_int m) = of_int (2 ^ nat (ilog2 \<bar>of_int m :: rat\<bar> - 52))" by (simp add: ulp_def powi_nat)
  then show ?thesis using rnd_ulp[OF m(2)] by (metis of_int_mult)
qed

lemma numberOfText_shown: "numberOfText (showInt (numberOfText s)) = numberOfText s"
proof -
  obtain k where k: "rnd (of_int (readInt (trim s))) = of_int k" using rnd_of_int_int by blast
  then have "rnd (of_int k) = (of_int k :: rat)" using rnd_idem[of "of_int (readInt (trim s))"] by simp
  then show ?thesis by (simp add: numberOfText_def trim_showInt readInt_showInt k)
qed

lemma optionalNumber_shown: "optionalNumber (orElseText (map_option showInt (optionalNumber s)) []) = optionalNumber s"
  using numberOfText_shown by (simp add: optionalNumber_def showInt_def)

section \<open>Editing without changes changes nothing\<close>

text \<open>
  Opening a target for editing and saving it unchanged saves what was there: for an app, an actor
  (with its circuit breaker scope and cache size) and a component target in any direction.
\<close>

theorem target_dialogs_roundtrip:
  "legSave (openRefs n (Some (legSave f))) = legSave f \<and>
   actorSave (openActor n (Some (actorSave a))) = actorSave a \<and>
   componentSave (openComponent n (Some (componentSave c))) = componentSave c"
proof (intro conjI)
  show "legSave (openRefs n (Some (legSave f))) = legSave f" by (simp add: legSave_def openRefs_def)
  show "actorSave (openActor n (Some (actorSave a))) = actorSave a"
    using optionalNumber_shown[of "ff_cacheSize a"]
    by (simp add: actorSave_def openActor_def openRefs_def RefForm.defs ActorForm.defs)
  show "componentSave (openComponent n (Some (componentSave c))) = componentSave c"
    by (cases "ff_direction c")
      (simp_all add: componentSave_def openComponent_def legSave_def openRefs_def RefForm.defs ComponentForm.defs)
qed

section \<open>Dialogs keep the references intact\<close>

fun offered :: "ResiliencyState \<Rightarrow> DialogSave \<Rightarrow> bool" where
  "offered st (SaveApp _ f) = pickersOffer (policyNames st) f"
| "offered st (SaveActor _ f) = pickersOffer (policyNames st) f"
| "offered st (SaveComponent _ f) = pickersOffer (policyNames st) f"
| "offered st _ = True"

lemma offered_leg: "pickersOffer (policyNames st) f \<Longrightarrow> legOk (dr_policies (rs_config st)) (legSave f)"
  by (auto simp: pickersOffer_def policyNames_def legOk_def legSave_def Let_def)

lemma offered_actor: "pickersOffer (policyNames st) f \<Longrightarrow> legOk (dr_policies (rs_config st)) (actorSave f)"
  by (auto simp: pickersOffer_def policyNames_def legOk_def actorSave_def Let_def)

lemma offered_component: "pickersOffer (policyNames st) f \<Longrightarrow> componentOk (dr_policies (rs_config st)) (componentSave f)"
  using offered_leg[of st f] by (auto simp: componentOk_def componentSave_def)

lemma setSpec_policies [simp]: "dr_policies (rs_config (setSpec st pol tgt)) = pol"
  by (simp add: setSpec_def)

lemma dispatch_allowed:
  assumes "offered st s"
  shows "allowedRun st (dispatchSave s)"
  using assms offered_leg[of st] offered_actor[of st] offered_component[of st]
  by (cases s) (auto simp: upsertWithRename_def Let_def split: option.split)

text \<open>
  C23. Every dialog the user saves, with its pickers on policies they offer, keeps the references of the
  builder intact, whichever record it edits or renames.
\<close>

theorem dialogs_keep_references:
  assumes "refsIntact st" "offered st s"
  shows "refsIntact (foldl resiliencyReducer st (dispatchSave s))"
  by (rule run_intact[OF assms(1) dispatch_allowed[OF assms(2)]])

theorem dialogs_keep_references_witness:
  "refsIntact (foldl resiliencyReducer (resiliencyReducer resiliencyInitialState (UpsertTimeout ''t1'' ''5s''))
     (dispatchSave (SaveApp None \<lparr>ff_name = ''shop'', ff_timeout = ''t1'', ff_retry = [], ff_cb = []\<rparr>)))"
  by (rule dialogs_keep_references[OF reducer_intact[OF initial_intact]])
    (simp_all add: pickersOffer_def policyNames_def Let_def resiliencyInitialState_def defaultResiliencyConfig_def)

end
