(* ===== verification/JsParse.thy ===== *)
theory JsParse
  imports JsText JsNumber
begin

text \<open>
  \<open>Number(s)\<close> on text, as the front end uses it to read what a user typed or an API sent: the string
  numeric literals of the language, rounded to the nearest double. The rounding of subnormal numbers is
  not represented; a value too large for a double is infinite.
\<close>

datatype JsNum = NaN | PosInf | NegInf | Fin rat

definition maxDouble :: rat where
  "maxDouble = (2 ^ 53 - 1) * 2 ^ 971"

definition toDouble :: "rat \<Rightarrow> JsNum" where
  "toDouble x = (let r = rnd x in if maxDouble < r then PosInf else if r < - maxDouble then NegInf else Fin r)"

fun negateNum :: "JsNum \<Rightarrow> JsNum" where
  "negateNum NaN = NaN"
| "negateNum PosInf = NegInf"
| "negateNum NegInf = PosInf"
| "negateNum (Fin x) = Fin (- x)"

text \<open>Digits, an optional fraction and an optional exponent, with at least one digit before the exponent.\<close>

definition unsignedDecimal :: "string \<Rightarrow> JsNum" where
  "unsignedDecimal s =
     (let whole = takeWhile isDigit s; r = dropWhile isDigit s;
          frac = (case r of c # cs \<Rightarrow> if c = CHR ''.'' then takeWhile isDigit cs else [] | [] \<Rightarrow> []);
          r = (case r of c # cs \<Rightarrow> if c = CHR ''.'' then dropWhile isDigit cs else r | [] \<Rightarrow> r);
          value = (\<lambda>e. toDouble (of_nat (readNat (whole @ frac)) * 10 powi (e - int (length frac))))
      in if whole = [] \<and> frac = [] then NaN
         else (case r of
                 [] \<Rightarrow> value 0
               | c # cs \<Rightarrow>
                   if c \<noteq> CHR ''e'' \<and> c \<noteq> CHR ''E'' then NaN
                   else
                     let negative = startsWith cs ''-'';
                         ds = (case cs of d # ds \<Rightarrow> if d = CHR ''-'' \<or> d = CHR ''+'' then ds else cs | [] \<Rightarrow> [])
                     in if ds = [] \<or> \<not> list_all isDigit ds then NaN
                        else value (if negative then - int (readNat ds) else int (readNat ds))))"

definition radixDigit :: "nat \<Rightarrow> char \<Rightarrow> nat option" where
  "radixDigit radix c =
     (let l = lowerChar c;
          d = (if isDigit l then Some (digitValue l) else if isLower l then Some (of_char l - 87) else None)
      in case d of Some n \<Rightarrow> if n < radix then Some n else None | None \<Rightarrow> None)"

fun readRadix :: "nat \<Rightarrow> nat \<Rightarrow> string \<Rightarrow> nat option" where
  "readRadix radix n [] = Some n"
| "readRadix radix n (c # cs) =
     (case radixDigit radix c of None \<Rightarrow> None | Some d \<Rightarrow> readRadix radix (n * radix + d) cs)"

definition radixNumber :: "nat \<Rightarrow> string \<Rightarrow> JsNum" where
  "radixNumber radix s = (if s = [] then NaN else case readRadix radix 0 s of None \<Rightarrow> NaN | Some n \<Rightarrow> toDouble (of_nat n))"

definition unsignedNumber :: "string \<Rightarrow> JsNum" where
  "unsignedNumber s = (if s = ''Infinity'' then PosInf else unsignedDecimal s)"

definition numberOfString :: "string \<Rightarrow> JsNum" where
  "numberOfString text =
     (let s = trim text in
      case s of
        [] \<Rightarrow> Fin 0
      | c # cs \<Rightarrow>
          if c = CHR ''-'' then negateNum (unsignedNumber cs)
          else if c = CHR ''+'' then unsignedNumber cs
          else if startsWith s ''0x'' \<or> startsWith s ''0X'' then radixNumber 16 (drop 2 s)
          else if startsWith s ''0o'' \<or> startsWith s ''0O'' then radixNumber 8 (drop 2 s)
          else if startsWith s ''0b'' \<or> startsWith s ''0B'' then radixNumber 2 (drop 2 s)
          else unsignedNumber s)"

section \<open>Numbers read back\<close>

lemma takeWhile_showNat: "takeWhile isDigit (showNat n) = showNat n" "dropWhile isDigit (showNat n) = []"
  using showNat_isDigit by (auto simp: takeWhile_eq_all_conv dropWhile_eq_Nil_conv)

lemma toDouble_nat: "n \<le> 2 ^ 53 \<Longrightarrow> toDouble (of_nat n) = Fin (of_nat n)"
proof -
  assume n: "n \<le> 2 ^ 53"
  then have r: "rnd (of_nat n) = (of_nat n :: rat)" using rnd_of_int[of "int n"] by simp
  have "(of_nat n :: rat) \<le> of_nat (2 ^ 53)" using n by (simp only: of_nat_le_iff)
  moreover have "(2 :: rat) ^ 53 \<le> maxDouble" by (simp add: maxDouble_def)
  moreover have "- maxDouble < (0 :: rat)" by (simp add: maxDouble_def)
  ultimately show ?thesis using r by (simp add: toDouble_def Let_def)
qed

lemma unsignedDecimal_showNat: "n \<le> 2 ^ 53 \<Longrightarrow> unsignedDecimal (showNat n) = Fin (of_nat n)"
  by (simp add: unsignedDecimal_def takeWhile_showNat toDouble_nat Let_def)

end
