(* ===== verification/ComponentBuilder.thy ===== *)
theory ComponentBuilder
  imports Validation JsParse
begin

text \<open>
  The component builder: the catalog's schema types (\<open>web/src/types/metadata.ts\<close>), the component type
  (\<open>types/component.ts\<close>), \<open>activeFields\<close> and the grouping of \<open>hooks/useComponentSchemas.ts\<close>, the wizard's
  reducer (\<open>pages/component-builder/reducer.ts\<close>) and what the steps show and dispatch. Fields of the
  catalog that are only displayed are left out of the types. JavaScript records are association lists;
  a field named like a member of \<open>Object.prototype\<close> is outside the model.
\<close>

section \<open>The catalog\<close>

datatype FieldType = StringField | NumberField | BoolField | DurationField

record MetadataField =
  mf_name :: string
  mf_type :: "FieldType option"
  mf_required :: bool

record AuthenticationProfile =
  ap_title :: string
  ap_metadata :: "MetadataField list"

record ComponentMetadataSchema =
  cs_type :: string
  cs_name :: string
  cs_version :: string
  cs_title :: string
  cs_metadata :: "MetadataField list option"
  cs_authenticationProfiles :: "AuthenticationProfile list option"

text \<open>The loop of \<open>useComponentSchemas\<close>: the schemas of each type, in catalog order.\<close>

fun pushInto :: "string \<Rightarrow> 'v \<Rightarrow> (string \<times> 'v list) list \<Rightarrow> (string \<times> 'v list) list" where
  "pushInto k v [] = [(k, [v])]"
| "pushInto k v ((a, vs) # ps) = (if a = k then (a, vs @ [v]) # ps else (a, vs) # pushInto k v ps)"

definition byType :: "ComponentMetadataSchema list \<Rightarrow> (string \<times> ComponentMetadataSchema list) list" where
  "byType schemas = foldl (\<lambda>m s. pushInto (cs_type s) s m) [] schemas"

definition activeFields ::
  "ComponentMetadataSchema \<Rightarrow> AuthenticationProfile option \<Rightarrow> MetadataField list \<times> MetadataField list" where
  "activeFields schema authProfile =
     (let every = (case cs_metadata schema of None \<Rightarrow> [] | Some fs \<Rightarrow> fs) @
                (case authProfile of None \<Rightarrow> [] | Some p \<Rightarrow> ap_metadata p)
      in (filter mf_required every, filter (\<lambda>f. \<not> mf_required f) every))"

section \<open>The component\<close>

datatype MetaValue = TextValue string | NumberValue JsNum | BoolValue bool

record SecretRef =
  sr_name :: string
  sr_key :: string

record ComponentMetadataItem =
  cm_name :: string
  cm_value :: "MetaValue option"
  cm_secretKeyRef :: "SecretRef option"

record ComponentSpec =
  sp_apiVersion :: string
  sp_kind :: string
  sp_name :: string
  sp_namespace :: "string option"
  sp_scopes :: "string list option"
  sp_type :: string
  sp_version :: string
  sp_metadata :: "ComponentMetadataItem list"

definition defaultComponentSpec :: ComponentSpec where
  "defaultComponentSpec =
     \<lparr>sp_apiVersion = ''dapr.io/v1alpha1'', sp_kind = ''Component'', sp_name = [], sp_namespace = Some ''default'',
      sp_scopes = Some [], sp_type = [], sp_version = [], sp_metadata = []\<rparr>"

section \<open>The reducer\<close>

record ComponentBuilderState =
  bs_activeStep :: int
  bs_category :: "string option"
  bs_schema :: "ComponentMetadataSchema option"
  bs_version :: string
  bs_authProfile :: "AuthenticationProfile option"
  bs_hasAuthProfiles :: bool
  bs_name :: string
  bs_namespace :: string
  bs_values :: "(string \<times> string) list"
  bs_secretRefs :: "(string \<times> SecretRef) list"
  bs_useSecret :: "(string \<times> bool) list"
  bs_optionalAdded :: "string list"

datatype ComponentAction =
    SelectSchema ComponentMetadataSchema string
  | SetAuthProfile "AuthenticationProfile option"
  | SetComponentName string
  | SetComponentNamespace string
  | SetValue string string
  | ToggleSecret string bool
  | SetSecret string SecretRef
  | AddOptional string
  | RemoveOptional string
  | SelectCategory string
  | NextStep
  | PreviousStep

definition componentInitialState :: ComponentBuilderState where
  "componentInitialState =
     \<lparr>bs_activeStep = 0, bs_category = None, bs_schema = None, bs_version = [], bs_authProfile = None,
      bs_hasAuthProfiles = False, bs_name = [], bs_namespace = ''default'', bs_values = [], bs_secretRefs = [],
      bs_useSecret = [], bs_optionalAdded = []\<rparr>"

definition sameComponent :: "ComponentMetadataSchema \<Rightarrow> ComponentBuilderState \<Rightarrow> bool" where
  "sameComponent schema st =
     (case bs_schema st of None \<Rightarrow> False | Some s \<Rightarrow> cs_type schema = cs_type s \<and> cs_name schema = cs_name s)"

definition clearConfig :: "ComponentBuilderState \<Rightarrow> ComponentBuilderState" where
  "clearConfig st = st\<lparr>bs_authProfile := None, bs_values := [], bs_secretRefs := [], bs_useSecret := [], bs_optionalAdded := []\<rparr>"

fun componentReducer :: "ComponentBuilderState \<Rightarrow> ComponentAction \<Rightarrow> ComponentBuilderState" where
  "componentReducer st (SelectSchema schema version) =
     (let profiles = (case cs_authenticationProfiles schema of None \<Rightarrow> [] | Some ps \<Rightarrow> ps);
          st' = st\<lparr>bs_category := Some (cs_type schema), bs_schema := Some schema, bs_version := version,
                   bs_hasAuthProfiles := (0 < length profiles), bs_activeStep := 1\<rparr>
      in if sameComponent schema st then st' else clearConfig st')"
| "componentReducer st (SelectCategory category) =
     (if (case bs_schema st of None \<Rightarrow> False | Some s \<Rightarrow> category = cs_type s) then st\<lparr>bs_category := Some category\<rparr>
      else clearConfig (st\<lparr>bs_category := Some category, bs_schema := None, bs_version := [], bs_hasAuthProfiles := False\<rparr>))"
| "componentReducer st (SetAuthProfile profile) = st\<lparr>bs_authProfile := profile\<rparr>"
| "componentReducer st (SetComponentName name) = st\<lparr>bs_name := name\<rparr>"
| "componentReducer st (SetComponentNamespace ns) = st\<lparr>bs_namespace := ns\<rparr>"
| "componentReducer st (SetValue field value) = st\<lparr>bs_values := putKey field value (bs_values st)\<rparr>"
| "componentReducer st (ToggleSecret field on) = st\<lparr>bs_useSecret := putKey field on (bs_useSecret st)\<rparr>"
| "componentReducer st (SetSecret field ref) = st\<lparr>bs_secretRefs := putKey field ref (bs_secretRefs st)\<rparr>"
| "componentReducer st (AddOptional field) =
     (if field \<in> set (bs_optionalAdded st) then st else st\<lparr>bs_optionalAdded := bs_optionalAdded st @ [field]\<rparr>)"
| "componentReducer st (RemoveOptional field) =
     st\<lparr>bs_optionalAdded := filter (\<lambda>f. f \<noteq> field) (bs_optionalAdded st), bs_values := dropKey field (bs_values st),
        bs_secretRefs := dropKey field (bs_secretRefs st), bs_useSecret := dropKey field (bs_useSecret st)\<rparr>"
| "componentReducer st NextStep = st\<lparr>bs_activeStep := bs_activeStep st + 1\<rparr>"
| "componentReducer st PreviousStep = st\<lparr>bs_activeStep := max 0 (bs_activeStep st - 1)\<rparr>"

definition configureFields :: "ComponentBuilderState \<Rightarrow> MetadataField list" where
  "configureFields st =
     (case bs_schema st of
        None \<Rightarrow> []
      | Some schema \<Rightarrow>
          (case activeFields schema (bs_authProfile st) of (required, optional) \<Rightarrow>
             required @ filter (\<lambda>f. mf_name f \<in> set (bs_optionalAdded st)) optional))"

abbreviation usesSecret :: "ComponentBuilderState \<Rightarrow> string \<Rightarrow> bool" where
  "usesSecret st name \<equiv> map_of (bs_useSecret st) name = Some True"

definition plainValue :: "ComponentBuilderState \<Rightarrow> string \<Rightarrow> string" where
  "plainValue st name = trim (case map_of (bs_values st) name of Some v \<Rightarrow> v | None \<Rightarrow> [])"

definition secretOf :: "ComponentBuilderState \<Rightarrow> string \<Rightarrow> SecretRef option" where
  "secretOf st name =
     (case map_of (bs_secretRefs st) name of
        Some ref \<Rightarrow> if trim (sr_name ref) \<noteq> [] \<and> trim (sr_key ref) \<noteq> [] then Some ref else None
      | None \<Rightarrow> None)"

definition fieldSatisfied :: "ComponentBuilderState \<Rightarrow> MetadataField \<Rightarrow> bool" where
  "fieldSatisfied st f =
     (if usesSecret st (mf_name f) then secretOf st (mf_name f) \<noteq> None else plainValue st (mf_name f) \<noteq> [])"

definition namespaceError :: "string \<Rightarrow> string option" where
  "namespaceError namespace = (let ns = trim namespace in if ns = [] then None else validateResourceName ns)"

definition componentCanContinue :: "ComponentBuilderState \<Rightarrow> bool" where
  "componentCanContinue st =
     (if bs_activeStep st = 0 then bs_schema st \<noteq> None \<and> bs_version st \<noteq> []
      else if bs_activeStep st = 1 then True
      else if bs_activeStep st = 2 then
        (if validateResourceName (bs_name st) \<noteq> None then False
         else if namespaceError (bs_namespace st) \<noteq> None then False
         else list_all (fieldSatisfied st) (filter mf_required (configureFields st)))
      else True)"

text \<open>The value of a field, converted by the field's type.\<close>

definition typedValue :: "MetadataField \<Rightarrow> string \<Rightarrow> MetaValue" where
  "typedValue field raw =
     (if mf_type field = Some NumberField then
        (case numberOfString raw of NaN \<Rightarrow> TextValue raw | n \<Rightarrow> NumberValue n)
      else if mf_type field = Some BoolField then BoolValue (raw = ''true'')
      else TextValue raw)"

text \<open>What the loop of \<open>assembleComponentSpec\<close> pushes for one field.\<close>

definition metadataItem :: "ComponentBuilderState \<Rightarrow> string \<times> MetadataField \<Rightarrow> ComponentMetadataItem list" where
  "metadataItem st nf =
     (case nf of (name, field) \<Rightarrow>
      if usesSecret st name then
        (case secretOf st name of
           Some ref \<Rightarrow> [\<lparr>cm_name = name, cm_value = None, cm_secretKeyRef = Some ref\<rparr>]
         | None \<Rightarrow> [])
      else
        let raw = plainValue st name
        in if raw = [] then [] else [\<lparr>cm_name = name, cm_value = Some (typedValue field raw), cm_secretKeyRef = None\<rparr>])"

definition assembleComponentSpec :: "ComponentBuilderState \<Rightarrow> ComponentSpec" where
  "assembleComponentSpec st =
     (let byName = foldl (\<lambda>m f. putKey (mf_name f) f m) [] (configureFields st);
          scopes = (if sp_scopes defaultComponentSpec \<in> {None, Some []} then None else sp_scopes defaultComponentSpec)
      in defaultComponentSpec\<lparr>sp_name := bs_name st,
           sp_namespace := (if trim (bs_namespace st) \<noteq> [] then Some (bs_namespace st) else None),
           sp_scopes := scopes,
           sp_type := (case bs_schema st of Some s \<Rightarrow> cs_type s @ ''.'' @ cs_name s | None \<Rightarrow> []),
           sp_version := bs_version st,
           sp_metadata := concat (map (metadataItem st) byName)\<rparr>)"

section \<open>The steps\<close>

text \<open>\<open>StepType\<close>: the components listed for a category and a search text.\<close>

definition listedComponents :: "ComponentMetadataSchema list \<Rightarrow> string \<Rightarrow> string \<Rightarrow> ComponentMetadataSchema list" where
  "listedComponents schemas category q =
     (let query = toLowerCase (trim q);
          group = (case map_of (byType schemas) category of Some g \<Rightarrow> g | None \<Rightarrow> [])
      in filter (\<lambda>s. query = [] \<or> includesText (toLowerCase (cs_title s)) query \<or>
                     includesText (toLowerCase (cs_name s)) query) group)"

text \<open>\<open>StepAuth\<close>: the profile a title selects; \<open>StepConfigure\<close>: the optional fields that can still be added.\<close>

definition profileNamed :: "ComponentBuilderState \<Rightarrow> string \<Rightarrow> AuthenticationProfile option" where
  "profileNamed st title =
     (case bs_schema st of
        None \<Rightarrow> None
      | Some s \<Rightarrow> find (\<lambda>p. ap_title p = title) (case cs_authenticationProfiles s of None \<Rightarrow> [] | Some ps \<Rightarrow> ps))"

definition addableFields :: "ComponentBuilderState \<Rightarrow> MetadataField list" where
  "addableFields st =
     (case bs_schema st of
        None \<Rightarrow> []
      | Some schema \<Rightarrow> filter (\<lambda>f. mf_name f \<notin> set (bs_optionalAdded st)) (snd (activeFields schema (bs_authProfile st))))"

section \<open>Grouping\<close>

lemma map_of_pushInto:
  "map_of (pushInto k v m) = (map_of m)(k \<mapsto> (case map_of m k of None \<Rightarrow> [] | Some vs \<Rightarrow> vs) @ [v])"
  by (induction m) (auto simp: fun_eq_iff)

lemma byType_foldl:
  "map_of (foldl (\<lambda>m s. pushInto (cs_type s) s m) acc schemas) t =
    (if \<exists>s \<in> set schemas. cs_type s = t
     then Some ((case map_of acc t of None \<Rightarrow> [] | Some vs \<Rightarrow> vs) @ filter (\<lambda>s. cs_type s = t) schemas)
     else map_of acc t)"
  by (induction schemas arbitrary: acc) (auto simp: map_of_pushInto filter_empty_conv)

lemma byType_lookup:
  "(case map_of (byType schemas) t of Some g \<Rightarrow> g | None \<Rightarrow> []) = filter (\<lambda>s. cs_type s = t) schemas"
  using byType_foldl[of "[]" schemas t] by (auto simp: byType_def filter_empty_conv)


section \<open>The assembled component\<close>

definition fieldMap :: "MetadataField list \<Rightarrow> (string \<times> MetadataField) list" where
  "fieldMap fs = foldl (\<lambda>m f. putKey (mf_name f) f m) [] fs"

lemma fieldMap_foldl:
  assumes "distinct (map fst m)"
  shows "distinct (map fst (foldl (\<lambda>m f. putKey (mf_name f) f m) m fs))"
    "fst ` set (foldl (\<lambda>m f. putKey (mf_name f) f m) m fs) = fst ` set m \<union> mf_name ` set fs"
  using assms by (induction fs arbitrary: m) (auto simp: distinct_putKey keys_putKey)

lemma fieldMap_names: "distinct (map fst (fieldMap fs))" "fst ` set (fieldMap fs) = mf_name ` set fs"
  using fieldMap_foldl[of "[]" fs] by (simp_all add: fieldMap_def)

lemma sp_metadata_assemble:
  "sp_metadata (assembleComponentSpec st) = concat (map (metadataItem st) (fieldMap (configureFields st)))"
  by (simp add: assembleComponentSpec_def fieldMap_def Let_def)

lemma metadataItem_names: "metadataItem st (n, f) = [] \<or> (\<exists>i. metadataItem st (n, f) = [i] \<and> cm_name i = n)"
  by (auto simp: metadataItem_def Let_def split: option.splits)

lemma metadataItem_sound:
  assumes "i \<in> set (metadataItem st (n, f))"
  shows "cm_name i = n"
    "if usesSecret st n then cm_value i = None \<and> cm_secretKeyRef i = secretOf st n \<and> secretOf st n \<noteq> None
     else cm_value i = Some (typedValue f (plainValue st n)) \<and> cm_secretKeyRef i = None \<and> plainValue st n \<noteq> []"
  using assms by (auto simp: metadataItem_def Let_def split: option.splits if_splits)

lemma distinct_items:
  assumes "distinct (map fst nfs)"
  shows "distinct (map cm_name (concat (map (metadataItem st) nfs)))"
    "set (map cm_name (concat (map (metadataItem st) nfs))) \<subseteq> fst ` set nfs"
proof -
  have "distinct (map cm_name (concat (map (metadataItem st) nfs))) \<and>
    set (map cm_name (concat (map (metadataItem st) nfs))) \<subseteq> fst ` set nfs" using assms
  proof (induction nfs)
    case (Cons p nfs)
    obtain n f where p: "p = (n, f)" by (cases p)
    have "metadataItem st p = [] \<or> (\<exists>i. metadataItem st p = [i] \<and> cm_name i = n)" unfolding p by (rule metadataItem_names)
    moreover have "n \<notin> cm_name ` set (concat (map (metadataItem st) nfs))" using Cons p by auto
    ultimately show ?case using Cons p by auto
  qed simp
  then show "distinct (map cm_name (concat (map (metadataItem st) nfs)))"
    "set (map cm_name (concat (map (metadataItem st) nfs))) \<subseteq> fst ` set nfs" by auto
qed

lemma satisfied_item: "fieldSatisfied st f \<Longrightarrow> \<exists>i. metadataItem st (mf_name f, g) = [i] \<and> cm_name i = mf_name f"
  by (auto simp: fieldSatisfied_def metadataItem_def Let_def split: if_splits)

lemma satisfied_assembled:
  assumes "f \<in> set (configureFields st)" "fieldSatisfied st f"
  shows "\<exists>i \<in> set (sp_metadata (assembleComponentSpec st)). cm_name i = mf_name f"
proof -
  obtain g where g: "(mf_name f, g) \<in> set (fieldMap (configureFields st))"
    using assms(1) fieldMap_names(2)[of "configureFields st"] by (metis (no_types, lifting) image_iff prod.collapse)
  obtain i where "metadataItem st (mf_name f, g) = [i]" "cm_name i = mf_name f" using satisfied_item[OF assms(2)] by blast
  then show ?thesis unfolding sp_metadata_assemble using g by force
qed

lemma item_origin:
  assumes "i \<in> set (sp_metadata (assembleComponentSpec st))"
  shows "cm_name i \<in> mf_name ` set (configureFields st)"
    "if usesSecret st (cm_name i) then cm_value i = None \<and> cm_secretKeyRef i = secretOf st (cm_name i) \<and> cm_secretKeyRef i \<noteq> None
     else cm_value i \<noteq> None \<and> cm_secretKeyRef i = None"
proof -
  obtain n f where nf: "(n, f) \<in> set (fieldMap (configureFields st))" "i \<in> set (metadataItem st (n, f))"
    using assms unfolding sp_metadata_assemble by auto
  then have "n \<in> mf_name ` set (configureFields st)" using fieldMap_names(2)[of "configureFields st"] by force
  then show "cm_name i \<in> mf_name ` set (configureFields st)" using metadataItem_sound(1)[OF nf(2)] by simp
  show "if usesSecret st (cm_name i) then cm_value i = None \<and> cm_secretKeyRef i = secretOf st (cm_name i) \<and> cm_secretKeyRef i \<noteq> None
     else cm_value i \<noteq> None \<and> cm_secretKeyRef i = None"
    using metadataItem_sound[OF nf(2)] by (auto split: if_splits)
qed

definition demoField :: "string \<Rightarrow> bool \<Rightarrow> MetadataField" where
  "demoField name required = \<lparr>mf_name = name, mf_type = Some StringField, mf_required = required\<rparr>"

definition demoSchema :: "string \<Rightarrow> ComponentMetadataSchema" where
  "demoSchema name = \<lparr>cs_type = ''state'', cs_name = name, cs_version = ''v1'', cs_title = name,
     cs_metadata = Some [demoField ''host'' True, demoField ''ttl'' False], cs_authenticationProfiles = None\<rparr>"

definition demoBuilder :: ComponentBuilderState where
  "demoBuilder = foldl componentReducer componentInitialState
     [SelectSchema (demoSchema ''redis'') ''v1'', NextStep, SetComponentName ''store'', ToggleSecret ''host'' True,
      SetSecret ''host'' \<lparr>sr_name = ''vault'', sr_key = ''h''\<rparr>, AddOptional ''ttl'']"

lemma demoBuilder_simps:
  "demoBuilder = \<lparr>bs_activeStep = 2, bs_category = Some ''state'', bs_schema = Some (demoSchema ''redis''), bs_version = ''v1'',
     bs_authProfile = None, bs_hasAuthProfiles = False, bs_name = ''store'', bs_namespace = ''default'', bs_values = [],
     bs_secretRefs = [(''host'', \<lparr>sr_name = ''vault'', sr_key = ''h''\<rparr>)], bs_useSecret = [(''host'', True)],
     bs_optionalAdded = [''ttl'']\<rparr>"
  by (simp add: demoBuilder_def componentInitialState_def demoSchema_def sameComponent_def clearConfig_def)

lemma demoBuilder_continues: "componentCanContinue demoBuilder" "bs_activeStep demoBuilder = 2"
  by (simp_all add: demoBuilder_simps componentCanContinue_def validateResourceName_def namespaceError_def isNameChar_def
      isLower_def isUpper_def trim_def trimStart_def isSpace_def configureFields_def activeFields_def demoSchema_def demoField_def
      fieldSatisfied_def secretOf_def Let_def)

text \<open>
  C25. Once the Configure step lets the user continue, the assembled component has a valid name, exactly
  one metadata item for every required field, none for a field that is not shown, no name twice, and
  every item carries either the secret reference or a plain value according to the field's toggle, so
  that the text typed before a field was switched to a secret is never written out.
\<close>

theorem component_assembled:
  assumes "componentCanContinue st" "bs_activeStep st = 2"
  shows "validateResourceName (sp_name (assembleComponentSpec st)) = None \<and>
    distinct (map cm_name (sp_metadata (assembleComponentSpec st))) \<and>
    (\<forall>f \<in> set (configureFields st). mf_required f \<longrightarrow> mf_name f \<in> cm_name ` set (sp_metadata (assembleComponentSpec st))) \<and>
    (\<forall>i \<in> set (sp_metadata (assembleComponentSpec st)). cm_name i \<in> mf_name ` set (configureFields st) \<and>
      (if usesSecret st (cm_name i)
       then cm_value i = None \<and> cm_secretKeyRef i = secretOf st (cm_name i) \<and> cm_secretKeyRef i \<noteq> None
       else cm_value i \<noteq> None \<and> cm_secretKeyRef i = None))"
proof -
  have c: "validateResourceName (bs_name st) = None" "list_all (fieldSatisfied st) (filter mf_required (configureFields st))"
    using assms by (auto simp: componentCanContinue_def split: if_splits)
  have "mf_name f \<in> cm_name ` set (sp_metadata (assembleComponentSpec st))" if "f \<in> set (configureFields st)" "mf_required f" for f
  proof -
    have "fieldSatisfied st f" using c(2) that by (simp add: list_all_iff)
    from satisfied_assembled[OF that(1) this] show ?thesis by (metis imageI)
  qed
  moreover have "distinct (map cm_name (sp_metadata (assembleComponentSpec st)))"
    unfolding sp_metadata_assemble by (rule distinct_items(1)) (rule fieldMap_names(1))
  moreover have "validateResourceName (sp_name (assembleComponentSpec st)) = None"
    using c(1) by (simp add: assembleComponentSpec_def Let_def)
  ultimately show ?thesis using item_origin by blast
qed

theorem component_assembled_witness:
  "distinct (map cm_name (sp_metadata (assembleComponentSpec demoBuilder))) \<and>
   ''host'' \<in> cm_name ` set (sp_metadata (assembleComponentSpec demoBuilder))"
proof -
  have "demoField ''host'' True \<in> set (configureFields demoBuilder)" "mf_required (demoField ''host'' True)"
    "mf_name (demoField ''host'' True) = ''host''"
    by (simp_all add: demoBuilder_simps configureFields_def activeFields_def demoSchema_def demoField_def Let_def)
  then show ?thesis using component_assembled[OF demoBuilder_continues] by metis
qed

section \<open>Switching the component\<close>

text \<open>What the wizard knows about the chosen component, and what the identity fields hold apart from it.\<close>

definition componentPart where
  "componentPart st = (bs_category st, bs_schema st, bs_version st, bs_authProfile st, bs_hasAuthProfiles st,
     bs_values st, bs_secretRefs st, bs_useSecret st, bs_optionalAdded st)"

lemma componentReducer_part:
  assumes "componentPart st = componentPart st'"
  shows "componentPart (componentReducer st a) = componentPart (componentReducer st' a)"
  using assms by (cases a) (auto simp: componentPart_def sameComponent_def clearConfig_def Let_def split: option.splits)

lemma foldl_part:
  assumes "componentPart st = componentPart st'"
  shows "componentPart (foldl componentReducer st as) = componentPart (foldl componentReducer st' as)"
  using assms
proof (induction as arbitrary: st st')
  case (Cons a as)
  show ?case using Cons.IH[OF componentReducer_part[OF Cons.prems]] by simp
qed simp

lemma part_fields:
  assumes "componentPart st = componentPart st'"
  shows "sp_metadata (assembleComponentSpec st) = sp_metadata (assembleComponentSpec st')"
    "sp_type (assembleComponentSpec st) = sp_type (assembleComponentSpec st')"
    "sp_version (assembleComponentSpec st) = sp_version (assembleComponentSpec st')"
proof -
  have e: "bs_schema st = bs_schema st'" "bs_version st = bs_version st'" "bs_authProfile st = bs_authProfile st'"
    "bs_values st = bs_values st'" "bs_secretRefs st = bs_secretRefs st'" "bs_useSecret st = bs_useSecret st'"
    "bs_optionalAdded st = bs_optionalAdded st'"
    using assms by (simp_all add: componentPart_def)
  have "configureFields st = configureFields st'" "metadataItem st = metadataItem st'"
    unfolding configureFields_def metadataItem_def secretOf_def plainValue_def fun_eq_iff e by simp_all
  with e(1,2) show "sp_metadata (assembleComponentSpec st) = sp_metadata (assembleComponentSpec st')"
    "sp_type (assembleComponentSpec st) = sp_type (assembleComponentSpec st')"
    "sp_version (assembleComponentSpec st) = sp_version (assembleComponentSpec st')"
    by (simp_all add: assembleComponentSpec_def Let_def)
qed

text \<open>
  Choosing another component forgets the first one for good: whatever was typed, made secret or
  added before, and whatever the user does after, the assembled metadata, type and version are those
  of a wizard in which the component was chosen first.
\<close>

theorem switch_forgets:
  assumes "\<not> sameComponent schema st"
  shows "let switched = foldl componentReducer (componentReducer st (SelectSchema schema version)) as;
             fresh = foldl componentReducer (componentReducer componentInitialState (SelectSchema schema version)) as
    in sp_metadata (assembleComponentSpec switched) = sp_metadata (assembleComponentSpec fresh) \<and>
       sp_type (assembleComponentSpec switched) = sp_type (assembleComponentSpec fresh) \<and>
       sp_version (assembleComponentSpec switched) = sp_version (assembleComponentSpec fresh)"
proof -
  have "componentPart (componentReducer st (SelectSchema schema version)) =
    componentPart (componentReducer componentInitialState (SelectSchema schema version))"
    using assms by (simp add: componentPart_def sameComponent_def clearConfig_def componentInitialState_def Let_def)
  from part_fields[OF foldl_part[OF this]] show ?thesis by (simp add: Let_def)
qed

theorem switch_forgets_witness:
  "sp_metadata (assembleComponentSpec (foldl componentReducer (componentReducer demoBuilder (SelectSchema (demoSchema ''etcd'') ''v2''))
      [SetValue ''host'' ''a''])) = [\<lparr>cm_name = ''host'', cm_value = Some (TextValue ''a''), cm_secretKeyRef = None\<rparr>]"
proof -
  have "\<not> sameComponent (demoSchema ''etcd'') demoBuilder" by (simp add: sameComponent_def demoBuilder_simps demoSchema_def)
  from switch_forgets[OF this, of "''v2''" "[SetValue ''host'' ''a'']"] show ?thesis
    by (simp add: Let_def sp_metadata_assemble componentInitialState_def demoSchema_def demoField_def sameComponent_def clearConfig_def
        configureFields_def activeFields_def fieldMap_def metadataItem_def plainValue_def trim_def trimStart_def isSpace_def typedValue_def)
qed

end
