(* ===== verification/LogView.thy ===== *)
theory LogView
  imports JsText "HOL-Library.Option_ord" "HOL-Library.Product_Lexorder" "HOL-Library.Multiset"
begin

text \<open>
  The log viewers: \<open>lib/loglevel.ts\<close>, \<open>lib/logtime.ts\<close>, \<open>hooks/useLogStream.ts\<close>,
  \<open>hooks/useFollowScroll.ts\<close> and the logic of \<open>pages/Logs.tsx\<close>. Regular expressions are the matchers they
  denote: a search tries each position from the left, with the character before it for \<open>\b\<close>. React
  state is a record and every callback a function on it.
\<close>

section \<open>Searching with word boundaries\<close>

definition isWord :: "char \<Rightarrow> bool" where
  "isWord c \<longleftrightarrow> isLetter c \<or> isDigit c \<or> c = CHR ''_''"

definition wordAt :: "char option \<Rightarrow> bool" where
  "wordAt c = (case c of None \<Rightarrow> False | Some d \<Rightarrow> isWord d)"

definition headChar :: "string \<Rightarrow> char option" where
  "headChar s = (case s of [] \<Rightarrow> None | c # _ \<Rightarrow> Some c)"

text \<open>\<open>\b\<close> between the character before and the rest of the text.\<close>

definition boundary :: "char option \<Rightarrow> string \<Rightarrow> bool" where
  "boundary before s \<longleftrightarrow> wordAt before \<noteq> wordAt (headChar s)"

text \<open>The leftmost match of \<open>m\<close>, which sees the character before the position and the rest.\<close>

fun searchText :: "(char option \<Rightarrow> string \<Rightarrow> 'a option) \<Rightarrow> char option \<Rightarrow> string \<Rightarrow> 'a option" where
  "searchText m before [] = m before []"
| "searchText m before (c # s) = (case m before (c # s) of Some x \<Rightarrow> Some x | None \<Rightarrow> searchText m (Some c) s)"

text \<open>One of several words, tried in order, with a boundary behind it.\<close>

definition wordMatch :: "string list \<Rightarrow> string \<Rightarrow> string option" where
  "wordMatch ws s = find (\<lambda>w. startsWith s w \<and> boundary (Some (last w)) (drop (length w) s)) ws"

section \<open>Log levels\<close>

datatype LogLevel = LError | LWarn | LInfo | LDebug

record LogLine =
  ll_seq :: nat
  ll_text :: string
  ll_level :: "LogLevel option"

definition logfmtLevels :: "string list" where
  "logfmtLevels = [''error'', ''warn'', ''warning'', ''info'', ''debug'']"

definition logfmtMatch :: "char option \<Rightarrow> string \<Rightarrow> string option" where
  "logfmtMatch before s =
     (if boundary before s \<and> startsWith s ''level='' then wordMatch logfmtLevels (drop 6 s) else None)"

definition levelTokens :: "string list" where
  "levelTokens = [''erro'', ''error'', ''fata'', ''warn'', ''info'', ''debu'', ''debug'']"

definition tokenMatch :: "char option \<Rightarrow> string \<Rightarrow> string option" where
  "tokenMatch before s = (if boundary before s then wordMatch levelTokens s else None)"

definition levelOfWord :: "string \<Rightarrow> LogLevel option" where
  "levelOfWord v =
     (if v \<in> {''error'', ''erro'', ''fata''} then Some LError
      else if v \<in> {''warn'', ''warning''} then Some LWarn
      else if v = ''info'' then Some LInfo
      else if v \<in> {''debu'', ''debug''} then Some LDebug
      else None)"

definition parseLogLevel :: "string \<Rightarrow> LogLevel option" where
  "parseLogLevel line =
     (let lower = toLowerCase line in
      case searchText logfmtMatch None lower of
        Some v \<Rightarrow> levelOfWord v
      | None \<Rightarrow> (case searchText tokenMatch None lower of Some v \<Rightarrow> levelOfWord v | None \<Rightarrow> None))"

section \<open>Log times\<close>

text \<open>\<open>\d{n}\<close> followed by the literal \<open>sep\<close>: the digits and the rest.\<close>

definition digitsThen :: "nat \<Rightarrow> string \<Rightarrow> string \<Rightarrow> (string \<times> string) option" where
  "digitsThen n sep s =
     (if n \<le> length s \<and> list_all isDigit (take n s) \<and> startsWith (drop n s) sep
      then Some (take n s, drop (n + length sep) s) else None)"

text \<open>\<open>(\d{2}):(\d{2}):(\d{2})(?:\.(\d+))?\<close>: hours, minutes, seconds, the fraction and the rest.\<close>

definition clockMatch :: "string \<Rightarrow> (string \<times> string \<times> string \<times> string option \<times> string) option" where
  "clockMatch s =
     do { (h, s) \<leftarrow> digitsThen 2 '':'' s; (m, s) \<leftarrow> digitsThen 2 '':'' s; (sec, s) \<leftarrow> digitsThen 2 [] s;
          let fraction = takeWhile isDigit (drop 1 s);
          Some (if startsWith s ''.'' \<and> fraction \<noteq> [] then (h, m, sec, Some fraction, dropWhile isDigit (drop 1 s))
                else (h, m, sec, None, s)) }"

definition isoMatch :: "char option \<Rightarrow> string \<Rightarrow> (string \<times> string \<times> string \<times> string option \<times> string) option" where
  "isoMatch before s =
     do { (_, s) \<leftarrow> digitsThen 4 ''-'' s; (_, s) \<leftarrow> digitsThen 2 ''-'' s; (_, s) \<leftarrow> digitsThen 2 ''T'' s; clockMatch s }"

definition hmsMatch :: "char option \<Rightarrow> string \<Rightarrow> (string \<times> string \<times> string \<times> string option \<times> string) option" where
  "hmsMatch before s = (if boundary before s then clockMatch s else None)"

text \<open>\<open>fraction.slice(0, 3).padEnd(3, '0')\<close>.\<close>

definition millisOf :: "string option \<Rightarrow> nat" where
  "millisOf fraction = (case fraction of None \<Rightarrow> 0 | Some f \<Rightarrow> readNat (take 3 f @ replicate (3 - length f) CHR ''0''))"

fun clockValue :: "string \<times> string \<times> string \<times> string option \<times> string \<Rightarrow> nat" where
  "clockValue (h, m, s, fraction, _) = readNat h * 3600000 + readNat m * 60000 + readNat s * 1000 + millisOf fraction"

text \<open>\<open>None\<close> is \<open>Infinity\<close>: no time.\<close>

definition parseLogTime :: "string \<Rightarrow> nat option" where
  "parseLogTime text =
     (case searchText isoMatch None text of
        Some t \<Rightarrow> Some (clockValue t)
      | None \<Rightarrow> map_option clockValue (searchText hmsMatch None text))"

section \<open>The stream\<close>

datatype LogStreamStatus = Idle | Connecting | Open | Error | Closed

record LogStream =
  st_lines :: "LogLine list"
  st_revision :: nat
  st_status :: LogStreamStatus
  st_seq :: nat

definition newStream :: LogStream where
  "newStream = \<lparr>st_lines = [], st_revision = 0, st_status = Idle, st_seq = 0\<rparr>"

text \<open>
  What happens to a stream: the effect runs for a new path (empty or not), the event source opens,
  delivers, or fails (with \<open>readyState\<close> closed or not), and the user clears the view.
\<close>

datatype StreamEvent = SetPath string | Opened | Message string | Failed bool | ClearLines

text \<open>\<open>next.length > cap ? next.slice(next.length - cap) : next\<close>.\<close>

definition capped :: "nat \<Rightarrow> 'a list \<Rightarrow> 'a list" where
  "capped cap xs = (if cap < length xs then drop (length xs - cap) xs else xs)"

fun streamStep :: "nat \<Rightarrow> LogStream \<Rightarrow> StreamEvent \<Rightarrow> LogStream" where
  "streamStep cap st (SetPath path) =
     (if path = [] then st\<lparr>st_status := Idle, st_lines := []\<rparr> else st\<lparr>st_status := Connecting, st_lines := []\<rparr>)"
| "streamStep cap st Opened = st\<lparr>st_status := Open\<rparr>"
| "streamStep cap st (Message text) =
     (let line = \<lparr>ll_seq = st_seq st, ll_text = text, ll_level = parseLogLevel text\<rparr>
      in st\<lparr>st_seq := st_seq st + 1, st_lines := capped cap (st_lines st @ [line]), st_revision := st_revision st + 1\<rparr>)"
| "streamStep cap st (Failed isClosed) = st\<lparr>st_status := (if isClosed then Closed else Error)\<rparr>"
| "streamStep cap st ClearLines = st\<lparr>st_lines := []\<rparr>"

definition LINE_CAP :: nat where
  "LINE_CAP = 2000"

definition logStreamPath :: "string option \<Rightarrow> string \<Rightarrow> string" where
  "logStreamPath appId source =
     (case appId of
        Some a \<Rightarrow> if a = [] then [] else ''/apps/'' @ a @ ''/logs?source='' @ source
      | None \<Rightarrow> [])"

section \<open>Following\<close>

definition SCROLL_THRESHOLD :: int where
  "SCROLL_THRESHOLD = 24"

record ScrollBox =
  sb_scrollHeight :: int
  sb_scrollTop :: int
  sb_clientHeight :: int

definition pinToBottom :: "bool \<Rightarrow> ScrollBox \<Rightarrow> ScrollBox" where
  "pinToBottom following el = (if following \<and> 0 < sb_scrollHeight el then el\<lparr>sb_scrollTop := sb_scrollHeight el\<rparr> else el)"

text \<open>Whether follow stays on after a scroll event.\<close>

definition handleScroll :: "ScrollBox \<Rightarrow> bool \<Rightarrow> bool" where
  "handleScroll el following =
     (if sb_scrollHeight el = 0 then following
      else if SCROLL_THRESHOLD < sb_scrollHeight el - sb_scrollTop el - sb_clientHeight el \<and> following then False
      else following)"

section \<open>The merged view\<close>

datatype LogSource = BothSources | DaprdSource | AppSource
datatype Stream = Daprd | App

record MergedLine =
  ml_line :: LogLine
  ml_src :: Stream
  ml_arrival :: nat
  ml_sortTime :: "nat option"

text \<open>\<open>tagStream\<close>: the variable \<open>last\<close> starts at minus infinity, here \<open>None\<close>.\<close>

fun tagFrom :: "Stream \<Rightarrow> nat \<Rightarrow> nat \<Rightarrow> nat option \<Rightarrow> LogLine list \<Rightarrow> MergedLine list" where
  "tagFrom src arrival step lastTime [] = []"
| "tagFrom src arrival step lastTime (line # lines) =
     (let t = (case parseLogTime (ll_text line) of Some t \<Rightarrow> Some t | None \<Rightarrow> lastTime)
      in \<lparr>ml_line = line, ml_src = src, ml_arrival = arrival, ml_sortTime = t\<rparr>
           # tagFrom src (arrival + step) step t lines)"

definition tagStream :: "LogLine list \<Rightarrow> Stream \<Rightarrow> nat \<Rightarrow> nat \<Rightarrow> MergedLine list" where
  "tagStream lines src arrivalBase arrivalStep = tagFrom src arrivalBase arrivalStep None lines"

text \<open>The comparator is a total order on the effective time, then the arrival index; \<open>sort\<close> is stable.\<close>

definition mergeKey :: "MergedLine \<Rightarrow> nat option \<times> nat" where
  "mergeKey m = (ml_sortTime m, ml_arrival m)"

definition mergedView :: "LogSource \<Rightarrow> LogLine list \<Rightarrow> LogLine list \<Rightarrow> MergedLine list" where
  "mergedView source daprd app =
     (case source of
        DaprdSource \<Rightarrow> tagStream daprd Daprd 0 1
      | AppSource \<Rightarrow> tagStream app App 0 1
      | BothSources \<Rightarrow> capped LINE_CAP (sort_key mergeKey (tagStream daprd Daprd 0 2 @ tagStream app App 1 2)))"

text \<open>The row's React key.\<close>

definition rowKey :: "MergedLine \<Rightarrow> Stream \<times> nat" where
  "rowKey m = (ml_src m, ll_seq (ml_line m))"

section \<open>Filtering and the footer\<close>

definition ALL_LEVELS :: "LogLevel list" where
  "ALL_LEVELS = [LDebug, LInfo, LWarn, LError]"

definition shownLevel :: "LogLine \<Rightarrow> LogLevel" where
  "shownLevel line = (case ll_level line of Some l \<Rightarrow> l | None \<Rightarrow> LInfo)"

definition includesFold :: "string \<Rightarrow> string \<Rightarrow> bool" where
  "includesFold text query = includesText (toLowerCase text) (toLowerCase query)"

definition lineMatches :: "LogLine \<Rightarrow> LogLevel set \<Rightarrow> string \<Rightarrow> bool" where
  "lineMatches line activeLevels search =
     (if shownLevel line \<notin> activeLevels then False
      else if search \<noteq> [] \<and> \<not> includesFold (ll_text line) search then False
      else True)"

definition countMatches :: "LogLine list \<Rightarrow> string \<Rightarrow> nat" where
  "countMatches lines search = (if search = [] then 0 else length (filter (\<lambda>l. includesFold (ll_text l) search) lines))"

text \<open>\<open>Math.round\<close> of a quotient of naturals: the nearest integer, halves up.\<close>

definition tailSizeKB :: "LogLine list \<Rightarrow> nat" where
  "tailSizeKB lines = (2 * sum_list (map (\<lambda>l. length (ll_text l)) lines) + 1024) div 2048"

definition combineStatuses :: "LogStreamStatus list \<Rightarrow> LogStreamStatus" where
  "combineStatuses statuses = (case find (\<lambda>s. s \<in> set statuses) [Closed, Error, Connecting, Idle] of Some s \<Rightarrow> s | None \<Rightarrow> Open)"

definition viewerStatus :: "LogSource \<Rightarrow> LogStreamStatus \<Rightarrow> LogStreamStatus \<Rightarrow> LogStreamStatus" where
  "viewerStatus source daprd app =
     combineStatuses (case source of DaprdSource \<Rightarrow> [daprd] | AppSource \<Rightarrow> [app] | BothSources \<Rightarrow> [daprd, app])"

section \<open>Time column and highlighting\<close>

text \<open>
  \<open>(\d{2}:\d{2}:\d{2}(?:\.\d+)?)\b\<close>: the fraction is taken when a boundary follows it, else the match is
  retried without it; there is no boundary between two digits.
\<close>

fun clockText :: "string \<times> string \<times> string \<times> string option \<times> string \<Rightarrow> string" where
  "clockText (h, m, s, fraction, _) =
     h @ '':'' @ m @ '':'' @ s @ (case fraction of None \<Rightarrow> [] | Some f \<Rightarrow> ''.'' @ f)"

definition clockWord :: "char option \<Rightarrow> string \<Rightarrow> string option" where
  "clockWord before t =
     (if boundary before t then
        (case clockMatch t of
           None \<Rightarrow> None
         | Some (h, m, s, fraction, rest) \<Rightarrow>
             if \<not> wordAt (headChar rest) then Some (clockText (h, m, s, fraction, rest))
             else if fraction \<noteq> None then Some (clockText (h, m, s, None, rest))
             else None)
      else None)"

definition extractTime :: "string \<Rightarrow> string" where
  "extractTime text =
     (case searchText isoMatch None text of
        Some t \<Rightarrow> clockText t
      | None \<Rightarrow> (case searchText clockWord None text of Some t \<Rightarrow> t | None \<Rightarrow> []))"

definition logGridVars :: "string list \<Rightarrow> string list \<Rightarrow> nat \<times> nat option" where
  "logGridVars srcLabels texts =
     (let srcLen = foldl (\<lambda>m s. max m (length s)) 0 srcLabels;
          timeLen = foldl (\<lambda>m t. max m (length (extractTime t))) 0 texts
      in (srcLen + 1, if 0 < timeLen then Some (timeLen + 1) else None))"

text \<open>
  \<open>text.split(/(query)/gi)\<close> with the query's special characters escaped: the texts between the matches
  and the matches, in turn. \<open>acc\<close> is the text since the last match, reversed.
\<close>

function splitMatches :: "string \<Rightarrow> string \<Rightarrow> string \<Rightarrow> string list" where
  "splitMatches query acc s =
     (if s = [] then [rev acc]
      else if query \<noteq> [] \<and> startsWith (toLowerCase s) (toLowerCase query)
        then rev acc # take (length query) s # splitMatches query [] (drop (length query) s)
      else splitMatches query (hd s # acc) (tl s))"
  by pat_completeness auto
termination by (relation "measure (\<lambda>(query, acc, s). length s)") auto

declare splitMatches.simps [simp del]

text \<open>The rendered parts, each with whether it is marked.\<close>

definition highlighted :: "string \<Rightarrow> string \<Rightarrow> (string \<times> bool) list" where
  "highlighted text query =
     (if query = [] then [(text, False)]
      else map (\<lambda>part. (part, toLowerCase part = toLowerCase query)) (splitMatches query [] text))"

section \<open>The page\<close>

definition CP_SERVICES :: "string list" where
  "CP_SERVICES = [''dapr_scheduler'', ''dapr_placement'']"

definition staticCpForMode :: "string \<Rightarrow> string list" where
  "staticCpForMode mode = (if mode \<in> {[], ''dapr-run'', ''aspire''} then CP_SERVICES else [])"

record ControlPlaneService =
  cp_name :: string
  cp_actionable :: bool

text \<open>\<open>[...new Set(xs)]\<close>: first occurrences, in order.\<close>

definition uniqueList :: "'a list \<Rightarrow> 'a list" where
  "uniqueList xs = rev (remdups (rev xs))"

definition cpNames :: "string list \<Rightarrow> ControlPlaneService list option \<Rightarrow> string list" where
  "cpNames staticCp services =
     uniqueList (staticCp @ map cp_name (filter cp_actionable (case services of None \<Rightarrow> [] | Some ss \<Rightarrow> ss)))"

text \<open>\<open>URLSearchParams\<close> with one value a name.\<close>

type_synonym params = "(string \<times> string) list"

definition param :: "params \<Rightarrow> string \<Rightarrow> string" where
  "param ps k = (case map_of ps k of Some v \<Rightarrow> v | None \<Rightarrow> [])"

definition sourceOf :: "string option \<Rightarrow> LogSource" where
  "sourceOf v = (if v = Some ''daprd'' then DaprdSource else if v = Some ''app'' then AppSource else BothSources)"

fun sourceName :: "LogSource \<Rightarrow> string" where
  "sourceName BothSources = ''both''"
| "sourceName DaprdSource = ''daprd''"
| "sourceName AppSource = ''app''"

definition currentCp :: "string list \<Rightarrow> params \<Rightarrow> string" where
  "currentCp names ps = (let v = param ps ''cp'' in if v \<in> set names then v else [])"

definition cpPending :: "string list \<Rightarrow> params \<Rightarrow> bool \<Rightarrow> bool \<Rightarrow> bool" where
  "cpPending names ps loaded cpListError \<longleftrightarrow>
     param ps ''cp'' \<noteq> [] \<and> currentCp names ps = [] \<and> \<not> loaded \<and> \<not> cpListError"

definition targetValue :: "string list \<Rightarrow> params \<Rightarrow> string" where
  "targetValue names ps =
     (if currentCp names ps \<noteq> [] then ''cp:'' @ currentCp names ps
      else if param ps ''app'' \<noteq> [] then ''app:'' @ param ps ''app'' else [])"

definition onTargetChange :: "string \<Rightarrow> params \<Rightarrow> params" where
  "onTargetChange target ps =
     (let sep = indexOfChar CHR '':'' target;
          kind = (case sep of None \<Rightarrow> [] | Some i \<Rightarrow> take i target);
          name = (case sep of None \<Rightarrow> [] | Some i \<Rightarrow> drop (i + 1) target)
      in if kind = ''app'' then dropKey ''cp'' (putKey ''app'' name ps)
         else if kind = ''cp'' then dropKey ''app'' (putKey ''cp'' name ps)
         else dropKey ''cp'' (dropKey ''app'' ps))"

definition onSourceChange :: "LogSource \<Rightarrow> params \<Rightarrow> params" where
  "onSourceChange s ps = putKey ''source'' (sourceName s) ps"

definition activeStreams :: "LogSource \<Rightarrow> Stream set" where
  "activeStreams source = (case source of BothSources \<Rightarrow> {Daprd, App} | DaprdSource \<Rightarrow> {Daprd} | AppSource \<Rightarrow> {App})"

definition toggleSource :: "LogSource \<Rightarrow> Stream \<Rightarrow> params \<Rightarrow> params" where
  "toggleSource source stream ps =
     (let active = activeStreams source in
      if stream \<in> active \<and> card active = 1 then ps
      else
        let active' = (if stream \<in> active then active - {stream} else insert stream active)
        in onSourceChange (if card active' = 2 then BothSources else if Daprd \<in> active' then DaprdSource else AppSource) ps)"

definition toggleLevel :: "LogLevel \<Rightarrow> LogLevel set \<Rightarrow> LogLevel set" where
  "toggleLevel level levels = (if level \<in> levels then levels - {level} else insert level levels)"

record LogApp =
  la_daprdLogPath :: string
  la_daprdContainerId :: string
  la_appLogPath :: string
  la_appContainerId :: string

definition hasPath :: "LogSource \<Rightarrow> LogApp option \<Rightarrow> bool" where
  "hasPath source app =
     (case app of
        None \<Rightarrow> False
      | Some a \<Rightarrow>
          let canStreamDaprd = la_daprdLogPath a \<noteq> [] \<or> la_daprdContainerId a \<noteq> [];
              canStreamApp = la_appLogPath a \<noteq> [] \<or> la_appContainerId a \<noteq> []
          in case source of AppSource \<Rightarrow> canStreamApp | DaprdSource \<Rightarrow> canStreamDaprd | BothSources \<Rightarrow> canStreamDaprd \<or> canStreamApp)"

section \<open>The buffer is the tail of what arrived\<close>

lemma capped_capped: "capped cap (capped cap xs @ ys) = capped cap (xs @ ys)"
proof (cases "cap < length xs")
  case True
  then have "xs @ ys = take (length xs - cap) xs @ drop (length xs - cap) xs @ ys" by simp
  then show ?thesis using True by (auto simp: capped_def add.commute)
qed (simp add: capped_def)

lemma capped_id: "length xs \<le> cap \<Longrightarrow> capped cap xs = xs"
  by (simp add: capped_def)

lemma capped_suffix: "\<exists>k. capped cap xs = drop k xs"
proof (cases "cap < length xs")
  case False
  then have "capped cap xs = drop 0 xs" by (simp add: capped_def)
  then show ?thesis ..
qed (auto simp: capped_def)

lemma length_capped: "length (capped cap xs) = min cap (length xs)"
  by (auto simp: capped_def)

fun messages :: "StreamEvent list \<Rightarrow> string list" where
  "messages [] = []"
| "messages (Message text # evs) = text # messages evs"
| "messages (_ # evs) = messages evs"

text \<open>The lines a stream numbered, from the start.\<close>

definition arrived :: "StreamEvent list \<Rightarrow> LogLine list" where
  "arrived evs = map (\<lambda>(i, text). \<lparr>ll_seq = i, ll_text = text, ll_level = parseLogLevel text\<rparr>) (enumerate 0 (messages evs))"

text \<open>How many had arrived when the view was last emptied.\<close>

fun emptiedAt :: "nat \<Rightarrow> nat \<Rightarrow> StreamEvent list \<Rightarrow> nat" where
  "emptiedAt n j [] = j"
| "emptiedAt n j (Message _ # evs) = emptiedAt (n + 1) j evs"
| "emptiedAt n j (SetPath _ # evs) = emptiedAt n n evs"
| "emptiedAt n j (ClearLines # evs) = emptiedAt n n evs"
| "emptiedAt n j (_ # evs) = emptiedAt n j evs"

lemma messages_append: "messages (xs @ ys) = messages xs @ messages ys"
  by (induction xs rule: messages.induct) auto

lemma emptiedAt_append:
  "emptiedAt n j (xs @ ys) = emptiedAt (n + length (messages xs)) (emptiedAt n j xs) ys"
  by (induction n j xs rule: emptiedAt.induct) auto

lemma emptiedAt_le: "j \<le> n \<Longrightarrow> emptiedAt n j evs \<le> n + length (messages evs)"
proof (induction n j evs rule: emptiedAt.induct)
  case (2 n j t evs)
  then have "emptiedAt (n + 1) j evs \<le> n + 1 + length (messages evs)" by simp
  then show ?case by simp
qed simp_all

lemma arrived_snoc:
  "arrived (evs @ [Message text]) =
    arrived evs @ [\<lparr>ll_seq = length (messages evs), ll_text = text, ll_level = parseLogLevel text\<rparr>]"
  by (simp add: arrived_def messages_append enumerate_append_eq)

lemma length_arrived: "length (arrived evs) = length (messages evs)"
  by (simp add: arrived_def)

lemma arrived_other: "messages [e] = [] \<Longrightarrow> arrived (evs @ [e]) = arrived evs"
  by (simp add: arrived_def messages_append)

text \<open>
  C28. After any sequence of events the buffer of a log stream is exactly the last \<open>cap\<close> of the lines that
  arrived since the path changed or the view was cleared, in order and with consecutive sequence
  numbers, and the revision counts every line ever received, buffered or not.
\<close>

theorem stream_buffer:
  "st_lines (foldl (streamStep cap) newStream evs) = capped cap (drop (emptiedAt 0 0 evs) (arrived evs)) \<and>
   st_revision (foldl (streamStep cap) newStream evs) = length (messages evs) \<and>
   map ll_seq (arrived evs) = [0..<length (messages evs)] \<and> map ll_text (arrived evs) = messages evs"
proof -
  have "st_lines (foldl (streamStep cap) newStream evs) = capped cap (drop (emptiedAt 0 0 evs) (arrived evs)) \<and>
    st_revision (foldl (streamStep cap) newStream evs) = length (messages evs) \<and>
    st_seq (foldl (streamStep cap) newStream evs) = length (messages evs)"
  proof (induction evs rule: rev_induct)
    case (snoc e evs)
    have le: "emptiedAt 0 0 evs \<le> length (arrived evs)" using emptiedAt_le[of 0 0 evs] by (simp add: length_arrived)
    show ?case
    proof (cases e)
      case (Message msg)
      then show ?thesis using snoc le
        by (simp add: Let_def messages_append emptiedAt_append arrived_snoc capped_capped)
    qed (use snoc in \<open>simp_all add: messages_append emptiedAt_append arrived_other length_arrived[symmetric] capped_id\<close>)
  qed (simp add: newStream_def arrived_def capped_def)
  moreover have "map ll_seq (arrived evs) = [0..<length (messages evs)]" "map ll_text (arrived evs) = messages evs"
    by (simp_all add: arrived_def enumerate_eq_zip comp_def split_def map_fst_zip[unfolded comp_def] map_snd_zip[unfolded comp_def])
  ultimately show ?thesis by simp
qed

section \<open>The merged view keeps both streams' order\<close>

text \<open>The times a stream's dated lines carry.\<close>

definition datedTimes :: "LogLine list \<Rightarrow> nat list" where
  "datedTimes lines = List.map_filter (\<lambda>l. parseLogTime (ll_text l)) lines"

lemma tagFrom_lines: "map ml_line (tagFrom src n k t lines) = lines"
  by (induction src n k t lines rule: tagFrom.induct) (auto simp: Let_def)

lemma tagFrom_src: "m \<in> set (tagFrom src n k t lines) \<Longrightarrow> ml_src m = src"
  by (induction src n k t lines rule: tagFrom.induct) (auto simp: Let_def)

lemma tagFrom_arrival: "map ml_arrival (tagFrom src n k t lines) = map (\<lambda>i. n + i * k) [0..<length lines]"
proof (induction src n k t lines rule: tagFrom.induct)
  case (2 src n k t line lines)
  have "map (\<lambda>i. n + i * k) [0..<Suc (length lines)] = n # map (\<lambda>i. n + k + i * k) [0..<length lines]"
    by (simp add: upt_conv_Cons map_Suc_upt[symmetric] comp_def algebra_simps del: upt_Suc map_Suc_upt)
  then show ?case using 2 by (simp add: Let_def)
qed simp

lemma tagFrom_times:
  assumes "sorted (datedTimes lines)" "\<forall>u \<in> set (datedTimes lines). t \<le> Some u"
  shows "sorted (map ml_sortTime (tagFrom src n k t lines)) \<and> (\<forall>m \<in> set (tagFrom src n k t lines). t \<le> ml_sortTime m)"
  using assms
proof (induction src n k t lines rule: tagFrom.induct)
  case (2 src n k t line lines)
  define u where "u = (case parseLogTime (ll_text line) of Some u \<Rightarrow> Some u | None \<Rightarrow> t)"
  have le: "t \<le> u" "sorted (datedTimes lines)" "\<forall>v \<in> set (datedTimes lines). u \<le> Some v"
    using "2.prems" by (auto simp: u_def datedTimes_def map_filter_simps split: option.splits)
  from "2.IH"[OF u_def le(2,3)] le(1) show ?case
    by (auto simp: Let_def u_def[symmetric])
qed simp

lemma tagFrom_sorted:
  assumes "sorted (datedTimes lines)" "0 < k"
  shows "sorted (map mergeKey (tagFrom src n k None lines))"
proof -
  let ?ms = "tagFrom src n k None lines"
  have t: "sorted (map ml_sortTime ?ms)" using tagFrom_times[OF assms(1)] by simp
  have "sorted (map ml_arrival ?ms)" unfolding tagFrom_arrival using assms(2) by (auto simp: sorted_iff_nth_mono)
  with t show ?thesis by (auto simp: sorted_iff_nth_mono mergeKey_def less_eq_prod_def le_less)
qed

lemma filter_sort_key_sorted:
  assumes "sorted (map f (filter P xs))"
  shows "filter P (sort_key f xs) = filter P xs"
  using assms by (simp add: filter_sort sorted_map_same sort_key_id_if_sorted)


definition demoLine :: "nat \<Rightarrow> string \<Rightarrow> LogLine" where
  "demoLine i msg = \<lparr>ll_seq = i, ll_text = msg, ll_level = parseLogLevel msg\<rparr>"

lemmas clock_matchers = parseLogTime_def isoMatch_def hmsMatch_def clockMatch_def digitsThen_def boundary_def wordAt_def
  headChar_def isWord_def isLower_def isUpper_def isDigit_def millisOf_def readNat_def digitValue_def

lemma demo_times: "parseLogTime ''10:00:02'' = Some 36002000" "parseLogTime ''up'' = None" "parseLogTime ''10:00:01.5'' = Some 36001500"
  by (simp_all add: clock_matchers numeral_2_eq_2)


section \<open>Highlighting\<close>

lemma splitMatches_concat: "concat (splitMatches query acc s) = rev acc @ s"
proof (induction query acc s rule: splitMatches.induct)
  case (1 query acc s)
  then show ?case by (subst splitMatches.simps) (cases s; auto)
qed

lemma includesFold_append: "includesFold text query \<longleftrightarrow> (\<exists>a q b. text = a @ q @ b \<and> toLowerCase q = toLowerCase query)"
proof
  assume "includesFold text query"
  then obtain a b where ab: "toLowerCase text = a @ toLowerCase query @ b" by (auto simp: includesFold_def includesText_append)
  then obtain ta tq tb where "text = ta @ tq @ tb" "toLowerCase tq = toLowerCase query"
    by (metis map_eq_append_conv)
  then show "\<exists>a q b. text = a @ q @ b \<and> toLowerCase q = toLowerCase query" by blast
next
  assume "\<exists>a q b. text = a @ q @ b \<and> toLowerCase q = toLowerCase query"
  then obtain a q b where "text = a @ q @ b" "toLowerCase q = toLowerCase query" by blast
  then have "toLowerCase text = toLowerCase a @ toLowerCase query @ toLowerCase b" by simp
  then show "includesFold text query" unfolding includesFold_def includesText_append by blast
qed

text \<open>No match starts inside the text collected since the last match.\<close>

definition noMatchIn :: "string \<Rightarrow> string \<Rightarrow> string \<Rightarrow> bool" where
  "noMatchIn query gap s \<longleftrightarrow> (\<forall>i < length gap. \<not> startsWith (toLowerCase (drop i gap @ s)) (toLowerCase query))"

lemma noMatchIn_gap:
  assumes "noMatchIn query gap s" "query \<noteq> []"
  shows "\<not> includesFold gap query"
proof
  assume "includesFold gap query"
  then obtain a q b where g: "gap = a @ q @ b" "toLowerCase q = toLowerCase query" by (auto simp: includesFold_append)
  moreover have "q \<noteq> []" using g(2) assms(2) by auto
  ultimately have "length a < length gap" "startsWith (toLowerCase (drop (length a) gap @ s)) (toLowerCase query)"
    by (simp_all add: startsWith_append)
  then show False using assms(1) by (auto simp: noMatchIn_def)
qed

lemma noMatchIn_snoc:
  assumes "noMatchIn query (rev acc) (c # s)" "\<not> startsWith (toLowerCase (c # s)) (toLowerCase query)"
  shows "noMatchIn query (rev (c # acc)) s"
  using assms by (auto simp: noMatchIn_def less_Suc_eq drop_append)

lemma splitMatches_exact:
  assumes "query \<noteq> []" "noMatchIn query (rev acc) s"
  shows "list_all (\<lambda>part. includesFold part query = (toLowerCase part = toLowerCase query)) (splitMatches query acc s)"
  using assms
proof (induction query acc s rule: splitMatches.induct)
  case (1 query acc s)
  have same: "includesFold part query = (toLowerCase part = toLowerCase query)" if "\<not> includesFold part query" for part
    using that includesFold_append[of part query] by (metis append_Nil append_Nil2)
  have gap: "includesFold (rev acc) query = (toLowerCase (rev acc) = toLowerCase query)"
    by (rule same) (rule noMatchIn_gap[OF "1.prems"(2,1)])
  show ?case
  proof (cases "s = []")
    case True
    then show ?thesis using gap by (simp add: splitMatches.simps)
  next
    case False
    show ?thesis
    proof (cases "startsWith (toLowerCase s) (toLowerCase query)")
      case True
      then obtain t where t: "toLowerCase s = toLowerCase query @ t" by (auto simp: startsWith_append)
      then have "toLowerCase (take (length query) s) = toLowerCase query" by (metis append_eq_conv_conj length_map take_map)
      moreover then have "includesFold (take (length query) s) query"
        using includesFold_append by (metis append_Nil append_Nil2)
      moreover have "noMatchIn query (rev []) (drop (length query) s)" by (simp add: noMatchIn_def)
      ultimately show ?thesis using gap 1(1)[of] True False "1.prems" by (subst splitMatches.simps) simp
    next
      case no: False
      then have "noMatchIn query (rev (hd s # acc)) (tl s)" using noMatchIn_snoc[of query acc "hd s" "tl s"] False "1.prems" by simp
      then show ?thesis using 1(2) no False "1.prems" by (subst splitMatches.simps) simp
    qed
  qed
qed

lemma splitMatches_found:
  assumes "query \<noteq> []" "includesFold s query"
  shows "\<exists>part \<in> set (splitMatches query acc s). toLowerCase part = toLowerCase query"
  using assms
proof (induction query acc s rule: splitMatches.induct)
  case (1 query acc s)
  have ne: "s \<noteq> []" using "1.prems" by (auto simp: includesFold_def)
  show ?case
  proof (cases "startsWith (toLowerCase s) (toLowerCase query)")
    case True
    then have "toLowerCase (take (length query) s) = toLowerCase query"
      by (metis append_eq_conv_conj length_map startsWith_append take_map)
    then show ?thesis using True ne "1.prems" by (subst splitMatches.simps) simp
  next
    case False
    then have "includesFold (tl s) query" using "1.prems" ne by (cases s) (auto simp: includesFold_def)
    then show ?thesis using 1(2) False ne "1.prems" by (subst splitMatches.simps) simp
  qed
qed

text \<open>
  Highlighting loses no character of the line, marks exactly the parts that match the query without
  regard to case, leaves no occurrence inside an unmarked part, and marks something whenever the search
  finds the line.
\<close>

theorem highlight_exact:
  "concat (map fst (highlighted line query)) = line \<and>
   list_all (\<lambda>(part, marked). marked = (query \<noteq> [] \<and> includesFold part query)) (highlighted line query) \<and>
   ((\<exists>part \<in> set (highlighted line query). snd part) \<longleftrightarrow> query \<noteq> [] \<and> includesFold line query)"
proof (cases "query = []")
  case False
  have c: "concat (splitMatches query [] line) = line" using splitMatches_concat[of query "[]" line] by simp
  have e: "list_all (\<lambda>part. includesFold part query = (toLowerCase part = toLowerCase query)) (splitMatches query [] line)"
    using splitMatches_exact[OF False, of "[]" line] by (simp add: noMatchIn_def)
  have "includesFold line query" if "part \<in> set (splitMatches query [] line)" "toLowerCase part = toLowerCase query" for part
  proof -
    from split_list[OF that(1)] obtain xs ys where "splitMatches query [] line = xs @ part # ys" by blast
    then have "line = concat xs @ part @ concat ys" using c by (metis concat.simps(2) concat_append)
    then show ?thesis using that(2) includesFold_append by metis
  qed
  then have "(\<exists>part \<in> set (splitMatches query [] line). toLowerCase part = toLowerCase query) \<longleftrightarrow> includesFold line query"
    using splitMatches_found[OF False, of line "[]"] by blast
  then show ?thesis using c e False
    by (simp add: highlighted_def comp_def list_all_iff)
qed (simp add: highlighted_def)

section \<open>Choosing what to watch\<close>

lemma indexOfChar_append: "c \<notin> set a \<Longrightarrow> indexOfChar c (a @ c # b) = Some (length a)"
  by (induction a) auto

lemma onTargetChange_app: "onTargetChange (''app:'' @ name) ps = dropKey ''cp'' (putKey ''app'' name ps)"
  by (simp add: onTargetChange_def Let_def)

lemma onTargetChange_cp: "onTargetChange (''cp:'' @ name) ps = dropKey ''app'' (putKey ''cp'' name ps)"
  by (simp add: onTargetChange_def Let_def)

lemma param_change:
  "param (dropKey k ps) l = (if k = l then [] else param ps l)" "param (putKey k v ps) l = (if k = l then v else param ps l)"
  by (simp_all add: param_def map_of_dropKey map_of_putKey)

lemma map_of_source: "map_of (onSourceChange s ps) ''source'' = Some (sourceName s)"
  by (simp add: onSourceChange_def map_of_putKey)

lemma sourceOf_name: "sourceOf (Some (sourceName s)) = s"
  by (cases s) (simp_all add: sourceOf_def)

text \<open>
  The target selector shows what was chosen: after an application or a listed control-plane service
  is selected it is the one shown, whatever the address bar held before, and clicking a source chip
  switches that stream on or off and no other, except that the last one stays on.
\<close>

theorem target_shown:
  assumes "app \<noteq> []" "service \<in> set (cpNames staticCp services)" "service \<noteq> []"
  shows "targetValue (cpNames staticCp services) (onTargetChange (''app:'' @ app) ps) = ''app:'' @ app \<and>
    targetValue (cpNames staticCp services) (onTargetChange (''cp:'' @ service) ps) = ''cp:'' @ service \<and>
    targetValue (cpNames staticCp services) (onTargetChange [] ps) = [] \<and>
    (let source = sourceOf (map_of ps ''source''); source' = sourceOf (map_of (toggleSource source stream ps) ''source'')
     in activeStreams source' =
         (if activeStreams source = {stream} then {stream}
          else if stream \<in> activeStreams source then activeStreams source - {stream}
          else insert stream (activeStreams source)))"
proof (intro conjI)
  show "targetValue (cpNames staticCp services) (onTargetChange (''app:'' @ app) ps) = ''app:'' @ app"
    unfolding onTargetChange_app using assms(1) by (simp add: targetValue_def currentCp_def param_change Let_def)
  show "targetValue (cpNames staticCp services) (onTargetChange (''cp:'' @ service) ps) = ''cp:'' @ service"
    unfolding onTargetChange_cp using assms(2,3) by (simp add: targetValue_def currentCp_def param_change Let_def)
  show "targetValue (cpNames staticCp services) (onTargetChange [] ps) = []"
    by (simp add: targetValue_def currentCp_def onTargetChange_def param_change Let_def)
  show "let source = sourceOf (map_of ps ''source''); source' = sourceOf (map_of (toggleSource source stream ps) ''source'')
     in activeStreams source' =
         (if activeStreams source = {stream} then {stream}
          else if stream \<in> activeStreams source then activeStreams source - {stream}
          else insert stream (activeStreams source))"
    by (cases "sourceOf (map_of ps ''source'')"; cases stream)
      (auto simp: toggleSource_def activeStreams_def map_of_source Let_def sourceOf_name[of BothSources, simplified]
        sourceOf_name[of DaprdSource, simplified] sourceOf_name[of AppSource, simplified])
qed

theorem target_shown_witness:
  "targetValue (cpNames (staticCpForMode []) None) (onTargetChange ''app:orders'' [(''cp'', ''dapr_placement'')]) = ''app:orders''"
  using target_shown[of "''orders''" "''dapr_placement''" "staticCpForMode []" None "[(''cp'', ''dapr_placement'')]" App]
  by (simp add: cpNames_def staticCpForMode_def CP_SERVICES_def uniqueList_def)

end
