(* ===== verification/JsUrl.thy ===== *)
theory JsUrl
  imports JsText
begin

text \<open>
  \<open>encodeURIComponent\<close> and the text of a \<open>URLSearchParams\<close>, on strings of code units below 256 (UTF-8 takes
  one or two bytes for each), with the decoder a receiver runs. The two encodings differ in the
  characters they leave alone and in the space; what they share is the locale \<open>percent_codec\<close>.
\<close>

section \<open>Bytes\<close>

definition hexDigit :: "nat \<Rightarrow> char" where
  "hexDigit n = ''0123456789ABCDEF'' ! n"

definition hexValue :: "char \<Rightarrow> nat" where
  "hexValue c = (let n = of_char c in if n < 58 then n - 48 else n - 55)"

definition percentByte :: "nat \<Rightarrow> string" where
  "percentByte n = [CHR ''%'', hexDigit (n div 16), hexDigit (n mod 16)]"

definition utf8 :: "char \<Rightarrow> nat list" where
  "utf8 c = (let n = of_char c in if n < 128 then [n] else [192 + n div 64, 128 + n mod 64])"

fun utf8Decode :: "nat list \<Rightarrow> string" where
  "utf8Decode [] = []"
| "utf8Decode (a # bs) =
     (if a < 128 then char_of a # utf8Decode bs
      else case bs of [] \<Rightarrow> [] | b # cs \<Rightarrow> char_of ((a - 192) * 64 + (b - 128)) # utf8Decode cs)"

fun percentDecode :: "bool \<Rightarrow> string \<Rightarrow> nat list" where
  "percentDecode plussed (c # h # l # s) =
     (if c = CHR ''%'' then (16 * hexValue h + hexValue l) # percentDecode plussed s
      else (if plussed \<and> c = CHR ''+'' then 32 else of_char c) # percentDecode plussed (h # l # s))"
| "percentDecode plussed (c # s) = (if plussed \<and> c = CHR ''+'' then 32 else of_char c) # percentDecode plussed s"
| "percentDecode plussed [] = []"

section \<open>Encoders\<close>

definition encodeChar :: "bool \<Rightarrow> (char \<Rightarrow> bool) \<Rightarrow> char \<Rightarrow> string" where
  "encodeChar plussed safe c =
     (if plussed \<and> c = CHR '' '' then ''+'' else if safe c then [c] else concat (map percentByte (utf8 c)))"

definition uriSafe :: "char \<Rightarrow> bool" where
  "uriSafe c \<longleftrightarrow> isLetter c \<or> isDigit c \<or> c \<in> set ''-_.!~*()'' \<or> c = CHR 39"

definition formSafe :: "char \<Rightarrow> bool" where
  "formSafe c \<longleftrightarrow> isLetter c \<or> isDigit c \<or> c \<in> set ''*-._''"

definition encodeURIComponent :: "string \<Rightarrow> string" where
  "encodeURIComponent s = concat (map (encodeChar False uriSafe) s)"

definition formEncode :: "string \<Rightarrow> string" where
  "formEncode s = concat (map (encodeChar True formSafe) s)"

text \<open>\<open>new URLSearchParams(...).toString()\<close>, and what a receiver reads from it.\<close>

definition paramsText :: "(string \<times> string) list \<Rightarrow> string" where
  "paramsText ps = joinWith ''&'' (map (\<lambda>(k, v). formEncode k @ ''='' @ formEncode v) ps)"

definition decodeForm :: "string \<Rightarrow> string" where
  "decodeForm s = utf8Decode (percentDecode True s)"

definition readParam :: "string \<Rightarrow> string \<times> string" where
  "readParam s = (decodeForm (takeWhile (\<lambda>c. c \<noteq> CHR ''='') s), decodeForm (drop 1 (dropWhile (\<lambda>c. c \<noteq> CHR ''='') s)))"

definition readParams :: "string \<Rightarrow> (string \<times> string) list" where
  "readParams s = (if s = [] then [] else map readParam (splitOn CHR ''&'' s))"

section \<open>What both encodings have in common\<close>

lemma below_16: "n < 16 \<Longrightarrow> n \<in> {0, 1, 2, 3, 4, 5, 6, 7, 8, 9, 10, 11, 12, 13, 14, 15 :: nat}"
  by (simp only: insert_iff empty_iff) presburger

lemma hexValue_hexDigit: "n < 16 \<Longrightarrow> hexValue (hexDigit n) = n"
proof -
  assume "n < 16"
  from below_16[OF this] show ?thesis by (elim insertE emptyE) (simp_all add: hexDigit_def hexValue_def)
qed

lemma of_char_less_256: "(of_char c :: nat) < 256"
  by (metis of_char_mod_256 mod_less_divisor zero_less_numeral)

lemma utf8_bytes: "b \<in> set (utf8 c) \<Longrightarrow> b < 256"
proof -
  assume "b \<in> set (utf8 c)"
  then have "b < 128 \<or> b = 192 + of_char c div 64 \<or> b = 128 + of_char c mod 64" by (auto simp: utf8_def Let_def split: if_splits)
  moreover have "of_char c div 64 < (64 :: nat)" by (rule less_mult_imp_div_less, rule less_trans[OF of_char_less_256]) simp
  moreover have "of_char c mod 64 < (64 :: nat)" by simp
  ultimately show ?thesis by auto
qed

lemma percentDecode_percent: "b < 256 \<Longrightarrow> percentDecode plussed (percentByte b @ s) = b # percentDecode plussed s"
proof -
  assume "b < 256"
  then have "b div 16 < 16" "b mod 16 < 16" by simp_all
  then show ?thesis by (simp add: percentByte_def hexValue_hexDigit)
qed

lemma percentDecode_percents:
  "(\<And>b. b \<in> set bs \<Longrightarrow> b < 256) \<Longrightarrow> percentDecode plussed (concat (map percentByte bs) @ s) = bs @ percentDecode plussed s"
  by (induction bs) (simp_all add: percentDecode_percent)

lemma percentDecode_plain: "c \<noteq> CHR ''%'' \<Longrightarrow> percentDecode plussed (c # s) = (if plussed \<and> c = CHR ''+'' then 32 else of_char c) # percentDecode plussed s"
  by (cases s; cases "tl s") simp_all

lemma utf8Decode_utf8: "utf8Decode (utf8 c @ bs) = c # utf8Decode bs"
proof (cases "(of_char c :: nat) < 128")
  case True
  then show ?thesis by (simp add: utf8_def Let_def)
next
  case False
  have "of_char c div 64 * 64 + of_char c mod 64 = (of_char c :: nat)" by (rule div_mult_mod_eq)
  then show ?thesis using False by (simp add: utf8_def Let_def)
qed

lemma percentByte_plain: "b < 256 \<Longrightarrow> x \<in> set (percentByte b) \<Longrightarrow> x \<noteq> CHR ''&'' \<and> x \<noteq> CHR ''=''"
proof -
  have h: "hexDigit n \<noteq> CHR ''&'' \<and> hexDigit n \<noteq> CHR ''=''" if "n < 16" for n
    using below_16[OF that] by (elim insertE emptyE) (simp_all add: hexDigit_def)
  assume "b < 256" "x \<in> set (percentByte b)"
  then have "x = CHR ''%'' \<or> x = hexDigit (b div 16) \<or> x = hexDigit (b mod 16)" "b div 16 < 16" "b mod 16 < 16"
    by (auto simp: percentByte_def)
  then show ?thesis using h by auto
qed

text \<open>The contract of an encoding: the characters it leaves alone are ASCII and mean nothing to the decoder.\<close>

locale percent_codec =
  fixes plussed :: bool and safe :: "char \<Rightarrow> bool"
  assumes safe_ascii: "safe c \<Longrightarrow> (of_char c :: nat) < 128"
    and safe_plain: "safe c \<Longrightarrow> c \<noteq> CHR ''%'' \<and> c \<noteq> CHR ''&'' \<and> c \<noteq> CHR ''='' \<and> c \<noteq> CHR '' ''"
    and safe_plus: "plussed \<Longrightarrow> safe c \<Longrightarrow> c \<noteq> CHR ''+''"
begin

lemma decode_char: "percentDecode plussed (encodeChar plussed safe c @ s) = utf8 c @ percentDecode plussed s"
proof -
  consider (space) "plussed" "c = CHR '' ''" | (safe) "\<not> (plussed \<and> c = CHR '' '')" "safe c"
    | (other) "\<not> (plussed \<and> c = CHR '' '')" "\<not> safe c" by blast
  then show ?thesis
  proof cases
    case space
    then show ?thesis by (simp add: encodeChar_def percentDecode_plain utf8_def)
  next
    case safe
    then show ?thesis using safe_plain[of c] safe_ascii[of c] safe_plus[of c]
      by (simp add: encodeChar_def percentDecode_plain utf8_def Let_def)
  next
    case other
    then have "encodeChar plussed safe c = concat (map percentByte (utf8 c))" by (auto simp: encodeChar_def)
    then show ?thesis by (simp only: percentDecode_percents[OF utf8_bytes])
  qed
qed

lemma decode_bytes: "percentDecode plussed (concat (map (encodeChar plussed safe) s)) = concat (map utf8 s)"
  by (induction s) (simp_all add: decode_char)

lemma roundtrip: "utf8Decode (percentDecode plussed (concat (map (encodeChar plussed safe) s))) = s"
proof -
  have "utf8Decode (concat (map utf8 s)) = s" by (induction s) (simp_all add: utf8Decode_utf8)
  then show ?thesis by (simp add: decode_bytes)
qed

lemma no_separators: "x \<in> set (concat (map (encodeChar plussed safe) s)) \<Longrightarrow> x \<noteq> CHR ''&'' \<and> x \<noteq> CHR ''=''"
proof -
  assume "x \<in> set (concat (map (encodeChar plussed safe) s))"
  then obtain c where c: "x \<in> set (encodeChar plussed safe c)" by auto
  show ?thesis
  proof (cases "plussed \<and> c = CHR '' '' \<or> safe c")
    case True
    then show ?thesis using c safe_plain[of c] by (auto simp: encodeChar_def split: if_splits)
  next
    case False
    then obtain b where "b \<in> set (utf8 c)" "x \<in> set (percentByte b)" using c by (auto simp: encodeChar_def split: if_splits)
    then show ?thesis using percentByte_plain utf8_bytes by blast
  qed
qed

end

section \<open>The two encodings\<close>

lemma formSafe_cases: "formSafe c \<Longrightarrow> (of_char c :: nat) < 128 \<and> c \<notin> {CHR ''%'', CHR ''&'', CHR ''='', CHR '' '', CHR ''+''}"
  by (auto simp: formSafe_def isLower_def isUpper_def isDigit_def)

lemma uriSafe_cases: "uriSafe c \<Longrightarrow> (of_char c :: nat) < 128 \<and> c \<notin> {CHR ''%'', CHR ''&'', CHR ''='', CHR '' ''}"
  by (auto simp: uriSafe_def isLower_def isUpper_def isDigit_def)

interpretation form: percent_codec True formSafe
  by unfold_locales (use formSafe_cases in blast)+

interpretation uri: percent_codec False uriSafe
  by unfold_locales (use uriSafe_cases in blast)+

lemma decodeForm_formEncode: "decodeForm (formEncode s) = s"
  by (simp add: decodeForm_def formEncode_def form.roundtrip)

lemma decode_encodeURIComponent: "utf8Decode (percentDecode False (encodeURIComponent s)) = s"
  by (simp add: encodeURIComponent_def uri.roundtrip)

lemma formEncode_plain: "CHR ''&'' \<notin> set (formEncode s)" "CHR ''='' \<notin> set (formEncode s)"
  using form.no_separators[of _ s] by (auto simp: formEncode_def)

lemma readParam_text: "readParam (formEncode k @ ''='' @ formEncode v) = (k, v)"
proof -
  have "takeWhile (\<lambda>c. c \<noteq> CHR ''='') (formEncode k @ ''='' @ formEncode v) = formEncode k"
    "dropWhile (\<lambda>c. c \<noteq> CHR ''='') (formEncode k @ ''='' @ formEncode v) = ''='' @ formEncode v"
    using formEncode_plain(2)[of k] by (auto simp: takeWhile_append dropWhile_append)
  then show ?thesis by (simp add: readParam_def decodeForm_formEncode)
qed

lemma readParams_text: "readParams (paramsText ps) = ps"
proof (cases ps)
  case Nil
  then show ?thesis by (simp add: readParams_def paramsText_def)
next
  case (Cons p ps')
  let ?ts = "map (\<lambda>(k, v). formEncode k @ ''='' @ formEncode v) ps"
  have ne: "?ts \<noteq> []" using Cons by simp
  have free: "\<forall>t \<in> set ?ts. CHR ''&'' \<notin> set t" using formEncode_plain(1) by auto
  have "paramsText ps \<noteq> []" using Cons by (cases p; cases ps') (auto simp: paramsText_def)
  then have "readParams (paramsText ps) = map readParam ?ts"
    using split_joinWith[OF ne free] by (simp add: readParams_def paramsText_def)
  also have "\<dots> = map (\<lambda>(k, v). (k, v)) ps" unfolding map_map by (intro map_cong) (auto simp: readParam_text[simplified])
  also have "\<dots> = ps" by simp
  finally show ?thesis .
qed

end
