(* ===== verification/WorkflowHistory.thy ===== *)
theory WorkflowHistory
  imports JsText JsNumber "HOL-Library.Product_Lexorder"
begin

text \<open>
  The event history of a workflow: \<open>types/workflow.ts\<close>, \<open>lib/eventOrder.ts\<close>, \<open>lib/pairing.ts\<close>.
  \<open>Date.parse\<close> is implementation-defined
  outside one format, so it is an argument \<open>dateParse\<close> of the definitions that use it (\<open>None\<close> is \<open>NaN\<close>,
  a value is milliseconds) and every theorem holds for all of its implementations.
\<close>

section \<open>Events\<close>

datatype WorkflowStatus = Pending | Running | Completed | WFailed | Terminated | Suspended

record WorkflowFailureDetails =
  wfd_errorType :: "string option"
  wfd_message :: "string option"
  wfd_stackTrace :: "string option"

record WorkflowHistoryEvent =
  we_sequenceId :: int
  we_timestamp :: string
  we_type :: string
  we_name :: "string option"
  we_instanceId :: "string option"
  we_scheduledId :: "int option"
  we_input :: "string option"
  we_output :: "string option"
  we_failureDetails :: "WorkflowFailureDetails option"

section \<open>Order of display\<close>

definition TERMINAL_EXEC_TYPES :: "string list" where
  "TERMINAL_EXEC_TYPES = [''ExecutionCompleted'', ''ExecutionFailed'', ''ExecutionTerminated'']"

definition pinRank :: "WorkflowHistoryEvent \<Rightarrow> int" where
  "pinRank event =
     (if we_type event = ''ExecutionStarted'' then 0
      else if we_type event \<in> set TERMINAL_EXEC_TYPES then 2
      else 1)"

definition compareEvents :: "(string \<Rightarrow> int option) \<Rightarrow> WorkflowHistoryEvent \<times> int \<Rightarrow> WorkflowHistoryEvent \<times> int \<Rightarrow> int" where
  "compareEvents dateParse a b =
     (let rankA = pinRank (fst a); rankB = pinRank (fst b) in
      if rankA \<noteq> rankB then rankA - rankB
      else
        case (dateParse (we_timestamp (fst a)), dateParse (we_timestamp (fst b))) of
          (Some ta, Some tb) \<Rightarrow> if ta \<noteq> tb then ta - tb else snd a - snd b
        | _ \<Rightarrow> snd a - snd b)"

text \<open>
  \<open>Array.prototype.sort\<close>. Its result is determined when the comparator is a total order, which
  \<open>compareEvents\<close> is on histories whose timestamps all parse; elsewhere the language leaves the order to
  the implementation and insertion stands for it.
\<close>

fun insertBy :: "('a \<Rightarrow> 'a \<Rightarrow> int) \<Rightarrow> 'a \<Rightarrow> 'a list \<Rightarrow> 'a list" where
  "insertBy cmp x [] = [x]"
| "insertBy cmp x (y # ys) = (if cmp x y \<le> 0 then x # y # ys else y # insertBy cmp x ys)"

definition sortBy :: "('a \<Rightarrow> 'a \<Rightarrow> int) \<Rightarrow> 'a list \<Rightarrow> 'a list" where
  "sortBy cmp xs = foldr (insertBy cmp) xs []"

fun indexed :: "int \<Rightarrow> 'a list \<Rightarrow> ('a \<times> int) list" where
  "indexed i [] = []"
| "indexed i (x # xs) = (x, i) # indexed (i + 1) xs"

definition sortHistoryForDisplay :: "(string \<Rightarrow> int option) \<Rightarrow> WorkflowHistoryEvent list \<Rightarrow> WorkflowHistoryEvent list" where
  "sortHistoryForDisplay dateParse history = map fst (sortBy (compareEvents dateParse) (indexed 0 history))"

datatype HistoryOrder = Asc | Desc

definition orderHistoryForDisplay ::
  "(string \<Rightarrow> int option) \<Rightarrow> WorkflowHistoryEvent list \<Rightarrow> HistoryOrder \<Rightarrow> WorkflowHistoryEvent list" where
  "orderHistoryForDisplay dateParse history order =
     (let ascending = sortHistoryForDisplay dateParse history
      in case order of Desc \<Rightarrow> rev ascending | Asc \<Rightarrow> ascending)"

definition eventAnchorId :: "nat \<Rightarrow> string" where
  "eventAnchorId canonicalIndex = ''event-'' @ showNat canonicalIndex"

section \<open>Pairs\<close>

definition START_TYPES :: "string list" where
  "START_TYPES = [''TaskScheduled'', ''TimerCreated'', ''SubOrchestrationCreated'']"

definition END_TYPES :: "string list" where
  "END_TYPES = [''TaskCompleted'', ''TaskFailed'', ''TimerFired'', ''SubOrchestrationCompleted'', ''SubOrchestrationFailed'']"

datatype PairRole = Start | End

record PairInfo =
  pi_pairId :: int
  pi_role :: PairRole
  pi_partnerIndex :: "nat option"
  pi_durationMs :: "int option"

text \<open>The result by index, and the open starts of each id, the most recent last.\<close>

type_synonym pairing = "(nat \<rightharpoonup> PairInfo) \<times> (int \<times> nat list) list"

definition openStack :: "(int \<times> nat list) list \<Rightarrow> int \<Rightarrow> nat list" where
  "openStack opened k = (case map_of opened k of Some s \<Rightarrow> s | None \<Rightarrow> [])"

definition pairDuration :: "(string \<Rightarrow> int option) \<Rightarrow> WorkflowHistoryEvent \<Rightarrow> WorkflowHistoryEvent \<Rightarrow> int option" where
  "pairDuration dateParse startEvent endEvent =
     (case (dateParse (we_timestamp startEvent), dateParse (we_timestamp endEvent)) of
        (Some s, Some e) \<Rightarrow> if e < s then None else Some (e - s)
      | _ \<Rightarrow> None)"

definition isStartEvent :: "WorkflowHistoryEvent \<Rightarrow> bool" where
  "isStartEvent event \<longleftrightarrow> we_type event \<in> set START_TYPES \<and> 0 \<le> we_sequenceId event"

definition isEndEvent :: "WorkflowHistoryEvent \<Rightarrow> bool" where
  "isEndEvent event \<longleftrightarrow> we_type event \<in> set END_TYPES \<and> we_scheduledId event \<noteq> None"

text \<open>The body of the loop for the event at \<open>index\<close>.\<close>

definition pairStep :: "(string \<Rightarrow> int option) \<Rightarrow> WorkflowHistoryEvent list \<Rightarrow> pairing \<Rightarrow> nat \<Rightarrow> pairing" where
  "pairStep dateParse ascending st index =
     (case st of (result, opened) \<Rightarrow>
      let event = ascending ! index in
      if isStartEvent event then
        (result, putKey (we_sequenceId event) (openStack opened (we_sequenceId event) @ [index]) opened)
      else if isEndEvent event then
        (let pairId = the (we_scheduledId event); stack = openStack opened pairId in
         if stack = [] then
           (result(index \<mapsto> \<lparr>pi_pairId = pairId, pi_role = End, pi_partnerIndex = None, pi_durationMs = None\<rparr>), opened)
         else
           let startIndex = last stack;
               durationMs = pairDuration dateParse (ascending ! startIndex) event
           in (result(startIndex \<mapsto> \<lparr>pi_pairId = pairId, pi_role = Start, pi_partnerIndex = Some index, pi_durationMs = None\<rparr>,
                      index \<mapsto> \<lparr>pi_pairId = pairId, pi_role = End, pi_partnerIndex = Some startIndex, pi_durationMs = durationMs\<rparr>),
               putKey pairId (butlast stack) opened))
      else st)"

text \<open>The starts still on a stack.\<close>

definition closeOpen :: "(nat \<rightharpoonup> PairInfo) \<Rightarrow> int \<times> nat list \<Rightarrow> (nat \<rightharpoonup> PairInfo)" where
  "closeOpen result entry =
     (case entry of (pairId, stack) \<Rightarrow>
      foldl (\<lambda>r startIndex. r(startIndex \<mapsto> \<lparr>pi_pairId = pairId, pi_role = Start, pi_partnerIndex = None, pi_durationMs = None\<rparr>))
        result stack)"

definition buildPairIndex :: "(string \<Rightarrow> int option) \<Rightarrow> WorkflowHistoryEvent list \<Rightarrow> (nat \<rightharpoonup> PairInfo)" where
  "buildPairIndex dateParse ascending =
     (case foldl (pairStep dateParse ascending) (Map.empty, []) [0..<length ascending] of
        (result, opened) \<Rightarrow> foldl closeOpen result opened)"

section \<open>The order is the intended one\<close>

lemma insertBy_insort:
  assumes "\<forall>p \<in> set ps. i < snd p" "\<forall>p \<in> insert (x, i) (set ps). dateParse (we_timestamp (fst p)) \<noteq> None"
  shows "map fst (insertBy (compareEvents dateParse) (x, i) ps) =
    insort_key (\<lambda>e. (pinRank e, the (dateParse (we_timestamp e)))) x (map fst ps)"
  using assms
proof (induction ps)
  case (Cons p ps)
  have "compareEvents dateParse (x, i) p \<le> 0 \<longleftrightarrow>
    (pinRank x, the (dateParse (we_timestamp x))) \<le> (pinRank (fst p), the (dateParse (we_timestamp (fst p))))"
    using Cons.prems by (auto simp: compareEvents_def Let_def less_eq_prod_def split: option.splits)
  then show ?case using Cons by simp
qed simp

lemma insertBy_set: "set (insertBy cmp x ys) = insert x (set ys)"
  by (induction ys) auto

lemma foldr_insertBy_set: "set (foldr (insertBy cmp) xs []) = set xs"
  by (induction xs) (auto simp: insertBy_set)

lemma indexed_snd: "p \<in> set (indexed i xs) \<Longrightarrow> i \<le> snd p"
  by (induction xs arbitrary: i) fastforce+

lemma indexed_fst: "fst ` set (indexed i xs) = set xs"
  by (induction xs arbitrary: i) auto

lemma sortHistory_from:
  assumes "\<forall>e \<in> set history. dateParse (we_timestamp e) \<noteq> None"
  shows "map fst (foldr (insertBy (compareEvents dateParse)) (indexed i history) []) =
    sort_key (\<lambda>e. (pinRank e, the (dateParse (we_timestamp e)))) history"
  using assms
proof (induction history arbitrary: i)
  case (Cons e history)
  let ?ps = "foldr (insertBy (compareEvents dateParse)) (indexed (i + 1) history) []"
  have "\<forall>p \<in> set ?ps. i < snd p" unfolding foldr_insertBy_set using indexed_snd[of _ "i + 1" history] by fastforce
  moreover have "\<forall>p \<in> insert (e, i) (set ?ps). dateParse (we_timestamp (fst p)) \<noteq> None"
    unfolding foldr_insertBy_set using Cons.prems indexed_fst[of "i + 1" history] by auto
  ultimately show ?case using insertBy_insort[of ?ps i e dateParse] Cons by simp
qed simp

text \<open>
  C30. When every timestamp parses, the displayed history is the stable sort of the recorded one by rank
  and time: \<open>ExecutionStarted\<close> first, the terminal event last, the rest chronological, events of equal
  time in their recorded order; the descending view is its reverse.
\<close>

theorem history_ordered:
  assumes "list_all (\<lambda>e. dateParse (we_timestamp e) \<noteq> None) history"
  shows "sortHistoryForDisplay dateParse history = sort_key (\<lambda>e. (pinRank e, the (dateParse (we_timestamp e)))) history \<and>
    orderHistoryForDisplay dateParse history Desc = rev (orderHistoryForDisplay dateParse history Asc)"
  using sortHistory_from[of history dateParse 0] assms
  by (simp add: sortHistoryForDisplay_def sortBy_def orderHistoryForDisplay_def list_all_iff)

definition demoEvent :: "string \<Rightarrow> string \<Rightarrow> int \<Rightarrow> int option \<Rightarrow> WorkflowHistoryEvent" where
  "demoEvent kind stamp seq scheduled =
     \<lparr>we_sequenceId = seq, we_timestamp = stamp, we_type = kind, we_name = None, we_instanceId = None, we_scheduledId = scheduled,
      we_input = None, we_output = None, we_failureDetails = None\<rparr>"

theorem history_ordered_witness:
  "sortHistoryForDisplay (\<lambda>s. Some (int (length s)))
     [demoEvent ''ExecutionCompleted'' ''a'' 0 None, demoEvent ''TaskScheduled'' ''abc'' 0 None, demoEvent ''ExecutionStarted'' ''abcd'' (-1) None] =
   [demoEvent ''ExecutionStarted'' ''abcd'' (-1) None, demoEvent ''TaskScheduled'' ''abc'' 0 None, demoEvent ''ExecutionCompleted'' ''a'' 0 None]"
  using history_ordered[of "\<lambda>s. Some (int (length s))"
      "[demoEvent ''ExecutionCompleted'' ''a'' 0 None, demoEvent ''TaskScheduled'' ''abc'' 0 None, demoEvent ''ExecutionStarted'' ''abcd'' (-1) None]"]
  by (simp add: demoEvent_def pinRank_def TERMINAL_EXEC_TYPES_def less_eq_prod_def)

text \<open>With timestamps that do not parse the comparator is not an order: three events in a circle.\<close>

lemma compareEvents_circle:
  assumes "dateParse late = Some 2" "dateParse early = Some 1" "dateParse bad = None"
  shows "compareEvents dateParse (demoEvent ''T'' late 0 None, 0) (demoEvent ''T'' bad 0 None, 1) < 0"
    "compareEvents dateParse (demoEvent ''T'' bad 0 None, 1) (demoEvent ''T'' early 0 None, 2) < 0"
    "compareEvents dateParse (demoEvent ''T'' early 0 None, 2) (demoEvent ''T'' late 0 None, 0) < 0"
  using assms by (simp_all add: compareEvents_def demoEvent_def pinRank_def)

section \<open>Pairs are sound and complete\<close>

text \<open>
  What the entry \<open>p\<close> of the event at \<open>i\<close> must say. A start names its id, and a completion its
  back-reference; partners name each other, the start comes first, a completion's duration is the time
  between the two when that is known and not negative; and a completion closes the most recent start
  that was still open: every later start of the same id had completed before.
\<close>

definition closedWithin :: "WorkflowHistoryEvent list \<Rightarrow> (nat \<rightharpoonup> PairInfo) \<Rightarrow> int \<Rightarrow> nat \<Rightarrow> nat \<Rightarrow> bool" where
  "closedWithin evs r k s e \<longleftrightarrow>
     (\<forall>i. s < i \<and> i < e \<and> isStartEvent (evs ! i) \<and> we_sequenceId (evs ! i) = k \<longrightarrow>
        (\<exists>p j. r i = Some p \<and> pi_partnerIndex p = Some j \<and> j < e))"

definition wellPaired :: "(string \<Rightarrow> int option) \<Rightarrow> WorkflowHistoryEvent list \<Rightarrow> (nat \<rightharpoonup> PairInfo) \<Rightarrow> nat \<Rightarrow> PairInfo \<Rightarrow> bool" where
  "wellPaired dateParse evs r i p =
     (case pi_role p of
        Start \<Rightarrow> isStartEvent (evs ! i) \<and> we_sequenceId (evs ! i) = pi_pairId p \<and> pi_durationMs p = None \<and>
          (case pi_partnerIndex p of
             None \<Rightarrow> True
           | Some j \<Rightarrow> i < j \<and> (\<exists>q. r j = Some q \<and> pi_role q = End \<and> pi_partnerIndex q = Some i \<and> pi_pairId q = pi_pairId p))
      | End \<Rightarrow> isEndEvent (evs ! i) \<and> we_scheduledId (evs ! i) = Some (pi_pairId p) \<and>
          (case pi_partnerIndex p of
             None \<Rightarrow> pi_durationMs p = None
           | Some j \<Rightarrow> j < i \<and> pi_durationMs p = pairDuration dateParse (evs ! j) (evs ! i) \<and> closedWithin evs r (pi_pairId p) j i \<and>
               (\<exists>q. r j = Some q \<and> pi_role q = Start \<and> pi_partnerIndex q = Some i \<and> pi_pairId q = pi_pairId p)))"

definition pairInv :: "(string \<Rightarrow> int option) \<Rightarrow> WorkflowHistoryEvent list \<Rightarrow> nat \<Rightarrow> pairing \<Rightarrow> bool" where
  "pairInv dateParse evs n st \<longleftrightarrow>
     (case st of (r, opened) \<Rightarrow>
      distinct (map fst opened) \<and> (\<forall>k. sorted_wrt (<) (openStack opened k)) \<and>
      (\<forall>k i. i \<in> set (openStack opened k) \<longrightarrow> i < n \<and> isStartEvent (evs ! i) \<and> we_sequenceId (evs ! i) = k \<and> r i = None) \<and>
      (\<forall>i < n. isStartEvent (evs ! i) \<and> i \<notin> set (openStack opened (we_sequenceId (evs ! i))) \<longrightarrow>
         (\<exists>p j. r i = Some p \<and> pi_partnerIndex p = Some j \<and> j < n)) \<and>
      (\<forall>i < n. isEndEvent (evs ! i) \<longrightarrow> r i \<noteq> None) \<and>
      (\<forall>i p. r i = Some p \<longrightarrow> i < n \<and> wellPaired dateParse evs r i p))"

lemma start_not_end: "isStartEvent e \<Longrightarrow> \<not> isEndEvent e"
  by (auto simp: isStartEvent_def isEndEvent_def START_TYPES_def END_TYPES_def)

lemma openStack_put: "openStack (putKey k s opened) l = (if k = l then s else openStack opened l)"
  by (simp add: openStack_def map_of_putKey)

text \<open>Entries are never overwritten, so what held of one still holds when others are added.\<close>

lemma closedWithin_mono: "closedWithin evs r k s e \<Longrightarrow> r \<subseteq>\<^sub>m r' \<Longrightarrow> closedWithin evs r' k s e"
  unfolding closedWithin_def by (metis domI map_le_def)

lemma wellPaired_mono:
  assumes "wellPaired dateParse evs r i p" "r \<subseteq>\<^sub>m r'"
  shows "wellPaired dateParse evs r' i p"
proof -
  have m: "r j = Some q \<Longrightarrow> r' j = Some q" for j q using assms(2) by (metis domI map_le_def)
  show ?thesis using assms(1) closedWithin_mono[OF _ assms(2)]
    by (auto simp: wellPaired_def split: PairRole.splits option.splits dest!: m)
qed

lemma pairInvD:
  assumes "pairInv dateParse evs n (r, opened)"
  shows "distinct (map fst opened)" "sorted_wrt (<) (openStack opened k)"
    "i \<in> set (openStack opened k) \<Longrightarrow> i < n \<and> isStartEvent (evs ! i) \<and> we_sequenceId (evs ! i) = k \<and> r i = None"
    "i < n \<Longrightarrow> isStartEvent (evs ! i) \<Longrightarrow> i \<notin> set (openStack opened (we_sequenceId (evs ! i))) \<Longrightarrow>
      \<exists>p j. r i = Some p \<and> pi_partnerIndex p = Some j \<and> j < n"
    "i < n \<Longrightarrow> isEndEvent (evs ! i) \<Longrightarrow> r i \<noteq> None"
    "r i = Some p \<Longrightarrow> i < n \<and> wellPaired dateParse evs r i p"
  using assms by (auto simp: pairInv_def)

lemma pairInvI:
  assumes "distinct (map fst opened)" "\<And>k. sorted_wrt (<) (openStack opened k)"
    "\<And>k i. i \<in> set (openStack opened k) \<Longrightarrow> i < n \<and> isStartEvent (evs ! i) \<and> we_sequenceId (evs ! i) = k \<and> r i = None"
    "\<And>i. i < n \<Longrightarrow> isStartEvent (evs ! i) \<Longrightarrow> i \<notin> set (openStack opened (we_sequenceId (evs ! i))) \<Longrightarrow>
      \<exists>p j. r i = Some p \<and> pi_partnerIndex p = Some j \<and> j < n"
    "\<And>i. i < n \<Longrightarrow> isEndEvent (evs ! i) \<Longrightarrow> r i \<noteq> None"
    "\<And>i p. r i = Some p \<Longrightarrow> i < n \<and> wellPaired dateParse evs r i p"
  shows "pairInv dateParse evs n (r, opened)"
  using assms by (simp add: pairInv_def)

lemma pairInv_start:
  assumes inv: "pairInv dateParse evs n (r, opened)" and start: "isStartEvent (evs ! n)"
  shows "pairInv dateParse evs (Suc n)
    (r, putKey (we_sequenceId (evs ! n)) (openStack opened (we_sequenceId (evs ! n)) @ [n]) opened)"
proof (rule pairInvI)
  note D = pairInvD[OF inv]
  have fresh: "r n = None" using D(6)[of n] by fastforce
  show "distinct (map fst (putKey (we_sequenceId (evs ! n)) (openStack opened (we_sequenceId (evs ! n)) @ [n]) opened))"
    using D(1) by (rule distinct_putKey)
  show "sorted_wrt (<) (openStack (putKey (we_sequenceId (evs ! n)) (openStack opened (we_sequenceId (evs ! n)) @ [n]) opened) k)" for k
    using D(2)[of k] D(3)[of _ k] by (auto simp: openStack_put sorted_wrt_append)
  show "i < Suc n \<and> isStartEvent (evs ! i) \<and> we_sequenceId (evs ! i) = k \<and> r i = None"
    if "i \<in> set (openStack (putKey (we_sequenceId (evs ! n)) (openStack opened (we_sequenceId (evs ! n)) @ [n]) opened) k)" for k i
    using that D(3)[of i k] start fresh by (auto simp: openStack_put split: if_splits)
  show "\<exists>p j. r i = Some p \<and> pi_partnerIndex p = Some j \<and> j < Suc n" if "i < Suc n" "isStartEvent (evs ! i)"
    "i \<notin> set (openStack (putKey (we_sequenceId (evs ! n)) (openStack opened (we_sequenceId (evs ! n)) @ [n]) opened) (we_sequenceId (evs ! i)))" for i
  proof -
    have "i \<noteq> n" using that(3) by (auto simp: openStack_put)
    then have "i < n" "i \<notin> set (openStack opened (we_sequenceId (evs ! i)))" using that(1,3) by (auto simp: openStack_put split: if_splits)
    then show ?thesis using D(4)[OF _ that(2)] less_SucI by metis
  qed
  show "r i \<noteq> None" if "i < Suc n" "isEndEvent (evs ! i)" for i
    using that D(5)[of i] start_not_end[OF start] by (metis less_antisym)
  show "i < Suc n \<and> wellPaired dateParse evs r i p" if "r i = Some p" for i p
    using D(6)[OF that] by simp
qed

lemma pairInv_orphan:
  assumes inv: "pairInv dateParse evs n (r, opened)" and "end": "isEndEvent (evs ! n)"
    and "openStack opened (the (we_scheduledId (evs ! n))) = []"
  shows "pairInv dateParse evs (Suc n)
    (r(n \<mapsto> \<lparr>pi_pairId = the (we_scheduledId (evs ! n)), pi_role = End, pi_partnerIndex = None, pi_durationMs = None\<rparr>), opened)"
    (is "pairInv _ _ _ (?r, _)")
proof (rule pairInvI)
  note D = pairInvD[OF inv]
  have fresh: "r n = None" using D(6)[of n] by fastforce
  have le: "r \<subseteq>\<^sub>m ?r" using fresh by (auto simp: map_le_def)
  have ns: "\<not> isStartEvent (evs ! n)" using "end" start_not_end by blast
  show "distinct (map fst opened)" "\<And>k. sorted_wrt (<) (openStack opened k)" by (rule D)+
  show "i < Suc n \<and> isStartEvent (evs ! i) \<and> we_sequenceId (evs ! i) = k \<and> ?r i = None"
    if "i \<in> set (openStack opened k)" for k i using D(3)[OF that] ns by auto
  show "\<exists>p j. ?r i = Some p \<and> pi_partnerIndex p = Some j \<and> j < Suc n" if "i < Suc n" "isStartEvent (evs ! i)"
    "i \<notin> set (openStack opened (we_sequenceId (evs ! i)))" for i
  proof -
    have "i \<noteq> n" "i < n" using that(1,2) ns by (auto simp: less_Suc_eq)
    then show ?thesis using D(4)[OF _ that(2,3)] by (metis fun_upd_other less_SucI)
  qed
  show "?r i \<noteq> None" if "i < Suc n" "isEndEvent (evs ! i)" for i
    using that D(5)[of i] by (auto simp: less_Suc_eq)
  show "i < Suc n \<and> wellPaired dateParse evs ?r i p" if "?r i = Some p" for i p
  proof (cases "i = n")
    case True
    then show ?thesis using that "end" by (auto simp: wellPaired_def isEndEvent_def)
  next
    case False
    then show ?thesis using that D(6)[of i p] wellPaired_mono[OF _ le] by simp
  qed
qed

lemma pairInv_matched:
  assumes inv: "pairInv dateParse evs n (r, opened)" and "end": "isEndEvent (evs ! n)" "we_scheduledId (evs ! n) = Some k"
    and stack: "openStack opened k \<noteq> []" "s = last (openStack opened k)"
  shows "pairInv dateParse evs (Suc n)
    (r(s \<mapsto> \<lparr>pi_pairId = k, pi_role = Start, pi_partnerIndex = Some n, pi_durationMs = None\<rparr>,
       n \<mapsto> \<lparr>pi_pairId = k, pi_role = End, pi_partnerIndex = Some s, pi_durationMs = pairDuration dateParse (evs ! s) (evs ! n)\<rparr>),
     putKey k (butlast (openStack opened k)) opened)"
    (is "pairInv _ _ _ (?r, ?o)")
proof (rule pairInvI)
  note D = pairInvD[OF inv]
  have split: "openStack opened k = butlast (openStack opened k) @ [s]" using stack by simp
  then have "s \<in> set (openStack opened k)" by (metis in_set_conv_decomp)
  from D(3)[OF this] have s: "s < n" "isStartEvent (evs ! s)" "we_sequenceId (evs ! s) = k" "r s = None" by auto
  have fresh: "r n = None" using D(6)[of n] by fastforce
  have le: "r \<subseteq>\<^sub>m ?r" using fresh s(4) by (auto simp: map_le_def)
  have m: "r i = Some p \<Longrightarrow> ?r i = Some p" for i p using le by (metis domI map_le_def)
  have ns: "\<not> isStartEvent (evs ! n)" using "end"(1) start_not_end by blast
  have sw: "sorted_wrt (<) (butlast (openStack opened k) @ [s])" using D(2)[of k] split by simp
  then have below: "i < s" if "i \<in> set (butlast (openStack opened k))" for i using that by (auto simp: sorted_wrt_append)
  show "distinct (map fst ?o)" using D(1) by (rule distinct_putKey)
  show "sorted_wrt (<) (openStack ?o l)" for l using D(2)[of l] sw by (auto simp: openStack_put sorted_wrt_append)
  show "i < Suc n \<and> isStartEvent (evs ! i) \<and> we_sequenceId (evs ! i) = l \<and> ?r i = None" if "i \<in> set (openStack ?o l)" for l i
  proof -
    have i: "i \<in> set (openStack opened l)" "i \<noteq> s"
      using that below[of i] D(3)[of i l] s(3) by (auto simp: openStack_put split: if_splits dest: in_set_butlastD)
    then show ?thesis using D(3)[OF i(1)] ns by auto
  qed
  have closed: "\<exists>p j. ?r i = Some p \<and> pi_partnerIndex p = Some j \<and> j < Suc n" if "i < n" "isStartEvent (evs ! i)"
    "i \<notin> set (openStack ?o (we_sequenceId (evs ! i)))" for i
  proof (cases "i = s")
    case True
    then show ?thesis using s(1) by auto
  next
    case False
    then have "i \<notin> set (openStack opened (we_sequenceId (evs ! i)))"
      using that(3) split by (cases "k = we_sequenceId (evs ! i)") (auto simp: openStack_put, metis in_set_conv_decomp rotate1.simps(2) set_ConsD set_rotate1)
    then show ?thesis using D(4)[OF that(1,2)] m by (metis less_SucI)
  qed
  show "\<exists>p j. ?r i = Some p \<and> pi_partnerIndex p = Some j \<and> j < Suc n" if "i < Suc n" "isStartEvent (evs ! i)"
    "i \<notin> set (openStack ?o (we_sequenceId (evs ! i)))" for i
    using closed[OF _ that(2,3)] that(1,2) ns by (auto simp: less_Suc_eq)
  show "?r i \<noteq> None" if "i < Suc n" "isEndEvent (evs ! i)" for i using that D(5)[of i] by (auto simp: less_Suc_eq)
  have cw: "closedWithin evs ?r k s n" unfolding closedWithin_def
  proof (intro allI impI)
    fix i assume i: "s < i \<and> i < n \<and> isStartEvent (evs ! i) \<and> we_sequenceId (evs ! i) = k"
    then have "i \<notin> set (butlast (openStack opened k))" using below[of i] by auto
    then have "i \<notin> set (openStack opened k)" using i split by (metis Un_iff empty_iff less_irrefl list.set(1) set_ConsD set_append)
    then obtain p j where "r i = Some p" "pi_partnerIndex p = Some j" "j < n" using D(4)[of i] i by auto
    then show "\<exists>p j. ?r i = Some p \<and> pi_partnerIndex p = Some j \<and> j < n" using m by blast
  qed
  show "i < Suc n \<and> wellPaired dateParse evs ?r i p" if ri: "?r i = Some p" for i p
  proof -
    consider "i = n" | "i = s" "i \<noteq> n" | "r i = Some p" using ri by (auto split: if_splits)
    then show ?thesis
    proof cases
      case 1
      then show ?thesis using ri "end" s cw by (auto simp: wellPaired_def)
    next
      case 2
      then show ?thesis using ri s by (auto simp: wellPaired_def)
    next
      case 3
      then show ?thesis using D(6)[of i p] wellPaired_mono[OF _ le] by auto
    qed
  qed
qed

lemma pairInv_step:
  assumes "pairInv dateParse evs n st"
  shows "pairInv dateParse evs (Suc n) (pairStep dateParse evs st n)"
proof -
  obtain r opened where st: "st = (r, opened)" by (cases st)
  note inv = assms[unfolded st]
  consider "isStartEvent (evs ! n)" | k where "isEndEvent (evs ! n)" "we_scheduledId (evs ! n) = Some k"
    | "\<not> isStartEvent (evs ! n)" "\<not> isEndEvent (evs ! n)" by (metis isEndEvent_def option.exhaust)
  then show ?thesis
  proof cases
    case 1
    then show ?thesis using pairInv_start[OF inv 1] by (simp add: st pairStep_def Let_def)
  next
    case 2
    then have "\<not> isStartEvent (evs ! n)" using start_not_end by blast
    then show ?thesis using 2 pairInv_orphan[OF inv 2(1)] pairInv_matched[OF inv 2(1,2)]
      by (simp add: st pairStep_def Let_def)
  next
    case 3
    then have "pairInv dateParse evs (Suc n) (r, opened)"
      using inv by (auto simp: pairInv_def less_Suc_eq)
    then show ?thesis using 3 by (simp add: st pairStep_def Let_def)
  qed
qed

lemma pairInv_foldl: "pairInv dateParse evs n (foldl (pairStep dateParse evs) (Map.empty, []) [0..<n])"
  by (induction n) (auto simp: pairInv_step, simp add: pairInv_def openStack_def)


abbreviation unmatchedStart :: "int \<Rightarrow> PairInfo" where
  "unmatchedStart k \<equiv> \<lparr>pi_pairId = k, pi_role = Start, pi_partnerIndex = None, pi_durationMs = None\<rparr>"

lemma closeOpen_at: "closeOpen r (k, stack) i = (if i \<in> set stack then Some (unmatchedStart k) else r i)"
proof -
  have "foldl (\<lambda>r j. r(j \<mapsto> unmatchedStart k)) r stack i = (if i \<in> set stack then Some (unmatchedStart k) else r i)"
    by (induction stack arbitrary: r) auto
  then show ?thesis by (simp add: closeOpen_def)
qed

lemma foldl_closeOpen:
  assumes "\<forall>(k, stack) \<in> set opened. \<forall>i \<in> set stack. we_sequenceId (evs ! i) = k"
  shows "foldl closeOpen r opened i =
    (if \<exists>(k, stack) \<in> set opened. i \<in> set stack then Some (unmatchedStart (we_sequenceId (evs ! i))) else r i)"
  using assms by (induction opened arbitrary: r) (auto simp: closeOpen_at)

lemma openStack_mem: "distinct (map fst opened) \<Longrightarrow> (k, stack) \<in> set opened \<Longrightarrow> openStack opened k = stack"
  by (simp add: openStack_def)

lemma openStack_ex: "i \<in> set (openStack opened k) \<Longrightarrow> \<exists>(k, stack) \<in> set opened. i \<in> set stack"
  by (cases "map_of opened k") (auto simp: openStack_def dest: map_of_SomeD)

text \<open>The closing loop fills in the starts that are still open and touches nothing else.\<close>

lemma buildPairIndex_cases:
  obtains r opened where "pairInv dateParse evs (length evs) (r, opened)"
    "\<forall>i. buildPairIndex dateParse evs i =
      (if \<exists>k. i \<in> set (openStack opened k) then Some (unmatchedStart (we_sequenceId (evs ! i))) else r i)"
proof -
  obtain r opened where ro: "foldl (pairStep dateParse evs) (Map.empty, []) [0..<length evs] = (r, opened)" by fastforce
  have inv: "pairInv dateParse evs (length evs) (r, opened)" using pairInv_foldl[of dateParse evs "length evs"] ro by simp
  note D = pairInvD[OF inv]
  have ids: "\<forall>(k, stack) \<in> set opened. \<forall>i \<in> set stack. we_sequenceId (evs ! i) = k"
    using D(3) openStack_mem[OF D(1)] by fastforce
  have ex: "(\<exists>(k, stack) \<in> set opened. i \<in> set stack) \<longleftrightarrow> (\<exists>k. i \<in> set (openStack opened k))" for i
    using openStack_mem[OF D(1)] openStack_ex[of i opened] by fastforce
  have "buildPairIndex dateParse evs i =
      (if \<exists>k. i \<in> set (openStack opened k) then Some (unmatchedStart (we_sequenceId (evs ! i))) else r i)" for i
    unfolding buildPairIndex_def ro prod.case using foldl_closeOpen[OF ids, of r i] ex[of i] by simp
  then show ?thesis using that inv by blast
qed

lemma pairIndex_sound:
  assumes "buildPairIndex dateParse evs i = Some p"
  shows "wellPaired dateParse evs (buildPairIndex dateParse evs) i p \<and>
    dom (buildPairIndex dateParse evs) = {i. i < length evs \<and> (isStartEvent (evs ! i) \<or> isEndEvent (evs ! i))}"
proof -
  obtain r opened where inv: "pairInv dateParse evs (length evs) (r, opened)"
    and b: "\<forall>i. buildPairIndex dateParse evs i =
      (if \<exists>k. i \<in> set (openStack opened k) then Some (unmatchedStart (we_sequenceId (evs ! i))) else r i)"
    by (rule buildPairIndex_cases[of dateParse evs])
  note D = pairInvD[OF inv]
  have le: "r \<subseteq>\<^sub>m buildPairIndex dateParse evs" using D(3) by (auto simp: map_le_def b)
  have "wellPaired dateParse evs (buildPairIndex dateParse evs) i p"
  proof (cases "\<exists>k. i \<in> set (openStack opened k)")
    case True
    then show ?thesis using assms D(3) by (auto simp: b wellPaired_def)
  next
    case False
    then have "r i = Some p" using assms by (simp add: b)
    then show ?thesis using D(6)[of i p] wellPaired_mono[OF _ le] by blast
  qed
  moreover have "buildPairIndex dateParse evs j \<noteq> None \<longleftrightarrow> j < length evs \<and> (isStartEvent (evs ! j) \<or> isEndEvent (evs ! j))" for j
  proof
    assume "buildPairIndex dateParse evs j \<noteq> None"
    then consider k where "j \<in> set (openStack opened k)" | q where "r j = Some q" by (auto simp: b split: if_splits)
    then show "j < length evs \<and> (isStartEvent (evs ! j) \<or> isEndEvent (evs ! j))"
    proof cases
      case 1
      then show ?thesis using D(3) by blast
    next
      case 2
      then show ?thesis using D(6)[OF 2] by (auto simp: wellPaired_def split: PairRole.splits)
    qed
  next
    assume "j < length evs \<and> (isStartEvent (evs ! j) \<or> isEndEvent (evs ! j))"
    then show "buildPairIndex dateParse evs j \<noteq> None" using D(4)[of j] D(5)[of j] by (auto simp: b)
  qed
  ultimately show ?thesis by (auto simp: dom_def)
qed


definition demoHistory :: "WorkflowHistoryEvent list" where
  "demoHistory = [demoEvent ''TaskScheduled'' ''a'' 0 None, demoEvent ''TaskCompleted'' ''aaa'' (-1) (Some 0),
     demoEvent ''TaskScheduled'' ''aaaa'' 0 None]"


end
