(* ===== verification/PagedList.thy ===== *)
theory PagedList
  imports JsUrl WorkflowHistory
begin

text \<open>
  What the workflow list and the state browser share: the state stores they read from
  (\<open>lib/dedupeStores.ts\<close> and the store choice of \<open>pages/Workflows.tsx\<close> and \<open>pages/State.tsx\<close>),
  \<open>lib/parseEnum.ts\<close>, the ticked rows, and paging with a forward cursor. The locale \<open>paged_list\<close> is the
  contract of the Prev and Next buttons; both pages interpret it.
\<close>

section \<open>State stores\<close>

record StateStore =
  ss_id :: string
  ss_name :: string
  ss_type :: string
  ss_source :: string
  ss_path :: string
  ss_active :: bool
  ss_connection :: string

definition storeKey :: "StateStore \<Rightarrow> string" where
  "storeKey s = ss_name s @ ''|'' @ ss_type s @ ''|'' @ ss_connection s"

text \<open>The loop of \<open>dedupeStores\<close>: the index of each group's representative, and the representatives.\<close>

definition dedupeStep :: "(string \<times> nat) list \<times> StateStore list \<Rightarrow> StateStore \<Rightarrow> (string \<times> nat) list \<times> StateStore list" where
  "dedupeStep st s =
     (case st of (indexByKey, out) \<Rightarrow>
      case map_of indexByKey (storeKey s) of
        None \<Rightarrow> (putKey (storeKey s) (length out) indexByKey, out @ [s])
      | Some i \<Rightarrow> (indexByKey, if ss_active s \<and> \<not> ss_active (out ! i) then out[i := s] else out))"

definition dedupeStores :: "StateStore list \<Rightarrow> StateStore list" where
  "dedupeStores stores = snd (foldl dedupeStep ([], []) stores)"

definition activeStore :: "StateStore list \<Rightarrow> StateStore option" where
  "activeStore stores = (case find ss_active stores of Some s \<Rightarrow> Some s | None \<Rightarrow> (case stores of [] \<Rightarrow> None | s # _ \<Rightarrow> Some s))"

definition listed :: "StateStore list \<Rightarrow> string \<Rightarrow> bool" where
  "listed stores sid = list_ex (\<lambda>s. ss_id s = sid) stores"

text \<open>The effect that chooses a store: the present choice while it is listed, else the persisted one, else the active one.\<close>

definition chooseStore :: "StateStore list \<Rightarrow> string option \<Rightarrow> string option \<Rightarrow> string option" where
  "chooseStore storeList persisted selectedStore =
     (let displayStores = dedupeStores storeList in
      case displayStores of
        [] \<Rightarrow> selectedStore
      | d # _ \<Rightarrow>
          if (case selectedStore of Some sid \<Rightarrow> listed displayStores sid | None \<Rightarrow> False) then selectedStore
          else (case persisted of
                  Some p \<Rightarrow> if p \<noteq> [] \<and> listed displayStores p then Some p
                    else Some (case activeStore storeList of Some a \<Rightarrow> ss_id a | None \<Rightarrow> ss_id d)
                | None \<Rightarrow> Some (case activeStore storeList of Some a \<Rightarrow> ss_id a | None \<Rightarrow> ss_id d)))"

section \<open>Enumerations and ticked rows\<close>

definition parseEnum :: "string option \<Rightarrow> string list \<Rightarrow> string \<Rightarrow> string" where
  "parseEnum v allowed fallback = (case v of Some s \<Rightarrow> if s \<in> set allowed then s else fallback | None \<Rightarrow> fallback)"

text \<open>A JavaScript \<open>Set\<close> of strings, in insertion order.\<close>

definition toggleKey :: "string \<Rightarrow> string list \<Rightarrow> string list" where
  "toggleKey key selected = (if key \<in> set selected then filter (\<lambda>k. k \<noteq> key) selected else selected @ [key])"

definition uniqueKeys :: "string list \<Rightarrow> string list" where
  "uniqueKeys ks = rev (remdups (rev ks))"

definition toggleAllKeys :: "string list \<Rightarrow> string list \<Rightarrow> string list" where
  "toggleAllKeys shown selected = (if length selected = length shown \<and> 0 < length shown then [] else uniqueKeys shown)"

lemma set_toggleKey: "set (toggleKey key selected) \<subseteq> insert key (set selected)"
  by (auto simp: toggleKey_def)

lemma set_toggleAllKeys: "set (toggleAllKeys shown selected) \<subseteq> set shown"
  by (auto simp: toggleAllKeys_def uniqueKeys_def)

section \<open>Paging with a forward cursor\<close>

text \<open>
  A server that answers each cursor with a number of rows and the next cursor. The pages visited, each
  with its offset, are a walk: they start at the first page with offset zero, and each is the next page
  of the one before, offset by its rows.
\<close>

type_synonym server = "string option \<Rightarrow> nat \<times> string option"

fun nextPageOf :: "server \<Rightarrow> string option \<times> nat \<Rightarrow> string option \<times> nat \<Rightarrow> bool" where
  "nextPageOf serve (t, n) (t', n') \<longleftrightarrow> t' \<noteq> None \<and> snd (serve t) = t' \<and> n' = n + fst (serve t)"

definition onWalk :: "server \<Rightarrow> (string option \<times> nat) list \<Rightarrow> string option \<Rightarrow> nat \<Rightarrow> bool" where
  "onWalk serve visited page offset \<longleftrightarrow>
     hd (visited @ [(page, offset)]) = (None, 0) \<and> successively (nextPageOf serve) (visited @ [(page, offset)])"

locale paged_list =
  fixes page :: "'s \<Rightarrow> string option" and visited :: "'s \<Rightarrow> (string option \<times> nat) list" and offset :: "'s \<Rightarrow> nat"
    and forward :: "string \<Rightarrow> nat \<Rightarrow> 's \<Rightarrow> 's" and backward :: "'s \<Rightarrow> 's" and restart :: "'s \<Rightarrow> 's"
  assumes forward_page: "page (forward t n s) = Some t"
    and forward_visited: "visited (forward t n s) = visited s @ [(page s, offset s)]"
    and forward_offset: "offset (forward t n s) = offset s + n"
    and backward_page: "visited s \<noteq> [] \<Longrightarrow> (page (backward s), offset (backward s)) = last (visited s)"
    and backward_visited: "visited (backward s) = butlast (visited s)"
    and restart_page: "page (restart s) = None" "visited (restart s) = []" "offset (restart s) = 0"
begin

lemma restart_walk: "onWalk serve (visited (restart s)) (page (restart s)) (offset (restart s))"
  by (simp add: onWalk_def restart_page)

lemma forward_walk:
  assumes "onWalk serve (visited s) (page s) (offset s)" "serve (page s) = (n, Some t)"
  shows "onWalk serve (visited (forward t n s)) (page (forward t n s)) (offset (forward t n s))"
  using assms by (auto simp: onWalk_def forward_page forward_visited forward_offset successively_append_iff hd_append)

lemma backward_walk:
  assumes "onWalk serve (visited s) (page s) (offset s)" "visited s \<noteq> []"
  shows "onWalk serve (visited (backward s)) (page (backward s)) (offset (backward s))"
proof -
  have "visited (backward s) @ [(page (backward s), offset (backward s))] = visited s"
    using assms(2) by (simp add: backward_visited backward_page)
  then show ?thesis using assms by (auto simp: onWalk_def successively_append_iff hd_append)
qed

lemma backward_forward:
  "page (backward (forward t n s)) = page s" "visited (backward (forward t n s)) = visited s" "offset (backward (forward t n s)) = offset s"
  using backward_page[of "forward t n s"] by (simp_all add: forward_visited backward_visited)

end

section \<open>One store for each group\<close>

text \<open>A group's first active member, or its first member when none is active.\<close>

definition groupRep :: "StateStore list \<Rightarrow> string \<Rightarrow> StateStore" where
  "groupRep stores k =
     (case find (\<lambda>s. storeKey s = k \<and> ss_active s) stores of
        Some s \<Rightarrow> s
      | None \<Rightarrow> (case find (\<lambda>s. storeKey s = k) stores of Some s \<Rightarrow> s | None \<Rightarrow> undefined))"

lemma find_snoc: "find P (xs @ [x]) = (case find P xs of Some y \<Rightarrow> Some y | None \<Rightarrow> if P x then Some x else None)"
  by (induction xs) auto

lemma uniqueKeys_snoc: "uniqueKeys (ks @ [k]) = (if k \<in> set ks then uniqueKeys ks else uniqueKeys ks @ [k])"
  by (simp add: uniqueKeys_def)

lemma set_uniqueKeys [simp]: "set (uniqueKeys ks) = set ks"
  by (simp add: uniqueKeys_def)

lemma distinct_uniqueKeys [simp]: "distinct (uniqueKeys ks)"
  by (simp add: uniqueKeys_def)

lemma groupRep_other: "storeKey s \<noteq> k \<Longrightarrow> groupRep (stores @ [s]) k = groupRep stores k"
  by (simp add: groupRep_def find_snoc split: option.splits)

lemma groupRep_new: "storeKey s \<notin> storeKey ` set stores \<Longrightarrow> groupRep (stores @ [s]) (storeKey s) = s"
proof -
  assume "storeKey s \<notin> storeKey ` set stores"
  then have "find (\<lambda>t. storeKey t = storeKey s) stores = None" "find (\<lambda>t. storeKey t = storeKey s \<and> ss_active t) stores = None"
    unfolding find_None_iff by (metis imageI)+
  then show ?thesis by (simp add: groupRep_def find_snoc)
qed

lemma groupRep_old:
  assumes "storeKey s \<in> storeKey ` set stores"
  shows "groupRep (stores @ [s]) (storeKey s) =
    (if ss_active s \<and> \<not> ss_active (groupRep stores (storeKey s)) then s else groupRep stores (storeKey s))"
proof -
  obtain f where f: "find (\<lambda>t. storeKey t = storeKey s) stores = Some f"
    using assms by (cases "find (\<lambda>t. storeKey t = storeKey s) stores") (auto simp: find_None_iff)
  then have ff: "f \<in> set stores" "storeKey f = storeKey s" by (auto simp: find_Some_iff)
  show ?thesis
  proof (cases "find (\<lambda>t. storeKey t = storeKey s \<and> ss_active t) stores")
    case None
    then have "\<not> ss_active f" using ff by (auto simp: find_None_iff)
    then show ?thesis using None f by (simp add: groupRep_def find_snoc)
  next
    case (Some a)
    then have "ss_active a" by (auto simp: find_Some_iff)
    then show ?thesis using Some by (simp add: groupRep_def find_snoc)
  qed
qed

definition dedupeInv :: "StateStore list \<Rightarrow> (string \<times> nat) list \<times> StateStore list \<Rightarrow> bool" where
  "dedupeInv stores st \<longleftrightarrow>
     (let ks = uniqueKeys (map storeKey stores) in
      snd st = map (groupRep stores) ks \<and> (\<forall>k i. map_of (fst st) k = Some i \<longleftrightarrow> i < length ks \<and> ks ! i = k))"

lemma dedupeInv_step:
  assumes "dedupeInv stores st"
  shows "dedupeInv (stores @ [s]) (dedupeStep st s)"
proof -
  obtain ix out where st: "st = (ix, out)" by (cases st)
  define ks where "ks = uniqueKeys (map storeKey stores)"
  have out: "out = map (groupRep stores) ks" and ix: "\<And>k i. map_of ix k = Some i \<longleftrightarrow> i < length ks \<and> ks ! i = k"
    using assms by (auto simp: st dedupeInv_def Let_def ks_def)
  have ks: "set ks = storeKey ` set stores" "distinct ks" by (simp_all add: ks_def)
  show ?thesis
  proof (cases "map_of ix (storeKey s)")
    case None
    have new: "storeKey s \<notin> storeKey ` set stores"
    proof
      assume "storeKey s \<in> storeKey ` set stores"
      then obtain i where "i < length ks" "ks ! i = storeKey s" using ks(1) by (metis in_set_conv_nth)
      then have "map_of ix (storeKey s) = Some i" unfolding ix by blast
      then show False using None by simp
    qed
    have "map (groupRep (stores @ [s])) ks = out" unfolding out using new ks(1) by (intro map_cong) (auto intro: groupRep_other)
    moreover have "map_of (putKey (storeKey s) (length ks) ix) k = Some i \<longleftrightarrow> i < Suc (length ks) \<and> (ks @ [storeKey s]) ! i = k" for k i
    proof (cases "k = storeKey s")
      case True
      then have "k \<notin> set ks" using new ks(1) by simp
      then have "i < length ks \<Longrightarrow> ks ! i \<noteq> k" using nth_mem by metis
      then show ?thesis using True by (auto simp: map_of_putKey nth_append less_Suc_eq)
    next
      case False
      then show ?thesis using ix[of k i] by (auto simp: map_of_putKey nth_append less_Suc_eq)
    qed
    ultimately show ?thesis using None new
      by (simp add: st dedupeStep_def dedupeInv_def uniqueKeys_snoc ks_def[symmetric] groupRep_new out)
  next
    case (Some i)
    then have i: "i < length ks" "ks ! i = storeKey s" using ix by auto
    then have old: "storeKey s \<in> storeKey ` set stores" using ks(1) by (metis nth_mem)
    let ?up = "ss_active s \<and> \<not> ss_active (out ! i)"
    have "map (groupRep (stores @ [s])) ks = (if ?up then out[i := s] else out)"
    proof (rule nth_equalityI)
      fix j assume "j < length (map (groupRep (stores @ [s])) ks)"
      then have j: "j < length ks" by simp
      show "map (groupRep (stores @ [s])) ks ! j = (if ?up then out[i := s] else out) ! j"
      proof (cases "j = i")
        case True
        then show ?thesis using i groupRep_old[OF old] by (simp add: out)
      next
        case False
        then have "storeKey s \<noteq> ks ! j" using i j ks(2) by (metis nth_eq_iff_index_eq)
        then show ?thesis using j False by (simp add: out groupRep_other)
      qed
    qed (simp add: out)
    moreover have "dedupeStep st s = (ix, if ?up then out[i := s] else out)" by (simp add: st dedupeStep_def Some)
    ultimately show ?thesis using old ix by (simp add: dedupeInv_def uniqueKeys_snoc ks_def[symmetric])
  qed
qed

lemma dedupeStores_specified: "dedupeStores stores = map (groupRep stores) (uniqueKeys (map storeKey stores))"
proof -
  have "dedupeInv stores (foldl dedupeStep ([], []) stores)"
  proof (induction stores rule: rev_induct)
    case Nil
    then show ?case by (simp add: dedupeInv_def uniqueKeys_def)
  next
    case (snoc s stores)
    then show ?case by (simp add: dedupeInv_step)
  qed
  then show ?thesis by (simp add: dedupeStores_def dedupeInv_def Let_def)
qed

lemma find_first:
  assumes "find P xs = Some x" "Q x" "\<And>y. Q y \<Longrightarrow> P y"
  shows "find Q xs = Some x"
  using assms by (induction xs) (auto split: if_splits)

text \<open>The active store, which is the fallback of the choice, is always among the displayed ones.\<close>

lemma activeStore_displayed:
  assumes "activeStore stores = Some a"
  shows "a \<in> set (dedupeStores stores)"
proof -
  have rep: "groupRep stores (storeKey a) = a"
  proof (cases "find ss_active stores")
    case (Some b)
    then have ab: "a = b" using assms by (simp add: activeStore_def)
    then have "ss_active a" using Some by (auto simp: find_Some_iff)
    then have "find (\<lambda>s. storeKey s = storeKey a \<and> ss_active s) stores = Some a" unfolding ab by (intro find_first[OF Some]) auto
    then show ?thesis by (simp add: groupRep_def)
  next
    case None
    then obtain r where r: "stores = a # r" using assms by (auto simp: activeStore_def split: list.splits)
    have "find (\<lambda>s. storeKey s = storeKey a \<and> ss_active s) stores = None" using None by (auto simp: find_None_iff)
    then show ?thesis by (simp add: groupRep_def r)
  qed
  have "a \<in> set stores" using assms
    by (auto simp: activeStore_def find_Some_iff split: option.splits list.splits)
  then show ?thesis unfolding dedupeStores_specified using rep by (force simp: image_iff)
qed

text \<open>
  The store selector: its options are one store for each name, type and connection, in order of
  first appearance, each the first active member of its group or else its first member; and when there
  is a store at all the effect chooses one of the options, whatever was chosen or persisted before, and
  then leaves the choice alone.
\<close>

theorem store_choice:
  assumes "stores \<noteq> []"
  shows "dedupeStores stores = map (groupRep stores) (uniqueKeys (map storeKey stores)) \<and>
    (\<exists>sid. chooseStore stores persisted selected = Some sid \<and> listed (dedupeStores stores) sid \<and>
       chooseStore stores persisted (Some sid) = Some sid)"
proof -
  have "uniqueKeys (map storeKey stores) \<noteq> []" using assms by (simp add: uniqueKeys_def)
  then obtain d ds where d: "dedupeStores stores = d # ds" unfolding dedupeStores_specified by (metis list.exhaust list.map_disc_iff)
  obtain a where a: "activeStore stores = Some a" using assms by (cases stores; cases "find ss_active stores") (auto simp: activeStore_def)
  have la: "listed (dedupeStores stores) (ss_id a)" using activeStore_displayed[OF a] by (auto simp: listed_def list_ex_iff)
  have "chooseStore stores persisted selected = selected \<and> (\<exists>sid. selected = Some sid \<and> listed (dedupeStores stores) sid) \<or>
    chooseStore stores persisted selected = persisted \<and> (\<exists>sid. persisted = Some sid \<and> listed (dedupeStores stores) sid) \<or>
    chooseStore stores persisted selected = Some (ss_id a)"
    by (cases selected; cases persisted) (auto simp: chooseStore_def d Let_def a)
  then obtain sid where sid: "chooseStore stores persisted selected = Some sid" "listed (dedupeStores stores) sid"
    using la by auto
  then have "chooseStore stores persisted (Some sid) = Some sid" by (simp add: chooseStore_def d Let_def)
  with sid show ?thesis using dedupeStores_specified by blast
qed

definition demoStore :: "string \<Rightarrow> string \<Rightarrow> bool \<Rightarrow> StateStore" where
  "demoStore sid path active = \<lparr>ss_id = sid, ss_name = ''statestore'', ss_type = ''state.redis'', ss_source = ''auto'', ss_path = path,
     ss_active = active, ss_connection = ''localhost''\<rparr>"

theorem store_choice_witness:
  "\<exists>sid. chooseStore [demoStore ''1'' ''a'' False, demoStore ''2'' ''b'' True] (Some ''gone'') None = Some sid \<and>
     listed (dedupeStores [demoStore ''1'' ''a'' False, demoStore ''2'' ''b'' True]) sid"
  using store_choice[of "[demoStore ''1'' ''a'' False, demoStore ''2'' ''b'' True]" "Some ''gone''" None] by blast

end
