(* ===== verification/WorkflowList.thy ===== *)
theory WorkflowList
  imports PagedList "HOL-Library.List_Lexorder" "HOL-Library.Char_ord"
begin

text \<open>
  The workflow list: \<open>types/workflow.ts\<close>, \<open>lib/dedupeWorkflows.ts\<close>, the query of
  \<open>hooks/useWorkflows.ts\<close>, the request of \<open>hooks/useWorkflowRemoval.ts\<close>, \<open>mechanismFor\<close> and the summary
  of \<open>components/ConfirmRemoveDialog.tsx\<close>, and the state of \<open>pages/Workflows.tsx\<close>. The query library
  delivers results: an \<open>Arrive\<close> action is a result for the query in force, and while there is none the
  rows shown are those \<open>keepPreviousWithinStore\<close> keeps. The dash that stands for no duration is \<open>None\<close>.
\<close>

section \<open>Workflows\<close>

record WorkflowSummary =
  ws_appId :: string
  ws_instanceId :: string
  ws_name :: string
  ws_status :: WorkflowStatus
  ws_parentInstanceId :: "string option"
  ws_createdAt :: "string option"
  ws_lastUpdatedAt :: "string option"

record WorkflowListResult =
  wr_items :: "WorkflowSummary list"
  wr_nextToken :: "string option"

fun statusName :: "WorkflowStatus \<Rightarrow> string" where
  "statusName Pending = ''Pending''"
| "statusName Running = ''Running''"
| "statusName Completed = ''Completed''"
| "statusName WFailed = ''Failed''"
| "statusName Terminated = ''Terminated''"
| "statusName Suspended = ''Suspended''"

definition workflowKey :: "WorkflowSummary \<Rightarrow> string" where
  "workflowKey w = ws_appId w @ ''/'' @ ws_instanceId w"

fun dedupeFrom :: "string list \<Rightarrow> WorkflowSummary list \<Rightarrow> WorkflowSummary list" where
  "dedupeFrom seen [] = []"
| "dedupeFrom seen (w # items) =
     (if workflowKey w \<in> set seen then dedupeFrom seen items else w # dedupeFrom (workflowKey w # seen) items)"

definition dedupeWorkflows :: "WorkflowSummary list \<Rightarrow> WorkflowSummary list" where
  "dedupeWorkflows items = dedupeFrom [] items"

definition TERMINAL_STATUSES :: "WorkflowStatus list" where
  "TERMINAL_STATUSES = [Completed, WFailed, Terminated]"

definition ALL_STATUSES :: "WorkflowStatus list" where
  "ALL_STATUSES = [Running, Completed, WFailed, Terminated, Suspended]"

section \<open>The query\<close>

record WorkflowsParams =
  wq_appId :: "string option"
  wq_status :: "WorkflowStatus list option"
  wq_search :: "string option"
  wq_page :: "string option"
  wq_limit :: "nat option"
  wq_store :: "string option"
  wq_includeChildren :: "bool option"

text \<open>\<open>if (v) sp.set(k, v)\<close>.\<close>

definition setText :: "string \<Rightarrow> string option \<Rightarrow> (string \<times> string) list" where
  "setText k v = (case v of Some s \<Rightarrow> if s = [] then [] else [(k, s)] | None \<Rightarrow> [])"

definition queryFields :: "WorkflowsParams \<Rightarrow> (string \<times> string) list" where
  "queryFields p =
     setText ''appId'' (wq_appId p) @
     (case wq_status p of Some (s # ss) \<Rightarrow> [(''status'', joinWith '','' (map statusName (s # ss)))] | _ \<Rightarrow> []) @
     setText ''search'' (wq_search p) @
     setText ''page'' (wq_page p) @
     (case wq_limit p of Some n \<Rightarrow> if n = 0 then [] else [(''limit'', showNat n)] | None \<Rightarrow> []) @
     setText ''store'' (wq_store p) @
     (if wq_includeChildren p = Some False then [(''includeChildren'', ''false'')] else [])"

definition queryString :: "WorkflowsParams \<Rightarrow> string" where
  "queryString p = (let s = paramsText (queryFields p) in if s \<noteq> [] then ''?'' @ s else [])"

definition keepPreviousWithinStore :: "string \<Rightarrow> 'a option \<Rightarrow> string option \<Rightarrow> 'a option" where
  "keepPreviousWithinStore store prev prevStore = (if prevStore = Some store then prev else None)"

section \<open>The page\<close>

record WorkflowsPage =
  wp_activeStatus :: "WorkflowStatus option"
  wp_selectedApp :: string
  wp_searchInput :: string
  wp_debouncedSearch :: string
  wp_page :: "string option"
  wp_showChildren :: bool
  wp_history :: "(string option \<times> nat) list"
  wp_pageOffset :: nat
  wp_selectedStore :: "string option"
  wp_selected :: "string list"
  wp_confirmOpen :: bool
  wp_initialForce :: bool
  wp_removeStatus :: "(nat \<times> nat) option"
  wp_data :: "((string \<times> string) \<times> WorkflowListResult) option"
  wp_failed :: "(string \<times> string) option"
  wp_urlApp :: string
  wp_defaultApplied :: bool

text \<open>The state on mount, from the address: an unknown status falls back to all.\<close>

definition statusNamed :: "string \<Rightarrow> WorkflowStatus option" where
  "statusNamed v = find (\<lambda>s. statusName s = v) ALL_STATUSES"

definition mountPage :: "(string \<rightharpoonup> string) \<Rightarrow> WorkflowsPage" where
  "mountPage url =
     (let urlText = (\<lambda>k. case url k of Some v \<Rightarrow> v | None \<Rightarrow> []) in
      \<lparr>wp_activeStatus = statusNamed (parseEnum (Some (urlText ''status'')) (map statusName ALL_STATUSES) []),
       wp_selectedApp = urlText ''app'', wp_searchInput = urlText ''search'', wp_debouncedSearch = urlText ''search'',
       wp_page = url ''page'', wp_showChildren = True, wp_history = [], wp_pageOffset = 0, wp_selectedStore = None,
       wp_selected = [], wp_confirmOpen = False, wp_initialForce = False, wp_removeStatus = None, wp_data = None, wp_failed = None,
       wp_urlApp = urlText ''app'', wp_defaultApplied = False\<rparr>)"

text \<open>The effect that mirrors the filters to the address.\<close>

definition mirrorUrl :: "WorkflowsPage \<Rightarrow> (string \<times> string) list" where
  "mirrorUrl st =
     setText ''status'' (map_option statusName (wp_activeStatus st)) @
     setText ''search'' (Some (wp_debouncedSearch st)) @
     setText ''page'' (wp_page st) @
     setText ''app'' (Some (wp_selectedApp st))"

definition pageQuery :: "WorkflowsPage \<Rightarrow> WorkflowsParams" where
  "pageQuery st =
     \<lparr>wq_appId = Some (wp_selectedApp st), wq_status = map_option (\<lambda>s. [s]) (wp_activeStatus st),
      wq_search = Some (wp_debouncedSearch st), wq_page = wp_page st, wq_limit = None, wq_store = wp_selectedStore st,
      wq_includeChildren = Some (wp_showChildren st)\<rparr>"

text \<open>The query key: the store and the query string.\<close>

definition queryKey :: "WorkflowsPage \<Rightarrow> string \<times> string" where
  "queryKey st = ((case wp_selectedStore st of Some s \<Rightarrow> s | None \<Rightarrow> []), queryString (pageQuery st))"

definition isError :: "WorkflowsPage \<Rightarrow> bool" where
  "isError st \<longleftrightarrow> wp_failed st = Some (queryKey st)"

definition shownData :: "WorkflowsPage \<Rightarrow> WorkflowListResult option" where
  "shownData st =
     (case wp_data st of
        None \<Rightarrow> None
      | Some (key, r) \<Rightarrow>
          if key = queryKey st then Some r else keepPreviousWithinStore (fst (queryKey st)) (Some r) (Some (fst key)))"

text \<open>\<open>isPlaceholderData\<close>.\<close>

definition updating :: "WorkflowsPage \<Rightarrow> bool" where
  "updating st \<longleftrightarrow> (case wp_data st of None \<Rightarrow> False | Some (key, r) \<Rightarrow> key \<noteq> queryKey st \<and> shownData st \<noteq> None)"

definition pageItems :: "WorkflowsPage \<Rightarrow> WorkflowSummary list" where
  "pageItems st = (if isError st then [] else dedupeWorkflows (case shownData st of Some r \<Rightarrow> wr_items r | None \<Rightarrow> []))"

definition resetPaging :: "WorkflowsPage \<Rightarrow> WorkflowsPage" where
  "resetPaging st = st\<lparr>wp_page := None, wp_history := [], wp_pageOffset := 0, wp_selected := []\<rparr>"

definition goForward :: "string \<Rightarrow> nat \<Rightarrow> WorkflowsPage \<Rightarrow> WorkflowsPage" where
  "goForward token n st =
     st\<lparr>wp_history := wp_history st @ [(wp_page st, wp_pageOffset st)], wp_pageOffset := wp_pageOffset st + n,
        wp_page := Some token, wp_selected := []\<rparr>"

definition goBack :: "WorkflowsPage \<Rightarrow> WorkflowsPage" where
  "goBack st =
     (if wp_history st = [] then st
      else let prev = last (wp_history st) in
        st\<lparr>wp_page := fst prev, wp_pageOffset := snd prev, wp_history := butlast (wp_history st), wp_selected := []\<rparr>)"

definition onStoreChange :: "string \<Rightarrow> WorkflowsPage \<Rightarrow> WorkflowsPage" where
  "onStoreChange sid st = resetPaging (st\<lparr>wp_selectedStore := Some sid, wp_selectedApp := []\<rparr>)"

definition selectApp :: "string \<Rightarrow> WorkflowsPage \<Rightarrow> WorkflowsPage" where
  "selectApp app st = resetPaging (st\<lparr>wp_selectedApp := app\<rparr>)"

definition typeSearch :: "string \<Rightarrow> WorkflowsPage \<Rightarrow> WorkflowsPage" where
  "typeSearch t st = resetPaging (st\<lparr>wp_searchInput := t\<rparr>)"

text \<open>The timer of the search box.\<close>

definition debounceFires :: "WorkflowsPage \<Rightarrow> WorkflowsPage" where
  "debounceFires st = st\<lparr>wp_debouncedSearch := wp_searchInput st\<rparr>"

definition setShowChildren :: "bool \<Rightarrow> WorkflowsPage \<Rightarrow> WorkflowsPage" where
  "setShowChildren b st = resetPaging (st\<lparr>wp_showChildren := b\<rparr>)"

record RunningApp =
  ra_appId :: string
  ra_components :: "string list"

text \<open>The running application that loaded the active store: the first by name.\<close>

definition activeAppId :: "RunningApp list option \<Rightarrow> StateStore option \<Rightarrow> string option" where
  "activeAppId apps store =
     (case store of
        None \<Rightarrow> None
      | Some s \<Rightarrow>
          (case sort (map ra_appId (filter (\<lambda>a. ss_name s \<in> set (ra_components a)) (case apps of Some xs \<Rightarrow> xs | None \<Rightarrow> []))) of
             [] \<Rightarrow> None
           | a # _ \<Rightarrow> Some a))"

text \<open>The one-time default of the application filter.\<close>

definition applyDefaultApp ::
  "string list option \<Rightarrow> RunningApp list option \<Rightarrow> StateStore list option \<Rightarrow> WorkflowsPage \<Rightarrow> WorkflowsPage" where
  "applyDefaultApp storeAppIds apps storeList st =
     (if wp_defaultApplied st then st
      else if wp_urlApp st \<noteq> [] then st\<lparr>wp_defaultApplied := True\<rparr>
      else if wp_selectedStore st = None \<or> storeAppIds = None \<or> apps = None \<or> storeList = None then st
      else
        (case activeAppId apps (activeStore (the storeList)) of
           Some a \<Rightarrow> if a \<noteq> [] \<and> a \<in> set (the storeAppIds) then st\<lparr>wp_selectedApp := a, wp_defaultApplied := True\<rparr>
             else st\<lparr>wp_defaultApplied := True\<rparr>
         | None \<Rightarrow> st\<lparr>wp_defaultApplied := True\<rparr>))"

definition setStatus :: "WorkflowStatus option \<Rightarrow> WorkflowsPage \<Rightarrow> WorkflowsPage" where
  "setStatus s st = resetPaging (st\<lparr>wp_activeStatus := s\<rparr>)"

definition toggleRow :: "string \<Rightarrow> WorkflowsPage \<Rightarrow> WorkflowsPage" where
  "toggleRow key st = (if updating st then st else st\<lparr>wp_selected := toggleKey key (wp_selected st)\<rparr>)"

definition toggleAll :: "WorkflowsPage \<Rightarrow> WorkflowsPage" where
  "toggleAll st =
     (if updating st then st
      else st\<lparr>wp_selected := toggleAllKeys (map workflowKey (pageItems st)) (wp_selected st)\<rparr>)"

definition openRemove :: "bool \<Rightarrow> WorkflowsPage \<Rightarrow> WorkflowsPage" where
  "openRemove force st = st\<lparr>wp_removeStatus := None, wp_initialForce := force, wp_confirmOpen := True\<rparr>"

definition removeSucceeded :: "bool list \<Rightarrow> WorkflowsPage \<Rightarrow> WorkflowsPage" where
  "removeSucceeded oks st =
     st\<lparr>wp_removeStatus := Some (length (filter id oks), length (filter Not oks)), wp_selected := [], wp_confirmOpen := False\<rparr>"

text \<open>The Prev and Next buttons with their \<open>disabled\<close> conditions.\<close>

definition prevPage :: "WorkflowsPage \<Rightarrow> WorkflowsPage" where
  "prevPage st = (if wp_history st = [] \<or> updating st then st else goBack st)"

definition nextPage :: "WorkflowsPage \<Rightarrow> WorkflowsPage" where
  "nextPage st =
     (if isError st \<or> updating st then st
      else case shownData st of
             Some r \<Rightarrow> (case wr_nextToken r of
                          Some t \<Rightarrow> if t = [] then st else goForward t (length (pageItems st)) st
                        | None \<Rightarrow> st)
           | None \<Rightarrow> st)"

datatype WorkflowsAction =
    SetStatus "WorkflowStatus option"
  | SelectApp string
  | TypeSearch string
  | Debounced
  | ShowChildren bool
  | StoreChange string
  | ResolveStore "StateStore list" "string option"
  | DefaultApp "string list option" "RunningApp list option" "StateStore list option"
  | ToggleRow string
  | ToggleAll
  | PrevPage
  | NextPage
  | BulkPurge
  | BulkForceDelete
  | CancelRemove
  | RemoveSucceeded "bool list"
  | RemoveFailed
  | DismissStatus
  | Arrive WorkflowListResult
  | QueryFailed

fun pageStep :: "WorkflowsPage \<Rightarrow> WorkflowsAction \<Rightarrow> WorkflowsPage" where
  "pageStep st (SetStatus s) = setStatus s st"
| "pageStep st (SelectApp a) = selectApp a st"
| "pageStep st (TypeSearch t) = typeSearch t st"
| "pageStep st Debounced = debounceFires st"
| "pageStep st (ShowChildren b) = setShowChildren b st"
| "pageStep st (StoreChange sid) = onStoreChange sid st"
| "pageStep st (ResolveStore stores persisted) =
     st\<lparr>wp_selectedStore := chooseStore stores persisted (wp_selectedStore st)\<rparr>"
| "pageStep st (DefaultApp appIds apps stores) = applyDefaultApp appIds apps stores st"
| "pageStep st (ToggleRow key) = toggleRow key st"
| "pageStep st ToggleAll = toggleAll st"
| "pageStep st PrevPage = prevPage st"
| "pageStep st NextPage = nextPage st"
| "pageStep st BulkPurge = openRemove False st"
| "pageStep st BulkForceDelete = openRemove True st"
| "pageStep st CancelRemove = st\<lparr>wp_confirmOpen := False\<rparr>"
| "pageStep st (RemoveSucceeded oks) = removeSucceeded oks st"
| "pageStep st RemoveFailed = st\<lparr>wp_confirmOpen := False\<rparr>"
| "pageStep st DismissStatus = st\<lparr>wp_removeStatus := None\<rparr>"
| "pageStep st (Arrive r) = st\<lparr>wp_data := Some (queryKey st, r), wp_failed := None\<rparr>"
| "pageStep st QueryFailed = st\<lparr>wp_failed := Some (queryKey st)\<rparr>"

lemmas page_handlers = setStatus_def selectApp_def typeSearch_def debounceFires_def setShowChildren_def onStoreChange_def
  toggleRow_def toggleAll_def prevPage_def nextPage_def openRemove_def removeSucceeded_def

lemma applyDefaultApp_frame:
  "wp_page (applyDefaultApp ids apps stores st) = wp_page st" "wp_history (applyDefaultApp ids apps stores st) = wp_history st"
  "wp_pageOffset (applyDefaultApp ids apps stores st) = wp_pageOffset st" "wp_data (applyDefaultApp ids apps stores st) = wp_data st"
  "wp_selected (applyDefaultApp ids apps stores st) = wp_selected st"
  by (simp_all add: applyDefaultApp_def split: option.splits)

section \<open>Removal\<close>

text \<open>\<open>const [appId, instanceId] = key.split('/')\<close>.\<close>

definition idOfKey :: "string \<Rightarrow> string \<times> string option" where
  "idOfKey key = (case splitOn CHR ''/'' key of a # i # _ \<Rightarrow> (a, Some i) | [a] \<Rightarrow> (a, None) | [] \<Rightarrow> ([], None))"

record RemovalRequest =
  rq_ids :: "(string \<times> string option) list"
  rq_force :: bool
  rq_store :: "string option"

definition onConfirmRemove :: "bool \<Rightarrow> WorkflowsPage \<Rightarrow> RemovalRequest" where
  "onConfirmRemove force st = \<lparr>rq_ids = map idOfKey (wp_selected st), rq_force = force, rq_store = wp_selectedStore st\<rparr>"

definition dialogTargets :: "WorkflowsPage \<Rightarrow> (string \<times> string option \<times> WorkflowStatus option) list" where
  "dialogTargets st =
     map (\<lambda>key. case idOfKey key of (a, i) \<Rightarrow>
       (a, i, map_option ws_status (find (\<lambda>w. ws_appId w = a \<and> Some (ws_instanceId w) = i) (pageItems st)))) (wp_selected st)"

definition mechanismFor :: "WorkflowStatus option \<Rightarrow> bool \<Rightarrow> string" where
  "mechanismFor status force =
     (if force then ''Force delete''
      else case status of
             Some s \<Rightarrow> if s \<in> set TERMINAL_STATUSES then ''Purge'' else ''Terminate + Purge''
           | None \<Rightarrow> ''Terminate + Purge'')"

definition mechanismCounts :: "WorkflowStatus option list \<Rightarrow> bool \<Rightarrow> (string \<times> nat) list" where
  "mechanismCounts targets force =
     foldl (\<lambda>counts t. let m = mechanismFor t force in
       putKey m ((case map_of counts m of Some n \<Rightarrow> n | None \<Rightarrow> 0) + 1) counts) [] targets"

text \<open>The duration column: \<open>None\<close> is the dash; \<open>endAt\<close> is absent for a workflow that runs.\<close>

definition listDuration :: "(string \<Rightarrow> int option) \<Rightarrow> string option \<Rightarrow> string option \<Rightarrow> int \<Rightarrow> string option" where
  "listDuration dateParse createdAt endAt now =
     (case createdAt of
        None \<Rightarrow> None
      | Some c \<Rightarrow>
          if c = [] then None
          else
            let endMs = (case endAt of Some e \<Rightarrow> if e = [] then Some now else dateParse e | None \<Rightarrow> Some now)
            in case (dateParse c, endMs) of
                 (Some s, Some e) \<Rightarrow>
                   if e - s < 0 then None
                   else
                     let sec = mathFloor (fdiv (of_int (e - s)) 1000) in
                     if sec < 60 then Some (showInt sec @ ''s'')
                     else
                       let mins = mathFloor (fdiv (of_int sec) 60); remSec = sec mod 60 in
                       if mins < 60 then Some (if 0 < remSec then showInt mins @ ''m '' @ showInt remSec @ ''s'' else showInt mins @ ''m'')
                       else
                         let hr = mathFloor (fdiv (of_int mins) 60); remMin = mins mod 60 in
                         Some (if 0 < remMin then showInt hr @ ''h '' @ showInt remMin @ ''m'' else showInt hr @ ''h'')
               | _ \<Rightarrow> Some ''NaNh'')"

section \<open>Paging\<close>

interpretation workflows_pager: paged_list wp_page wp_history wp_pageOffset goForward goBack resetPaging
  by unfold_locales (auto simp: goForward_def goBack_def resetPaging_def Let_def)

text \<open>The server agrees with the page on screen.\<close>

definition served :: "server \<Rightarrow> WorkflowsPage \<Rightarrow> bool" where
  "served serve st \<longleftrightarrow> (case shownData st of Some r \<Rightarrow> serve (wp_page st) = (length (pageItems st), wr_nextToken r) | None \<Rightarrow> True)"

abbreviation walks :: "server \<Rightarrow> WorkflowsPage \<Rightarrow> bool" where
  "walks serve st \<equiv> onWalk serve (wp_history st) (wp_page st) (wp_pageOffset st)"

lemma walks_step:
  assumes "walks serve st" "served serve st"
  shows "walks serve (pageStep st a)"
proof (cases a)
  case PrevPage
  then show ?thesis using workflows_pager.backward_walk[OF assms(1)] assms(1) by (simp add: prevPage_def)
next
  case NextPage
  then show ?thesis using workflows_pager.forward_walk[OF assms(1)] assms
    by (auto simp: served_def nextPage_def split: option.splits)
qed (use assms(1) workflows_pager.restart_walk[of serve] in \<open>auto simp: page_handlers applyDefaultApp_frame\<close>)

text \<open>
  C31. Paging through the workflow list: as long as the server answers a cursor consistently, every action
  keeps the pages visited on the walk from the first page, so that the range shown counts exactly the
  rows of the pages before; and Prev after Next, once the next page has loaded, returns to the same
  page, offset and history.
\<close>

theorem workflow_paging:
  assumes "walks serve st" "served serve st"
    "shownData st = Some r" "wr_nextToken r = Some t" "t \<noteq> []" "\<not> isError st" "\<not> updating st"
  shows "let next = pageStep st NextPage; prev = pageStep (pageStep next (Arrive r')) PrevPage in
    walks serve (pageStep st a) \<and> walks serve next \<and> wp_page next = Some t \<and>
    wp_pageOffset next = wp_pageOffset st + length (pageItems st) \<and>
    wp_page prev = wp_page st \<and> wp_history prev = wp_history st \<and> wp_pageOffset prev = wp_pageOffset st"
proof -
  define nxt where "nxt = pageStep st NextPage"
  have n: "nxt = goForward t (length (pageItems st)) st" using assms(3-7) by (simp add: nxt_def nextPage_def)
  let ?arrived = "pageStep nxt (Arrive r')"
  have k: "queryKey ?arrived = queryKey nxt" by (simp add: queryKey_def pageQuery_def)
  have "\<not> updating ?arrived" using k by (simp add: updating_def)
  moreover have "wp_history ?arrived \<noteq> []" by (simp add: n goForward_def)
  ultimately have p: "pageStep ?arrived PrevPage = goBack ?arrived" by (simp add: prevPage_def)
  have "wp_page (goBack ?arrived) = wp_page st" "wp_history (goBack ?arrived) = wp_history st" "wp_pageOffset (goBack ?arrived) = wp_pageOffset st"
    by (simp_all add: n goForward_def goBack_def Let_def)
  moreover have "wp_page nxt = Some t" "wp_pageOffset nxt = wp_pageOffset st + length (pageItems st)"
    by (simp_all add: n goForward_def)
  moreover have "walks serve (pageStep st a)" "walks serve nxt" unfolding nxt_def by (rule walks_step[OF assms(1,2)])+
  ultimately show ?thesis unfolding Let_def nxt_def[symmetric] p by blast
qed

definition demoRow :: "string \<Rightarrow> WorkflowSummary" where
  "demoRow i = \<lparr>ws_appId = ''app'', ws_instanceId = i, ws_name = ''w'', ws_status = Running, ws_parentInstanceId = None,
     ws_createdAt = None, ws_lastUpdatedAt = None\<rparr>"

definition demoPage :: WorkflowsPage where
  "demoPage = pageStep (mountPage Map.empty) (Arrive \<lparr>wr_items = [demoRow ''1'', demoRow ''2''], wr_nextToken = Some ''c''\<rparr>)"

lemma demoPage_shown: "shownData demoPage = Some \<lparr>wr_items = [demoRow ''1'', demoRow ''2''], wr_nextToken = Some ''c''\<rparr>"
  "\<not> isError demoPage" "\<not> updating demoPage"
  by (simp_all add: demoPage_def shownData_def isError_def updating_def queryKey_def pageQuery_def)

lemma demoPage_items: "pageItems demoPage = [demoRow ''1'', demoRow ''2'']"
  using demoPage_shown by (simp add: pageItems_def dedupeWorkflows_def workflowKey_def demoRow_def)

theorem workflow_paging_witness:
  "wp_pageOffset (pageStep demoPage NextPage) = 2 \<and>
   wp_page (pageStep (pageStep (pageStep demoPage NextPage) (Arrive \<lparr>wr_items = [], wr_nextToken = None\<rparr>)) PrevPage) = None"
proof -
  have w: "walks (\<lambda>_. (2, Some ''c'')) demoPage" by (simp add: onWalk_def demoPage_def mountPage_def Let_def)
  have s: "served (\<lambda>_. (2, Some ''c'')) demoPage" by (simp add: served_def demoPage_shown demoPage_items)
  have "wp_pageOffset demoPage = 0" "wp_page demoPage = None" by (simp_all add: demoPage_def mountPage_def Let_def)
  then show ?thesis
    using workflow_paging[OF w s demoPage_shown(1) _ _ demoPage_shown(2,3), where t = "''c''" and r' = "\<lparr>wr_items = [], wr_nextToken = None\<rparr>"]
    by (simp add: Let_def demoPage_items del: pageStep.simps)
qed

section \<open>Bulk removal\<close>

text \<open>The results the server returned, each with the query it answered, and the workflows listed for a query.\<close>

fun arrivals :: "WorkflowsPage \<Rightarrow> WorkflowsAction list \<Rightarrow> ((string \<times> string) \<times> WorkflowSummary list) list" where
  "arrivals st [] = []"
| "arrivals st (a # as) = (case a of Arrive r \<Rightarrow> [(queryKey st, wr_items r)] | _ \<Rightarrow> []) @ arrivals (pageStep st a) as"

definition listedFor :: "((string \<times> string) \<times> WorkflowSummary list) list \<Rightarrow> string \<times> string \<Rightarrow> WorkflowSummary set" where
  "listedFor results key = {w. \<exists>ws. (key, ws) \<in> set results \<and> w \<in> set ws}"

text \<open>
  Rows can be ticked only where they are shown. A query can also change without a click: by the search
  timer, the default application and the store effect; \<open>calm\<close> says that no row is ticked then.
\<close>

fun calm :: "WorkflowsPage \<Rightarrow> WorkflowsAction \<Rightarrow> bool" where
  "calm st (ToggleRow key) \<longleftrightarrow> key \<in> workflowKey ` set (pageItems st)"
| "calm st Debounced \<longleftrightarrow> wp_selected st = [] \<or> wp_searchInput st = wp_debouncedSearch st"
| "calm st (DefaultApp appIds apps stores) \<longleftrightarrow> wp_selected st = []"
| "calm st (ResolveStore stores persisted) \<longleftrightarrow>
     wp_selected st = [] \<or> chooseStore stores persisted (wp_selectedStore st) = wp_selectedStore st"
| "calm st _ \<longleftrightarrow> True"

fun calmRun :: "WorkflowsPage \<Rightarrow> WorkflowsAction list \<Rightarrow> bool" where
  "calmRun st [] = True"
| "calmRun st (a # as) = (calm st a \<and> calmRun (pageStep st a) as)"

definition ticksListed :: "((string \<times> string) \<times> WorkflowSummary list) list \<Rightarrow> WorkflowsPage \<Rightarrow> bool" where
  "ticksListed results st \<longleftrightarrow>
     set (wp_selected st) \<subseteq> workflowKey ` listedFor results (queryKey st) \<and>
     (\<forall>key r. wp_data st = Some (key, r) \<longrightarrow> set (wr_items r) \<subseteq> listedFor results key)"

lemma set_dedupeFrom: "set (dedupeFrom seen items) \<subseteq> set items"
  by (induction seen items rule: dedupeFrom.induct) auto

lemma distinct_dedupeFrom:
  "distinct (map workflowKey (dedupeFrom seen items)) \<and> set (map workflowKey (dedupeFrom seen items)) \<inter> set seen = {}"
  by (induction seen items rule: dedupeFrom.induct) auto

lemma tickable_listed:
  assumes "ticksListed results st" "\<not> updating st"
  shows "set (pageItems st) \<subseteq> listedFor results (queryKey st)"
proof (cases "wp_data st")
  case (Some kr)
  then obtain key r where kr: "wp_data st = Some (key, r)" by (cases kr) simp
  then have "set (wr_items r) \<subseteq> listedFor results key" using assms(1) by (simp add: ticksListed_def)
  moreover have "shownData st \<noteq> None \<Longrightarrow> key = queryKey st" using assms(2) kr by (simp add: updating_def)
  moreover have "set (pageItems st) \<subseteq> (if shownData st = None then {} else set (wr_items r))"
    using set_dedupeFrom[of "[]" "wr_items r"] kr
    by (auto simp: pageItems_def dedupeWorkflows_def shownData_def keepPreviousWithinStore_def)
  ultimately show ?thesis by (auto split: if_splits)
qed (simp add: pageItems_def shownData_def dedupeWorkflows_def)

lemma listedFor_mono: "listedFor results key \<subseteq> listedFor (results @ results') key"
  by (auto simp: listedFor_def)

lemma ticksListed_append: "ticksListed results st \<Longrightarrow> ticksListed (results @ results') st"
  unfolding ticksListed_def using listedFor_mono[of results _ results'] by (meson image_mono subset_trans)

lemma ticksListed_same:
  assumes "ticksListed results st" "queryKey st' = queryKey st" "wp_data st' = wp_data st"
    "set (wp_selected st') \<subseteq> workflowKey ` listedFor results (queryKey st)"
  shows "ticksListed results st'"
  using assms by (simp add: ticksListed_def)

lemma ticksListed_none:
  assumes "ticksListed results st" "wp_data st' = wp_data st" "wp_selected st' = []"
  shows "ticksListed results st'"
  using assms by (simp add: ticksListed_def)

lemma ticksListed_step:
  assumes inv: "ticksListed results st" and "calm st a"
  shows "ticksListed (results @ (case a of Arrive r \<Rightarrow> [(queryKey st, wr_items r)] | _ \<Rightarrow> [])) (pageStep st a)"
proof -
  have sel: "set (wp_selected st) \<subseteq> workflowKey ` listedFor results (queryKey st)" using inv by (simp add: ticksListed_def)
  have same: "ticksListed results (st\<lparr>wp_selected := ks\<rparr>)" if "set ks \<subseteq> workflowKey ` listedFor results (queryKey st)" for ks
    using that by (intro ticksListed_same[OF inv]) (simp_all add: queryKey_def pageQuery_def)
  show ?thesis
  proof (cases a)
    case (ToggleRow key)
    show ?thesis
    proof (cases "updating st")
      case False
      then have "key \<in> workflowKey ` listedFor results (queryKey st)"
        using assms(2) ToggleRow tickable_listed[OF inv False] by auto
      then have "set (toggleKey key (wp_selected st)) \<subseteq> workflowKey ` listedFor results (queryKey st)"
        using set_toggleKey[of key "wp_selected st"] sel by blast
      then show ?thesis using same False ToggleRow by (simp add: toggleRow_def)
    qed (use inv ToggleRow in \<open>simp add: toggleRow_def\<close>)
  next
    case ToggleAll
    show ?thesis
    proof (cases "updating st")
      case False
      then have "set (toggleAllKeys (map workflowKey (pageItems st)) (wp_selected st)) \<subseteq> workflowKey ` listedFor results (queryKey st)"
        using set_toggleAllKeys[of "map workflowKey (pageItems st)" "wp_selected st"] tickable_listed[OF inv False] by auto
      then show ?thesis using same False ToggleAll by (simp add: toggleAll_def)
    qed (use inv ToggleAll in \<open>simp add: toggleAll_def\<close>)
  next
    case (Arrive r)
    have "queryKey (pageStep st a) = queryKey st" by (simp add: Arrive queryKey_def pageQuery_def)
    then show ?thesis using ticksListed_append[OF inv, of "[(queryKey st, wr_items r)]"]
      by (auto simp: Arrive ticksListed_def listedFor_def)
  next
    case NextPage
    then show ?thesis using inv by (auto split: option.splits simp: nextPage_def goForward_def intro: ticksListed_none)
  next
    case PrevPage
    then show ?thesis using inv by (auto simp: prevPage_def goBack_def Let_def intro: ticksListed_none)
  next
    case Debounced
    then show ?thesis using assms(2) ticksListed_none[OF inv, of "pageStep st a"] inv by (auto simp: debounceFires_def)
  next
    case (ResolveStore stores persisted)
    then show ?thesis using assms(2) ticksListed_none[OF inv, of "pageStep st a"] inv by auto
  next
    case (DefaultApp appIds apps stores)
    then show ?thesis using assms(2) ticksListed_none[OF inv, of "pageStep st a"] by (simp add: applyDefaultApp_frame)
  qed (use ticksListed_none[OF inv] ticksListed_same[OF inv] sel in
      \<open>simp_all add: page_handlers resetPaging_def queryKey_def pageQuery_def\<close>)
qed

lemma ticksListed_run:
  assumes "ticksListed results st" "calmRun st as"
  shows "ticksListed (results @ arrivals st as) (foldl pageStep st as)"
  using assms
proof (induction as arbitrary: results st)
  case (Cons a as)
  have "ticksListed (results @ (case a of Arrive r \<Rightarrow> [(queryKey st, wr_items r)] | _ \<Rightarrow> [])) (pageStep st a)"
    using ticksListed_step Cons.prems by simp
  from Cons.IH[OF this] show ?case using Cons.prems by simp
qed simp

lemma idOfKey_workflow:
  assumes "CHR ''/'' \<notin> set (ws_appId w)" "CHR ''/'' \<notin> set (ws_instanceId w)"
  shows "idOfKey (workflowKey w) = (ws_appId w, Some (ws_instanceId w))"
  using splitOn_append[OF assms(1), of "ws_instanceId w"] splitOn_no[OF assms(2)] by (simp add: idOfKey_def workflowKey_def)

definition slashFree :: "((string \<times> string) \<times> WorkflowSummary list) list \<Rightarrow> bool" where
  "slashFree results \<longleftrightarrow>
     (\<forall>(key, ws) \<in> set results. \<forall>w \<in> set ws. CHR ''/'' \<notin> set (ws_appId w) \<and> CHR ''/'' \<notin> set (ws_instanceId w))"


definition demoRun :: "WorkflowsAction list" where
  "demoRun = [Arrive \<lparr>wr_items = [demoRow ''1'', demoRow ''2''], wr_nextToken = Some ''c''\<rparr>, ToggleRow ''app/2'', BulkPurge]"


text \<open>Without the condition on slashes the request names another workflow.\<close>

lemma removal_truncates: "idOfKey (workflowKey (demoRow ''order/7'')) = (''app'', Some ''order'')"
  by (simp add: idOfKey_def workflowKey_def demoRow_def)

text \<open>And without \<open>calm\<close> a row ticked before the search timer fires stays ticked under the new search.\<close>

lemma debounce_keeps_ticks: "wp_selected (pageStep st Debounced) = wp_selected st"
  by (simp add: debounceFires_def)

section \<open>Filters travel\<close>

lemma readParams_query: "readParams (drop 1 (queryString p)) = queryFields p"
proof (cases "paramsText (queryFields p) = []")
  case True
  then have "readParams [] = queryFields p" using readParams_text[of "queryFields p"] by simp
  then show ?thesis using True by (simp add: queryString_def Let_def)
next
  case False
  then show ?thesis using readParams_text[of "queryFields p"] by (simp add: queryString_def Let_def)
qed

lemma map_of_setText: "map_of (setText k v) l = (if k = l \<and> v \<noteq> Some [] then v else None)"
  by (cases v) (simp_all add: setText_def)

lemma map_of_mirror:
  "map_of (mirrorUrl st) ''status'' = map_option statusName (wp_activeStatus st)"
  "map_of (mirrorUrl st) ''search'' = (if wp_debouncedSearch st = [] then None else Some (wp_debouncedSearch st))"
  "map_of (mirrorUrl st) ''page'' = (if wp_page st = Some [] then None else wp_page st)"
  "map_of (mirrorUrl st) ''app'' = (if wp_selectedApp st = [] then None else Some (wp_selectedApp st))"
proof -
  have "statusName s \<noteq> []" for s by (cases s) simp_all
  then have "map_option statusName (wp_activeStatus st) \<noteq> Some []" by (cases "wp_activeStatus st") auto
  then show "map_of (mirrorUrl st) ''status'' = map_option statusName (wp_activeStatus st)"
    by (cases "wp_activeStatus st") (simp_all add: mirrorUrl_def map_add_def map_of_setText)
  show "map_of (mirrorUrl st) ''search'' = (if wp_debouncedSearch st = [] then None else Some (wp_debouncedSearch st))"
    by (simp add: mirrorUrl_def map_add_def map_of_setText)
  show "map_of (mirrorUrl st) ''page'' = (if wp_page st = Some [] then None else wp_page st)"
    by (cases "wp_page st") (simp_all add: mirrorUrl_def map_add_def map_of_setText)
  show "map_of (mirrorUrl st) ''app'' = (if wp_selectedApp st = [] then None else Some (wp_selectedApp st))"
    by (simp add: mirrorUrl_def map_add_def map_of_setText)
qed

lemma statusNamed_name: "s \<in> set ALL_STATUSES \<Longrightarrow> statusNamed (statusName s) = Some s"
  by (cases s) (simp_all add: ALL_STATUSES_def statusNamed_def)

text \<open>
  The filters survive a reload, and the server sees them: mounting the page from the address it
  mirrored restores the status, application, search text and page cursor, and a receiver that decodes
  the query string reads exactly the fields the page asked for, whatever characters they contain.
\<close>

theorem filters_roundtrip:
  assumes "wp_activeStatus st \<in> insert None (Some ` set ALL_STATUSES)" "wp_page st \<noteq> Some []"
  shows "wp_activeStatus (mountPage (map_of (mirrorUrl st))) = wp_activeStatus st \<and>
    wp_selectedApp (mountPage (map_of (mirrorUrl st))) = wp_selectedApp st \<and>
    wp_debouncedSearch (mountPage (map_of (mirrorUrl st))) = wp_debouncedSearch st \<and>
    wp_page (mountPage (map_of (mirrorUrl st))) = wp_page st \<and>
    readParams (drop 1 (queryString (pageQuery st))) = queryFields (pageQuery st)"
proof -
  have "statusNamed [] = None" by (simp add: statusNamed_def ALL_STATUSES_def)
  moreover have "statusName s \<in> statusName ` set ALL_STATUSES" if "s \<in> set ALL_STATUSES" for s using that by blast
  ultimately have "wp_activeStatus (mountPage (map_of (mirrorUrl st))) = wp_activeStatus st"
    using assms(1) statusNamed_name by (auto simp: mountPage_def map_of_mirror parseEnum_def Let_def) (metis option.inject statusNamed_name)
  then show ?thesis using assms(2) readParams_query by (simp add: mountPage_def map_of_mirror Let_def)
qed

theorem filters_roundtrip_witness:
  "wp_selectedApp (mountPage (map_of (mirrorUrl (demoPage\<lparr>wp_selectedApp := ''a&b'', wp_activeStatus := Some Running\<rparr>)))) = ''a&b''"
proof -
  let ?st = "demoPage\<lparr>wp_selectedApp := ''a&b'', wp_activeStatus := Some Running\<rparr>"
  have "wp_activeStatus ?st \<in> insert None (Some ` set ALL_STATUSES)" by (simp add: ALL_STATUSES_def)
  moreover have "wp_page ?st \<noteq> Some []" by (simp add: demoPage_def mountPage_def Let_def)
  ultimately show ?thesis using filters_roundtrip[of ?st] by simp
qed

end
