(* ===== verification/WorkflowDetail.thy ===== *)
theory WorkflowDetail
  imports WorkflowHistory JsUrl
begin

text \<open>
  The page of one workflow: \<open>lib/wallclock.ts\<close> and \<open>pages/WorkflowDetail.tsx\<close>. As in the history,
  \<open>Date.parse\<close> is an argument; the locale's date and time texts of \<open>formatDateTime\<close> are the environment's
  and are left out. Arrows of the chips are written out as words.
\<close>

section \<open>Durations\<close>

text \<open>\<open>x.toFixed(f)\<close> for a number that is not negative: ties go up.\<close>

definition toFixed :: "nat \<Rightarrow> rat \<Rightarrow> string" where
  "toFixed f x =
     (let n = nat \<lfloor>x * 10 ^ f + 1 / 2\<rfloor> in
      if f = 0 then showNat n else showNat (n div 10 ^ f) @ ''.'' @ padStart f CHR ''0'' (showNat (n mod 10 ^ f)))"

text \<open>The remainder of doubles that are not negative, which is exact.\<close>

definition fmod :: "rat \<Rightarrow> rat \<Rightarrow> rat" where
  "fmod x y = x - y * of_int \<lfloor>x / y\<rfloor>"

definition pad2 :: "int \<Rightarrow> string" where
  "pad2 n = padStart 2 CHR ''0'' (showInt n)"

text \<open>The end of an interval: an absent or empty text is now.\<close>

definition endTime :: "(string \<Rightarrow> int option) \<Rightarrow> string option \<Rightarrow> int \<Rightarrow> int option" where
  "endTime dateParse endedAt now = (case endedAt of Some e \<Rightarrow> if e = [] then Some now else dateParse e | None \<Rightarrow> Some now)"

definition elapsed :: "(string \<Rightarrow> int option) \<Rightarrow> string \<Rightarrow> string option \<Rightarrow> int \<Rightarrow> string" where
  "elapsed dateParse createdAt endedAt now =
     (case dateParse createdAt of
        None \<Rightarrow> []
      | Some start \<Rightarrow>
          (case endTime dateParse endedAt now of
             None \<Rightarrow> ''NaN:NaN''
           | Some end \<Rightarrow>
               let secs = max 0 (mathFloor (fdiv (of_int (end - start)) 1000));
                   h = mathFloor (fdiv (of_int secs) 3600);
                   secs = secs - h * 3600;
                   m = mathFloor (fdiv (of_int secs) 60);
                   s = secs - m * 60
               in if 0 < h then showInt h @ '':'' @ pad2 m @ '':'' @ pad2 s else pad2 m @ '':'' @ pad2 s))"

definition elapsedTenths :: "(string \<Rightarrow> int option) \<Rightarrow> string \<Rightarrow> string option \<Rightarrow> int \<Rightarrow> string" where
  "elapsedTenths dateParse createdAt endedAt now =
     (case dateParse createdAt of
        None \<Rightarrow> []
      | Some start \<Rightarrow>
          (case endTime dateParse endedAt now of
             None \<Rightarrow> ''NaN:NaN.NaN''
           | Some end \<Rightarrow>
               let ms = max 0 (end - start);
                   totalSecs = fdiv (of_int ms) 1000;
                   h = mathFloor (fdiv totalSecs 3600);
                   m = mathFloor (fdiv (fmod totalSecs 3600) 60);
                   s = mathFloor (fmod totalSecs 60);
                   t = mathFloor (fdiv (of_int (ms mod 1000)) 100)
               in if 0 < h then showInt h @ '':'' @ pad2 m @ '':'' @ pad2 s @ ''.'' @ showInt t
                  else showInt m @ '':'' @ pad2 s @ ''.'' @ showInt t))"

definition formatOffset :: "(string \<Rightarrow> int option) \<Rightarrow> string option \<Rightarrow> string option \<Rightarrow> string" where
  "formatOffset dateParse fromTs toTs =
     (case (fromTs, toTs) of
        (Some f, Some t) \<Rightarrow>
          if f = [] \<or> t = [] then []
          else
            (case (dateParse f, dateParse t) of
               (Some from, Some to) \<Rightarrow>
                 let totalSecs = fdiv (of_int (max 0 (to - from))) 1000;
                     h = mathFloor (fdiv totalSecs 3600);
                     m = mathFloor (fdiv (fmod totalSecs 3600) 60);
                     s = fmod totalSecs 60
                 in ''+'' @ (if 0 < h then showInt h @ ''h'' else []) @ (if 0 < h \<or> 0 < m then showInt m @ ''m'' else []) @
                    toFixed 2 s @ ''s''
             | _ \<Rightarrow> [])
      | _ \<Rightarrow> [])"

text \<open>\<open>None\<close> is a duration that is not finite.\<close>

definition formatDuration :: "int option \<Rightarrow> string" where
  "formatDuration ms =
     (case ms of
        None \<Rightarrow> []
      | Some ms \<Rightarrow>
          if ms < 0 then []
          else if ms < 1000 then showInt ms @ ''ms''
          else
            let totalSecs = fdiv (of_int ms) 1000 in
            if totalSecs < 60 then (if totalSecs < 10 then toFixed 1 totalSecs @ ''s'' else showInt (mathRound totalSecs) @ ''s'')
            else showInt (mathFloor (fdiv totalSecs 60)) @ ''m '' @ pad2 (mathRound (fmod totalSecs 60)) @ ''s'')"

section \<open>Rows\<close>

definition isTerminal :: "WorkflowStatus \<Rightarrow> bool" where
  "isTerminal status \<longleftrightarrow> status \<in> {Completed, WFailed, Terminated}"

definition nodeClass :: "string \<Rightarrow> string" where
  "nodeClass eventType =
     (if eventType = ''ExecutionStarted'' then ''n-start''
      else if eventType = ''TaskScheduled'' then ''n-sched''
      else if eventType = ''TaskCompleted'' then ''n-done''
      else if endsWith eventType ''Failed'' \<and> \<not> startsWith eventType ''Execution'' then ''n-fail''
      else if includesText eventType ''Timer'' then ''n-timer''
      else if eventType = ''SubOrchestrationCompleted'' then ''n-done''
      else if eventType = ''ExecutionCompleted'' then ''n-end''
      else if eventType = ''ExecutionFailed'' \<or> eventType = ''ExecutionTerminated'' then ''n-endfail''
      else ''n-start'')"

definition useWallClock :: "(string \<Rightarrow> int option) \<Rightarrow> string option \<Rightarrow> string option \<Rightarrow> WorkflowStatus \<Rightarrow> int \<Rightarrow> string" where
  "useWallClock dateParse createdAt lastUpdatedAt status now =
     (case createdAt of
        None \<Rightarrow> []
      | Some c \<Rightarrow>
          if c = [] then []
          else if isTerminal status then elapsedTenths dateParse c lastUpdatedAt now
          else elapsedTenths dateParse c None now)"

text \<open>The tag cell: a chip of a pair (with the anchor it links to), the event id, or nothing.\<close>

datatype TagCell =
    AwaitingResult int
  | NoScheduled int
  | ToResult int string
  | ToScheduled int string string
  | EventIdTag int
  | NoTag

definition pairChip :: "PairInfo \<Rightarrow> TagCell" where
  "pairChip pair =
     (case pi_partnerIndex pair of
        None \<Rightarrow> (case pi_role pair of Start \<Rightarrow> AwaitingResult (pi_pairId pair) | End \<Rightarrow> NoScheduled (pi_pairId pair))
      | Some j \<Rightarrow>
          (case pi_role pair of
             Start \<Rightarrow> ToResult (pi_pairId pair) (eventAnchorId j)
           | End \<Rightarrow> ToScheduled (pi_pairId pair) (eventAnchorId j) (formatDuration (pi_durationMs pair))))"

definition tagCell :: "WorkflowHistoryEvent \<Rightarrow> PairInfo option \<Rightarrow> TagCell" where
  "tagCell event pair =
     (case pair of
        Some p \<Rightarrow> pairChip p
      | None \<Rightarrow> if 0 \<le> we_sequenceId event then EventIdTag (we_sequenceId event) else NoTag)"

text \<open>
  The rows of the timeline with their canonical indices. \<open>canonicalIndex\<close> is a map on the identity of the
  event objects, so an event keeps the position it has in the ascending order.
\<close>

definition timeline :: "(string \<Rightarrow> int option) \<Rightarrow> WorkflowHistoryEvent list \<Rightarrow> HistoryOrder \<Rightarrow> (nat \<times> WorkflowHistoryEvent) list" where
  "timeline dateParse history order =
     (let ascending = sortHistoryForDisplay dateParse history; rows = zip [0..<length ascending] ascending
      in case order of Asc \<Rightarrow> rows | Desc \<Rightarrow> rev rows)"

definition pairIndex :: "(string \<Rightarrow> int option) \<Rightarrow> WorkflowHistoryEvent list \<Rightarrow> nat \<rightharpoonup> PairInfo" where
  "pairIndex dateParse history = buildPairIndex dateParse (sortHistoryForDisplay dateParse history)"

definition lastEventLabel :: "(string \<Rightarrow> int option) \<Rightarrow> WorkflowHistoryEvent list \<Rightarrow> string list option" where
  "lastEventLabel dateParse history =
     (let ordered = sortHistoryForDisplay dateParse history in
      if ordered = [] then None
      else let e = last ordered in
        Some ([we_type e] @ (case we_name e of Some n \<Rightarrow> if n = [] then [] else [n] | None \<Rightarrow> []) @
              (if 0 \<le> we_sequenceId e then [''Event ID '' @ showInt (we_sequenceId e)] else [])))"

definition lastEventAnchor :: "(string \<Rightarrow> int option) \<Rightarrow> WorkflowHistoryEvent list \<Rightarrow> string option" where
  "lastEventAnchor dateParse history =
     (let ordered = sortHistoryForDisplay dateParse history in
      if ordered = [] then None else Some (eventAnchorId (length ordered - 1)))"

section \<open>The page\<close>

record Detail =
  dt_history :: "WorkflowHistoryEvent list"
  dt_status :: WorkflowStatus
  dt_hash :: string
  dt_lastHash :: string
  dt_order :: HistoryOrder
  dt_hoveredPair :: "int option"
  dt_selection :: "(int \<times> nat) option"
  dt_dialogOpen :: bool
  dt_force :: bool

text \<open>\<open>/^event-(\d+)$/\<close>.\<close>

definition anchorIndex :: "string \<Rightarrow> nat option" where
  "anchorIndex hid =
     (if startsWith hid ''event-'' then
        let ds = drop 6 hid in if ds \<noteq> [] \<and> list_all isDigit ds then Some (readNat ds) else None
      else None)"

text \<open>Elements of the document with an id: the rows of the timeline, and others the page has.\<close>

definition hasElement :: "string list \<Rightarrow> Detail \<Rightarrow> string \<Rightarrow> bool" where
  "hasElement others st hid \<longleftrightarrow> hid \<in> set (map eventAnchorId [0..<length (dt_history st)]) \<or> hid \<in> set others"

definition jumpToHash :: "(string \<Rightarrow> int option) \<Rightarrow> string list \<Rightarrow> Detail \<Rightarrow> Detail" where
  "jumpToHash dateParse others st =
     (let hid = dt_hash st in
      if hid = [] then st\<lparr>dt_lastHash := []\<rparr>
      else if hid = dt_lastHash st then st
      else if \<not> hasElement others st hid then st
      else
        let st = st\<lparr>dt_lastHash := hid\<rparr> in
        case anchorIndex hid of
          None \<Rightarrow> st
        | Some idx \<Rightarrow>
            (case pairIndex dateParse (dt_history st) idx of
               None \<Rightarrow> st
             | Some p \<Rightarrow> st\<lparr>dt_selection := Some (pi_pairId p, idx)\<rparr>))"

definition togglePairSelection :: "int \<Rightarrow> nat \<Rightarrow> Detail \<Rightarrow> Detail" where
  "togglePairSelection pairId index st =
     st\<lparr>dt_selection := (if dt_selection st = Some (pairId, index) then None else Some (pairId, index))\<rparr>"

datatype DetailAction =
    Polled "WorkflowHistoryEvent list" WorkflowStatus
  | HashChange string
  | ClickRow nat
  | HoverPair "int option"
  | ToggleOrder
  | OpenPurge
  | OpenForceDelete
  | CloseDialog

text \<open>
  A poll that changes the history changes the pair index, and the effect that depends on it runs
  \<open>jumpToHash\<close> again. Purging is disabled until the workflow has ended.
\<close>

fun detailStep :: "(string \<Rightarrow> int option) \<Rightarrow> string list \<Rightarrow> Detail \<Rightarrow> DetailAction \<Rightarrow> Detail" where
  "detailStep dateParse others st (Polled history status) =
     jumpToHash dateParse others (st\<lparr>dt_history := history, dt_status := status\<rparr>)"
| "detailStep dateParse others st (HashChange h) = jumpToHash dateParse others (st\<lparr>dt_hash := h\<rparr>)"
| "detailStep dateParse others st (ClickRow ci) =
     (case pairIndex dateParse (dt_history st) ci of
        Some p \<Rightarrow> togglePairSelection (pi_pairId p) ci st
      | None \<Rightarrow> st)"
| "detailStep dateParse others st (HoverPair p) = st\<lparr>dt_hoveredPair := p\<rparr>"
| "detailStep dateParse others st ToggleOrder = st\<lparr>dt_order := (case dt_order st of Asc \<Rightarrow> Desc | Desc \<Rightarrow> Asc)\<rparr>"
| "detailStep dateParse others st OpenPurge = (if isTerminal (dt_status st) then st\<lparr>dt_force := False, dt_dialogOpen := True\<rparr> else st)"
| "detailStep dateParse others st OpenForceDelete = st\<lparr>dt_force := True, dt_dialogOpen := True\<rparr>"
| "detailStep dateParse others st CloseDialog = st\<lparr>dt_dialogOpen := False\<rparr>"

definition detailRun :: "(string \<Rightarrow> int option) \<Rightarrow> string list \<Rightarrow> Detail \<Rightarrow> DetailAction list \<Rightarrow> Detail" where
  "detailRun dateParse others = foldl (detailStep dateParse others)"

text \<open>The rows that are marked and the one that is open.\<close>

definition pairSelected :: "(string \<Rightarrow> int option) \<Rightarrow> Detail \<Rightarrow> nat \<Rightarrow> bool" where
  "pairSelected dateParse st ci =
     (case (pairIndex dateParse (dt_history st) ci, dt_selection st) of
        (Some p, Some (pid, _)) \<Rightarrow> pi_pairId p = pid
      | _ \<Rightarrow> False)"

definition isActive :: "Detail \<Rightarrow> nat \<Rightarrow> bool" where
  "isActive st ci \<longleftrightarrow> (case dt_selection st of Some (_, index) \<Rightarrow> index = ci | None \<Rightarrow> False)"

section \<open>Chips lead to their partners, and polling leaves the reader alone\<close>

lemma length_sortBy: "length (sortBy cmp xs) = length xs"
proof -
  have "length (insertBy cmp x ys) = Suc (length ys)" for x ys by (induction ys) auto
  then show ?thesis unfolding sortBy_def by (induction xs) auto
qed

lemma length_indexed: "length (indexed i xs) = length xs"
  by (induction xs arbitrary: i) auto

lemma length_sortHistory [simp]: "length (sortHistoryForDisplay dateParse history) = length history"
  by (simp add: sortHistoryForDisplay_def length_sortBy length_indexed)

lemma timeline_row:
  "(i, event) \<in> set (timeline dateParse history order) \<longleftrightarrow> i < length history \<and> event = sortHistoryForDisplay dateParse history ! i"
proof -
  have "(i, event) \<in> set (zip [0..<n] xs) \<longleftrightarrow> i < n \<and> event = xs ! i" if "length xs = n" for n and xs :: "WorkflowHistoryEvent list"
    using that by (auto simp: set_zip intro: exI[of _ i])
  from this[OF length_sortHistory[of dateParse history]] show ?thesis by (cases order) (simp_all add: timeline_def Let_def)
qed

lemma timeline_anchors: "distinct (map (\<lambda>(i, event). eventAnchorId i) (timeline dateParse history order))"
proof -
  have "map fst (timeline dateParse history order) = (case order of Asc \<Rightarrow> [0..<length history] | Desc \<Rightarrow> rev [0..<length history])"
    by (cases order) (simp_all add: timeline_def Let_def rev_map[symmetric])
  then have "distinct (map eventAnchorId (map fst (timeline dateParse history order)))"
    by (cases order) (simp_all add: distinct_map inj_on_def eventAnchorId_def showNat_inj)
  then show ?thesis by (simp add: comp_def split_def)
qed

lemma anchorIndex_id [simp]: "anchorIndex (eventAnchorId j) = Some j"
proof -
  have "startsWith (eventAnchorId j) ''event-''" "drop 6 (eventAnchorId j) = showNat j"
    by (simp_all add: eventAnchorId_def startsWith_append)
  moreover have "list_all isDigit (showNat j)" by (auto simp: list_all_iff showNat_isDigit)
  ultimately show ?thesis by (simp add: anchorIndex_def)
qed

lemma partner_row:
  assumes "pairIndex dateParse history i = Some p" "pi_partnerIndex p = Some j"
  shows "j < length history \<and> (\<exists>p'. pairIndex dateParse history j = Some p' \<and> pi_partnerIndex p' = Some i \<and> pi_pairId p' = pi_pairId p)"
proof -
  let ?evs = "sortHistoryForDisplay dateParse history"
  note sound = pairIndex_sound[of dateParse ?evs]
  have p: "buildPairIndex dateParse ?evs i = Some p" using assms(1) by (simp add: pairIndex_def)
  have "wellPaired dateParse ?evs (buildPairIndex dateParse ?evs) i p" by (rule sound[OF p, THEN conjunct1])
  then obtain p' where p': "buildPairIndex dateParse ?evs j = Some p'" "pi_partnerIndex p' = Some i" "pi_pairId p' = pi_pairId p"
    using assms(2) by (auto simp: wellPaired_def split: PairRole.splits)
  moreover have "j < length history" using sound[OF p'(1), THEN conjunct2] p'(1) by (auto simp: dom_def)
  ultimately show ?thesis by (simp add: pairIndex_def)
qed

abbreviation staysOnPage :: "DetailAction \<Rightarrow> bool" where
  "staysOnPage a \<equiv> (case a of HashChange _ \<Rightarrow> False | _ \<Rightarrow> True)"

abbreviation isPoll :: "DetailAction \<Rightarrow> bool" where
  "isPoll a \<equiv> (case a of Polled _ _ \<Rightarrow> True | _ \<Rightarrow> False)"

lemma settled_step:
  assumes "dt_lastHash st = dt_hash st"
  shows "staysOnPage a \<Longrightarrow> dt_lastHash (detailStep dateParse others st a) = dt_hash (detailStep dateParse others st a)"
    "isPoll a \<Longrightarrow> dt_selection (detailStep dateParse others st a) = dt_selection st"
  using assms by (cases a; auto simp: jumpToHash_def togglePairSelection_def Let_def split: option.splits)+

lemma settled_run:
  assumes "dt_lastHash st = dt_hash st" "list_all staysOnPage as"
  shows "dt_lastHash (detailRun dateParse others st as) = dt_hash (detailRun dateParse others st as)"
    "list_all isPoll as \<Longrightarrow> dt_selection (detailRun dateParse others st as) = dt_selection st"
  using assms
proof (induction as arbitrary: st)
  case (Cons a as)
  { case 1 then show ?case using Cons.IH(1) settled_step(1) by (simp add: detailRun_def) }
  { case 2 then show ?case using Cons.IH(2) settled_step by (simp add: detailRun_def) }
qed (simp_all add: detailRun_def)

lemma jump_selects:
  assumes "dt_lastHash st \<noteq> eventAnchorId j" "j < length (dt_history st)" "pairIndex dateParse (dt_history st) j = Some p"
    and st'_def: "st' = detailStep dateParse others st (HashChange (eventAnchorId j))"
  shows "dt_selection st' = Some (pi_pairId p, j)" "dt_lastHash st' = dt_hash st'" "dt_history st' = dt_history st"
proof -
  have "hasElement others (st\<lparr>dt_hash := eventAnchorId j\<rparr>) (eventAnchorId j)" "eventAnchorId j \<noteq> []"
    using assms(2) by (auto simp: hasElement_def eventAnchorId_def)
  then show "dt_selection st' = Some (pi_pairId p, j)" "dt_lastHash st' = dt_hash st'" "dt_history st' = dt_history st"
    using assms(1,3) by (simp_all add: st'_def jumpToHash_def Let_def)
qed

text \<open>
  C38. Following a chip works and lasts. Whichever way the timeline is sorted, the chip of a paired row
  leads to a row that is there (rows have different anchors) and whose chip leads back; the jump opens
  that row and marks both rows of the pair. From then on, whatever rows are opened or closed, polls that
  bring any new history and status change nothing about the selection, so a selection the reader has
  dismissed does not come back until the address changes.
\<close>

theorem chip_jump:
  assumes "(i, event) \<in> set (timeline dateParse (dt_history st) order)" "pairIndex dateParse (dt_history st) i = Some p"
    "pi_partnerIndex p = Some j" "dt_lastHash st \<noteq> eventAnchorId j"
    "list_all staysOnPage as" "list_all isPoll polls"
    "st' = detailStep dateParse others st (HashChange (eventAnchorId j))"
  shows "distinct (map (\<lambda>(i, event). eventAnchorId i) (timeline dateParse (dt_history st) order)) \<and>
    (\<exists>event' p'. (j, event') \<in> set (timeline dateParse (dt_history st) order) \<and> pairIndex dateParse (dt_history st) j = Some p' \<and>
       pi_partnerIndex p' = Some i) \<and>
    isActive st' j \<and> pairSelected dateParse st' i \<and> pairSelected dateParse st' j \<and>
    dt_selection (detailRun dateParse others (detailRun dateParse others st' as) polls) = dt_selection (detailRun dateParse others st' as)"
proof -
  obtain p' where j: "j < length (dt_history st)" and p': "pairIndex dateParse (dt_history st) j = Some p'"
    "pi_partnerIndex p' = Some i" "pi_pairId p' = pi_pairId p"
    using partner_row[OF assms(2,3)] by blast
  note sel = jump_selects[OF assms(4) j p'(1) assms(7)]
  have row: "(j, sortHistoryForDisplay dateParse (dt_history st) ! j) \<in> set (timeline dateParse (dt_history st) order)"
    using j by (simp add: timeline_row)
  have polls: "list_all staysOnPage polls" using assms(6) by (auto simp: list_all_iff split: DetailAction.splits)
  have quiet: "dt_selection (detailRun dateParse others (detailRun dateParse others st' as) polls) = dt_selection (detailRun dateParse others st' as)"
    by (rule settled_run(2)[OF settled_run(1)[OF sel(2) assms(5)] polls assms(6)])
  have "isActive st' j" "pairSelected dateParse st' i" "pairSelected dateParse st' j"
    using sel p' assms(2) by (simp_all add: isActive_def pairSelected_def)
  then show ?thesis using timeline_anchors row p'(1,2) quiet by blast
qed

definition demoDetail :: Detail where
  "demoDetail = \<lparr>dt_history = demoHistory, dt_status = Running, dt_hash = [], dt_lastHash = [], dt_order = Desc,
     dt_hoveredPair = None, dt_selection = None, dt_dialogOpen = False, dt_force = False\<rparr>"

theorem chip_jump_witness:
  "isActive (detailStep (\<lambda>s. Some (int (length s))) [] demoDetail (HashChange (eventAnchorId 0))) 0"
proof -
  let ?parse = "\<lambda>s. Some (int (length s))"
  have sorted: "sortHistoryForDisplay ?parse demoHistory = demoHistory"
    by (simp add: sortHistoryForDisplay_def demoHistory_def demoEvent_def sortBy_def compareEvents_def pinRank_def TERMINAL_EXEC_TYPES_def)
  have pair: "pairIndex ?parse (dt_history demoDetail) 1 =
      Some \<lparr>pi_pairId = 0, pi_role = End, pi_partnerIndex = Some 0, pi_durationMs = Some 2\<rparr>"
    unfolding pairIndex_def demoDetail_def Detail.simps sorted
    by (simp add: buildPairIndex_def demoHistory_def demoEvent_def pairStep_def isStartEvent_def isEndEvent_def START_TYPES_def
        END_TYPES_def openStack_def pairDuration_def closeOpen_def Let_def)
  have row: "(1, demoHistory ! 1) \<in> set (timeline ?parse (dt_history demoDetail) Desc)"
    unfolding timeline_row demoDetail_def Detail.simps sorted by (simp add: demoHistory_def)
  have "dt_lastHash demoDetail \<noteq> eventAnchorId 0" by (simp add: demoDetail_def eventAnchorId_def)
  from chip_jump[OF row pair _ this _ _ refl, of "[]" "[]" "[]"] show ?thesis by simp
qed

text \<open>
  A pair id can be reused, and the highlight compares the id only: a later pair with the same id is marked
  together with the selected one. And a duration that rounds up to a full minute shows sixty seconds.
\<close>

lemma reused_id_marked:
  "pairSelected (\<lambda>s. Some (int (length s))) (demoDetail\<lparr>dt_selection := Some (0, 0)\<rparr>) 2"
  by code_simp

lemma duration_sixty: "formatDuration (Some 119600) = ''1m 60s''"
  by code_simp

end
