(* ===== verification/StateBrowser.thy ===== *)
theory StateBrowser
  imports PagedList
begin

text \<open>
  The state browser: \<open>types/state.ts\<close>, \<open>hooks/useStateRecords.ts\<close>, \<open>pages/State.tsx\<close> and
  \<open>components/NewStateRecordDialog.tsx\<close>. As in the workflow list, results arrive as actions; a change of
  query leaves no rows until its result arrives. The mutation of the dialog is a value that remembers the
  request it is about.
\<close>

section \<open>Records\<close>

datatype StateKind = AppKind | WorkflowKind | ActorKind
datatype StateEncoding = TextEncoding | Base64Encoding

record StateItem =
  si_key :: string
  si_appId :: string
  si_logicalKey :: string
  si_kind :: StateKind
  si_preview :: string
  si_encoding :: StateEncoding
  si_size :: nat

record StateListResult =
  sl_items :: "StateItem list"
  sl_nextToken :: "string option"

section \<open>The query\<close>

record StateRecordsParams =
  sq_appId :: "string option"
  sq_search :: "string option"
  sq_page :: "string option"
  sq_limit :: "nat option"
  sq_store :: "string option"
  sq_includeInternal :: bool

definition setNonempty :: "string \<Rightarrow> string option \<Rightarrow> (string \<times> string) list" where
  "setNonempty k v = (case v of Some s \<Rightarrow> if s = [] then [] else [(k, s)] | None \<Rightarrow> [])"

definition stateQueryFields :: "StateRecordsParams \<Rightarrow> (string \<times> string) list" where
  "stateQueryFields p =
     setNonempty ''appId'' (sq_appId p) @ setNonempty ''search'' (sq_search p) @ setNonempty ''page'' (sq_page p) @
     (case sq_limit p of Some n \<Rightarrow> if n = 0 then [] else [(''limit'', showNat n)] | None \<Rightarrow> []) @
     setNonempty ''store'' (sq_store p) @ (if sq_includeInternal p then [(''includeInternal'', ''true'')] else [])"

definition stateQueryString :: "StateRecordsParams \<Rightarrow> string" where
  "stateQueryString p = (let s = paramsText (stateQueryFields p) in if s \<noteq> [] then ''?'' @ s else [])"

text \<open>The query of one expanded record, and of the key prefixes.\<close>

definition recordQuery :: "string \<Rightarrow> string option \<Rightarrow> string" where
  "recordQuery key store = ''/state/record?'' @ paramsText ((''key'', key) # setNonempty ''store'' store)"

definition appIdsQuery :: "string option \<Rightarrow> bool \<Rightarrow> string" where
  "appIdsQuery store includeInternal =
     (let s = paramsText (setNonempty ''store'' store @ (if includeInternal then [(''includeInternal'', ''true'')] else []))
      in if s \<noteq> [] then ''?'' @ s else [])"

section \<open>The page\<close>

record StatePage =
  sg_selectedApp :: string
  sg_searchInput :: string
  sg_debouncedSearch :: string
  sg_includeInternal :: bool
  sg_decodeBase64 :: bool
  sg_page :: "string option"
  sg_history :: "(string option \<times> nat) list"
  sg_pageOffset :: nat
  sg_expandedKey :: "string option"
  sg_selected :: "string list"
  sg_confirmOpen :: bool
  sg_createOpen :: bool
  sg_deleteStatus :: "(nat \<times> nat) option"
  sg_selectedStore :: "string option"
  sg_data :: "(string \<times> StateListResult) option"
  sg_failed :: "string option"

definition mountState :: "(string \<rightharpoonup> string) \<Rightarrow> StatePage" where
  "mountState url =
     (let urlText = (\<lambda>k. case url k of Some v \<Rightarrow> v | None \<Rightarrow> []) in
      \<lparr>sg_selectedApp = urlText ''app'', sg_searchInput = urlText ''search'', sg_debouncedSearch = urlText ''search'',
       sg_includeInternal = False, sg_decodeBase64 = False, sg_page = url ''page'', sg_history = [], sg_pageOffset = 0,
       sg_expandedKey = None, sg_selected = [], sg_confirmOpen = False, sg_createOpen = False, sg_deleteStatus = None,
       sg_selectedStore = None, sg_data = None, sg_failed = None\<rparr>)"

definition stateUrl :: "StatePage \<Rightarrow> (string \<times> string) list" where
  "stateUrl st =
     setNonempty ''app'' (Some (sg_selectedApp st)) @ setNonempty ''search'' (Some (sg_debouncedSearch st)) @
     setNonempty ''page'' (sg_page st)"

definition stateQuery :: "StatePage \<Rightarrow> string" where
  "stateQuery st = stateQueryString
     \<lparr>sq_appId = Some (sg_selectedApp st), sq_search = Some (sg_debouncedSearch st), sq_page = sg_page st, sq_limit = None,
      sq_store = sg_selectedStore st, sq_includeInternal = sg_includeInternal st\<rparr>"

definition stateError :: "StatePage \<Rightarrow> bool" where
  "stateError st \<longleftrightarrow> sg_failed st = Some (stateQuery st)"

definition stateData :: "StatePage \<Rightarrow> StateListResult option" where
  "stateData st = (case sg_data st of Some (q, r) \<Rightarrow> if q = stateQuery st then Some r else None | None \<Rightarrow> None)"

definition stateItems :: "StatePage \<Rightarrow> StateItem list" where
  "stateItems st = (if stateError st then [] else case stateData st of Some r \<Rightarrow> sl_items r | None \<Rightarrow> [])"

definition stateReset :: "StatePage \<Rightarrow> StatePage" where
  "stateReset st = st\<lparr>sg_page := None, sg_history := [], sg_pageOffset := 0, sg_expandedKey := None, sg_selected := []\<rparr>"

definition stateStoreChange :: "string \<Rightarrow> StatePage \<Rightarrow> StatePage" where
  "stateStoreChange sid st = stateReset (st\<lparr>sg_selectedStore := Some sid, sg_selectedApp := []\<rparr>)"

definition stateSelectApp :: "string \<Rightarrow> StatePage \<Rightarrow> StatePage" where
  "stateSelectApp app st = stateReset (st\<lparr>sg_selectedApp := app\<rparr>)"

definition stateTypeSearch :: "string \<Rightarrow> StatePage \<Rightarrow> StatePage" where
  "stateTypeSearch t st = stateReset (st\<lparr>sg_searchInput := t\<rparr>)"

definition stateDebounce :: "StatePage \<Rightarrow> StatePage" where
  "stateDebounce st = st\<lparr>sg_debouncedSearch := sg_searchInput st\<rparr>"

definition stateShowInternal :: "bool \<Rightarrow> StatePage \<Rightarrow> StatePage" where
  "stateShowInternal b st = stateReset (st\<lparr>sg_includeInternal := b\<rparr>)"

definition stateToggleRow :: "string \<Rightarrow> StatePage \<Rightarrow> StatePage" where
  "stateToggleRow key st = st\<lparr>sg_selected := toggleKey key (sg_selected st)\<rparr>"

definition stateToggleAll :: "StatePage \<Rightarrow> StatePage" where
  "stateToggleAll st = st\<lparr>sg_selected := toggleAllKeys (map si_key (stateItems st)) (sg_selected st)\<rparr>"

definition stateExpand :: "string \<Rightarrow> StatePage \<Rightarrow> StatePage" where
  "stateExpand key st = st\<lparr>sg_expandedKey := (if sg_expandedKey st = Some key then None else Some key)\<rparr>"

definition stateForward :: "string \<Rightarrow> nat \<Rightarrow> StatePage \<Rightarrow> StatePage" where
  "stateForward token n st =
     st\<lparr>sg_history := sg_history st @ [(sg_page st, sg_pageOffset st)], sg_pageOffset := sg_pageOffset st + n,
        sg_page := Some token, sg_expandedKey := None, sg_selected := []\<rparr>"

definition stateBack :: "StatePage \<Rightarrow> StatePage" where
  "stateBack st =
     (if sg_history st = [] then st
      else let prev = last (sg_history st) in
        st\<lparr>sg_page := fst prev, sg_pageOffset := snd prev, sg_history := butlast (sg_history st), sg_expandedKey := None,
           sg_selected := []\<rparr>)"

definition stateNext :: "StatePage \<Rightarrow> StatePage" where
  "stateNext st =
     (if stateError st then st
      else case stateData st of
             Some r \<Rightarrow> (case sl_nextToken r of
                          Some t \<Rightarrow> if t = [] then st else stateForward t (length (stateItems st)) st
                        | None \<Rightarrow> st)
           | None \<Rightarrow> st)"

text \<open>The keys of the deletion request, and what its results do.\<close>

definition deleteRequest :: "StatePage \<Rightarrow> string list \<times> string option" where
  "deleteRequest st = (sg_selected st, sg_selectedStore st)"

definition deleteSucceeded :: "bool list \<Rightarrow> StatePage \<Rightarrow> StatePage" where
  "deleteSucceeded oks st =
     st\<lparr>sg_deleteStatus := Some (length (filter id oks), length (filter Not oks)), sg_selected := [], sg_confirmOpen := False\<rparr>"

datatype StateAction =
    StSelectApp string
  | StTypeSearch string
  | StDebounced
  | StShowInternal bool
  | StDecode bool
  | StStoreChange string
  | StResolveStore "StateStore list" "string option"
  | StToggleRow string
  | StToggleAll
  | StExpand string
  | StPrev
  | StNext
  | StDelete
  | StCancelDelete
  | StDeleted "bool list"
  | StDeleteFailed
  | StNewRecord
  | StCloseNew
  | StArrive StateListResult
  | StQueryFailed

fun stateStep :: "StatePage \<Rightarrow> StateAction \<Rightarrow> StatePage" where
  "stateStep st (StSelectApp a) = stateSelectApp a st"
| "stateStep st (StTypeSearch t) = stateTypeSearch t st"
| "stateStep st StDebounced = stateDebounce st"
| "stateStep st (StShowInternal b) = stateShowInternal b st"
| "stateStep st (StDecode b) = st\<lparr>sg_decodeBase64 := b\<rparr>"
| "stateStep st (StStoreChange sid) = stateStoreChange sid st"
| "stateStep st (StResolveStore stores persisted) =
     st\<lparr>sg_selectedStore := chooseStore stores persisted (sg_selectedStore st)\<rparr>"
| "stateStep st (StToggleRow key) = (if key \<in> si_key ` set (stateItems st) then stateToggleRow key st else st)"
| "stateStep st StToggleAll = stateToggleAll st"
| "stateStep st (StExpand key) = (if key \<in> si_key ` set (stateItems st) then stateExpand key st else st)"
| "stateStep st StPrev = stateBack st"
| "stateStep st StNext = stateNext st"
| "stateStep st StDelete =
     (if sg_selected st \<noteq> [] \<and> \<not> stateError st then st\<lparr>sg_deleteStatus := None, sg_confirmOpen := True\<rparr> else st)"
| "stateStep st StCancelDelete = st\<lparr>sg_confirmOpen := False\<rparr>"
| "stateStep st (StDeleted oks) = deleteSucceeded oks st"
| "stateStep st StDeleteFailed = st\<lparr>sg_confirmOpen := False\<rparr>"
| "stateStep st StNewRecord = (if sg_selectedStore st = None \<or> stateError st then st else st\<lparr>sg_createOpen := True\<rparr>)"
| "stateStep st StCloseNew = st\<lparr>sg_createOpen := False\<rparr>"
| "stateStep st (StArrive r) = st\<lparr>sg_data := Some (stateQuery st, r), sg_failed := None\<rparr>"
| "stateStep st StQueryFailed = st\<lparr>sg_failed := Some (stateQuery st)\<rparr>"

section \<open>A new record\<close>

record CreateRequest =
  cr_appId :: string
  cr_key :: string
  cr_value :: string
  cr_overwrite :: bool
  cr_store :: "string option"

text \<open>The mutation: idle, in flight, done, or failed with an HTTP status when there was a response.\<close>

datatype Mutation = MIdle | MPending CreateRequest | MSuccess string | MError CreateRequest "nat option"

record NewRecord =
  nr_appId :: string
  nr_key :: string
  nr_value :: string
  nr_create :: Mutation

definition openNewRecord :: "string option \<Rightarrow> NewRecord" where
  "openNewRecord defaultAppId =
     \<lparr>nr_appId = (case defaultAppId of Some a \<Rightarrow> a | None \<Rightarrow> []), nr_key = [], nr_value = [], nr_create = MIdle\<rparr>"

definition conflict :: "NewRecord \<Rightarrow> bool" where
  "conflict d = (case nr_create d of MError _ status \<Rightarrow> status = Some 409 | _ \<Rightarrow> False)"

definition canSaveRecord :: "NewRecord \<Rightarrow> bool" where
  "canSaveRecord d \<longleftrightarrow> trim (nr_appId d) \<noteq> [] \<and> trim (nr_key d) \<noteq> [] \<and> nr_value d \<noteq> []"

definition composedKey :: "NewRecord \<Rightarrow> string" where
  "composedKey d = trim (nr_appId d) @ (if trim (nr_key d) = [] then [] else ''||'' @ trim (nr_key d))"

definition submitRequest :: "string option \<Rightarrow> bool \<Rightarrow> NewRecord \<Rightarrow> CreateRequest" where
  "submitRequest store overwrite d =
     \<lparr>cr_appId = trim (nr_appId d), cr_key = trim (nr_key d), cr_value = nr_value d, cr_overwrite = overwrite, cr_store = store\<rparr>"

text \<open>\<open>editKeyPart\<close>: a failure is retired before the field changes.\<close>

definition retireError :: "NewRecord \<Rightarrow> NewRecord" where
  "retireError d = (case nr_create d of MError _ _ \<Rightarrow> d\<lparr>nr_create := MIdle\<rparr> | _ \<Rightarrow> d)"

datatype RecordAction = EditAppId string | EditKey string | EditValue string | Save | Overwrite | Reply "nat option + string"

text \<open>The Save and Overwrite buttons, each with the condition under which it is there and enabled.\<close>

fun recordStep :: "string option \<Rightarrow> NewRecord \<Rightarrow> RecordAction \<Rightarrow> NewRecord" where
  "recordStep store d (EditAppId v) = (retireError d)\<lparr>nr_appId := v\<rparr>"
| "recordStep store d (EditKey v) = (retireError d)\<lparr>nr_key := v\<rparr>"
| "recordStep store d (EditValue v) = d\<lparr>nr_value := v\<rparr>"
| "recordStep store d Save =
     (if conflict d \<or> \<not> canSaveRecord d then d
      else case nr_create d of
             MPending _ \<Rightarrow> d
           | MSuccess _ \<Rightarrow> d
           | _ \<Rightarrow> d\<lparr>nr_create := MPending (submitRequest store False d)\<rparr>)"
| "recordStep store d Overwrite = (if conflict d then d\<lparr>nr_create := MPending (submitRequest store True d)\<rparr> else d)"
| "recordStep store d (Reply reply) =
     (case nr_create d of
        MPending rq \<Rightarrow> d\<lparr>nr_create := (case reply of Inr key \<Rightarrow> MSuccess key | Inl status \<Rightarrow> MError rq status)\<rparr>
      | _ \<Rightarrow> d)"

section \<open>Paging is the workflow list's\<close>

interpretation state_pager: paged_list sg_page sg_history sg_pageOffset stateForward stateBack stateReset
  by unfold_locales (auto simp: stateForward_def stateBack_def stateReset_def Let_def)

lemma state_paging:
  assumes "onWalk serve (sg_history st) (sg_page st) (sg_pageOffset st)"
    "serve (sg_page st) = (length (stateItems st), sl_nextToken r)" "stateData st = Some r"
  shows "onWalk serve (sg_history (stateStep st StNext)) (sg_page (stateStep st StNext)) (sg_pageOffset (stateStep st StNext))"
    "onWalk serve (sg_history (stateStep st StPrev)) (sg_page (stateStep st StPrev)) (sg_pageOffset (stateStep st StPrev))"
proof -
  show "onWalk serve (sg_history (stateStep st StNext)) (sg_page (stateStep st StNext)) (sg_pageOffset (stateStep st StNext))"
    using state_pager.forward_walk[OF assms(1)] assms by (auto simp: stateNext_def split: option.splits)
  show "onWalk serve (sg_history (stateStep st StPrev)) (sg_page (stateStep st StPrev)) (sg_pageOffset (stateStep st StPrev))"
    using state_pager.backward_walk[OF assms(1)] assms(1) by (cases "sg_history st = []") (simp_all add: stateBack_def)
qed

section \<open>Overwriting\<close>

text \<open>The keys the server refused with a conflict in a run, and runs in which a key is not edited while a request is out.\<close>

fun refusedKeys :: "string option \<Rightarrow> NewRecord \<Rightarrow> RecordAction list \<Rightarrow> (string \<times> string) set" where
  "refusedKeys store d [] = {}"
| "refusedKeys store d (a # as) =
     (case (a, nr_create d) of
        (Reply (Inl status), MPending rq) \<Rightarrow> if status = Some 409 then {(cr_appId rq, cr_key rq)} else {}
      | _ \<Rightarrow> {}) \<union> refusedKeys store (recordStep store d a) as"

definition pendingRecord :: "NewRecord \<Rightarrow> bool" where
  "pendingRecord d = (case nr_create d of MPending _ \<Rightarrow> True | _ \<Rightarrow> False)"

fun steady :: "NewRecord \<Rightarrow> RecordAction \<Rightarrow> bool" where
  "steady d (EditAppId v) \<longleftrightarrow> \<not> pendingRecord d"
| "steady d (EditKey v) \<longleftrightarrow> \<not> pendingRecord d"
| "steady d _ \<longleftrightarrow> True"

fun steadyRun :: "string option \<Rightarrow> NewRecord \<Rightarrow> RecordAction list \<Rightarrow> bool" where
  "steadyRun store d [] = True"
| "steadyRun store d (a # as) = (steady d a \<and> steadyRun store (recordStep store d a) as)"

definition aboutShown :: "(string \<times> string) set \<Rightarrow> NewRecord \<Rightarrow> bool" where
  "aboutShown refused d =
     (case nr_create d of
        MPending rq \<Rightarrow> cr_appId rq = trim (nr_appId d) \<and> cr_key rq = trim (nr_key d)
      | MError rq status \<Rightarrow> cr_appId rq = trim (nr_appId d) \<and> cr_key rq = trim (nr_key d) \<and>
          (status = Some 409 \<longrightarrow> (cr_appId rq, cr_key rq) \<in> refused)
      | _ \<Rightarrow> True)"

lemma aboutShown_step:
  assumes "aboutShown refused d" "steady d a"
  shows "aboutShown (refused \<union> refusedKeys store d [a]) (recordStep store d a)"
  using assms by (cases a; cases "nr_create d")
    (auto simp: aboutShown_def retireError_def pendingRecord_def submitRequest_def conflict_def split: sum.splits if_splits Mutation.splits)

lemma refusedKeys_Cons: "refusedKeys store d (a # as) = refusedKeys store d [a] \<union> refusedKeys store (recordStep store d a) as"
  by simp

lemma aboutShown_run:
  assumes "aboutShown refused d" "steadyRun store d as"
  shows "aboutShown (refused \<union> refusedKeys store d as) (foldl (recordStep store) d as)"
  using assms
proof (induction as arbitrary: refused d)
  case (Cons a as)
  have "aboutShown (refused \<union> refusedKeys store d [a]) (recordStep store d a)" using aboutShown_step Cons.prems by simp
  from Cons.IH[OF this] show ?case using Cons.prems by (simp only: refusedKeys_Cons[of store d a as] Un_assoc steadyRun.simps foldl.simps)
qed simp

text \<open>
  C36. Overwriting is always confirmed for the key at hand: whenever the dialog offers to overwrite, the
  request it would send names a key that the server has refused with a conflict in this dialog, as long
  as the key is not edited while a request is out; and a record is only ever created with all three
  fields filled in and the key halves trimmed.
\<close>

theorem overwrite_confirmed:
  assumes "steadyRun store (openNewRecord app) as" "conflict (foldl (recordStep store) (openNewRecord app) as)"
  shows "let d = foldl (recordStep store) (openNewRecord app) as; rq = submitRequest store True d in
    nr_create (recordStep store d Overwrite) = MPending rq \<and>
    (cr_appId rq, cr_key rq) \<in> refusedKeys store (openNewRecord app) as"
proof -
  let ?d = "foldl (recordStep store) (openNewRecord app) as"
  have "aboutShown {} (openNewRecord app)" by (simp add: aboutShown_def openNewRecord_def)
  from aboutShown_run[OF this assms(1)] have "aboutShown (refusedKeys store (openNewRecord app) as) ?d" by simp
  then show ?thesis using assms(2)
    by (auto simp: aboutShown_def conflict_def submitRequest_def Let_def split: Mutation.splits)
qed

definition demoRecordRun :: "RecordAction list" where
  "demoRecordRun = [EditKey ''cart'', EditValue ''1'', Save, Reply (Inl (Some 409))]"

lemma demoRecordRun_eval:
  "foldl (recordStep None) (openNewRecord (Some ''app'')) demoRecordRun =
    \<lparr>nr_appId = ''app'', nr_key = ''cart'', nr_value = ''1'',
     nr_create = MError \<lparr>cr_appId = ''app'', cr_key = ''cart'', cr_value = ''1'', cr_overwrite = False, cr_store = None\<rparr> (Some 409)\<rparr>"
  by (simp add: demoRecordRun_def openNewRecord_def retireError_def conflict_def canSaveRecord_def submitRequest_def trim_def
      trimStart_def isSpace_def)

theorem overwrite_confirmed_witness:
  "(''app'', ''cart'') \<in> refusedKeys None (openNewRecord (Some ''app'')) demoRecordRun"
proof -
  have "steadyRun None (openNewRecord (Some ''app'')) demoRecordRun"
    by (simp add: demoRecordRun_def openNewRecord_def pendingRecord_def)
  moreover have "conflict (foldl (recordStep None) (openNewRecord (Some ''app'')) demoRecordRun)"
    by (simp add: demoRecordRun_eval conflict_def)
  ultimately show ?thesis using overwrite_confirmed[of None "Some ''app''" demoRecordRun]
    by (simp add: Let_def demoRecordRun_eval submitRequest_def trim_def trimStart_def isSpace_def)
qed

text \<open>A key edited while the request is out is offered for overwriting although it was never refused.\<close>

lemma overwrite_unconfirmed:
  "let as = [EditKey ''cart'', EditValue ''1'', Save, EditKey ''other'', Reply (Inl (Some 409))];
       d = foldl (recordStep None) (openNewRecord (Some ''app'')) as
   in conflict d \<and> cr_key (submitRequest None True d) = ''other'' \<and>
      (''app'', ''other'') \<notin> refusedKeys None (openNewRecord (Some ''app'')) as"
  by (simp add: openNewRecord_def retireError_def conflict_def canSaveRecord_def submitRequest_def trim_def
      trimStart_def isSpace_def)

text \<open>And the value may be emptied before overwriting, although saving requires one.\<close>

lemma overwrite_empty_value:
  "let d = recordStep None (foldl (recordStep None) (openNewRecord (Some ''app'')) demoRecordRun) (EditValue [])
   in \<not> canSaveRecord d \<and> nr_create (recordStep None d Overwrite) = MPending (submitRequest None True d)"
  by (simp add: demoRecordRun_eval canSaveRecord_def conflict_def Let_def)

end
