(* ===== verification/SecretReveal.thy ===== *)
theory SecretReveal
  imports JsUrl
begin

text \<open>
  Revealing secret values (\<open>hooks/useSecretReveal.ts\<close>). The hook is a state machine over its two
  records, the timers it has set and the requests that are out; time is in milliseconds, a timer fires
  at its due time, and responses arrive in any order and after any delay.
\<close>

section \<open>The hook\<close>

definition REVEAL_TTL_MS :: nat where
  "REVEAL_TTL_MS = 30000"

text \<open>A response: the status, and the body's \<open>error\<close> text when it has one.\<close>

definition revealFailureReason :: "nat \<Rightarrow> string option \<Rightarrow> string" where
  "revealFailureReason status detail =
     (if status = 403 then ''unavailable when served off-host''
      else if status = 404 then ''no resolved value for this field''
      else ''status '' @ showNat status @ (case detail of Some e \<Rightarrow> '': '' @ e | None \<Rightarrow> []))"

definition secretValuePath :: "string \<Rightarrow> string" where
  "secretValuePath resourceId = ''/resources/component/'' @ encodeURIComponent resourceId @ ''/secret-value''"

record Timer =
  tm_id :: nat
  tm_field :: string
  tm_due :: nat

text \<open>
  Values are kept with the resource they were fetched for, which the source does not store; nothing
  reads it back. \<open>rv_tracked\<close> is \<open>timers.current\<close>, \<open>rv_pending\<close> the timers of the browser.
\<close>

record Reveal =
  rv_resource :: string
  rv_values :: "(string \<times> string \<times> string) list"
  rv_errors :: "(string \<times> string) list"
  rv_tracked :: "(string \<times> nat) list"
  rv_pending :: "Timer list"
  rv_inflight :: "(nat \<times> string \<times> string) list"
  rv_nextId :: nat
  rv_now :: nat

definition mountReveal :: "string \<Rightarrow> Reveal" where
  "mountReveal resourceId =
     \<lparr>rv_resource = resourceId, rv_values = [], rv_errors = [], rv_tracked = [], rv_pending = [], rv_inflight = [], rv_nextId = 0,
      rv_now = 0\<rparr>"

definition clearTimer :: "nat option \<Rightarrow> Timer list \<Rightarrow> Timer list" where
  "clearTimer i ts = (case i of Some n \<Rightarrow> filter (\<lambda>t. tm_id t \<noteq> n) ts | None \<Rightarrow> ts)"

text \<open>The cleanup of the pane: every tracked timer is cleared, and both records are emptied.\<close>

definition clearAll :: "Reveal \<Rightarrow> Reveal" where
  "clearAll st =
     st\<lparr>rv_pending := filter (\<lambda>t. tm_id t \<notin> snd ` set (rv_tracked st)) (rv_pending st), rv_tracked := [], rv_values := [],
        rv_errors := []\<rparr>"

definition hide :: "string \<Rightarrow> Reveal \<Rightarrow> Reveal" where
  "hide field st =
     st\<lparr>rv_pending := clearTimer (map_of (rv_tracked st) field) (rv_pending st), rv_tracked := dropKey field (rv_tracked st),
        rv_values := dropKey field (rv_values st)\<rparr>"

text \<open>\<open>reveal\<close> up to its request, which remembers the resource it was made for, and from its response on.\<close>

definition startReveal :: "string \<Rightarrow> Reveal \<Rightarrow> Reveal" where
  "startReveal field st =
     st\<lparr>rv_errors := dropKey field (rv_errors st), rv_inflight := rv_inflight st @ [(rv_nextId st, rv_resource st, field)],
        rv_nextId := rv_nextId st + 1\<rparr>"

datatype RevealReply = Value string | HttpError nat "string option" | NetworkError "string option"

definition failReveal :: "string \<Rightarrow> string \<Rightarrow> Reveal \<Rightarrow> Reveal" where
  "failReveal field reason st = st\<lparr>rv_errors := putKey field reason (rv_errors st)\<rparr>"

definition showValue :: "string \<Rightarrow> string \<Rightarrow> string \<Rightarrow> Reveal \<Rightarrow> Reveal" where
  "showValue resourceId field v st =
     st\<lparr>rv_values := putKey field (resourceId, v) (rv_values st), rv_tracked := putKey field (rv_nextId st) (rv_tracked st),
        rv_pending := rv_pending st @ [\<lparr>tm_id = rv_nextId st, tm_field = field, tm_due = rv_now st + REVEAL_TTL_MS\<rparr>],
        rv_nextId := rv_nextId st + 1\<rparr>"

definition finishReveal :: "nat \<Rightarrow> RevealReply \<Rightarrow> Reveal \<Rightarrow> Reveal" where
  "finishReveal req reply st =
     (case map_of (rv_inflight st) req of
        None \<Rightarrow> st
      | Some (resourceId, field) \<Rightarrow>
          let st = st\<lparr>rv_inflight := dropKey req (rv_inflight st)\<rparr> in
          case reply of
            Value v \<Rightarrow> showValue resourceId field v st
          | HttpError status detail \<Rightarrow> failReveal field (revealFailureReason status detail) st
          | NetworkError msg \<Rightarrow> failReveal field (case msg of Some e \<Rightarrow> e | None \<Rightarrow> ''network error'') st)"

text \<open>A timer that is due runs its callback.\<close>

definition fireTimer :: "Timer \<Rightarrow> Reveal \<Rightarrow> Reveal" where
  "fireTimer t st = hide (tm_field t) (st\<lparr>rv_pending := filter (\<lambda>u. tm_id u \<noteq> tm_id t) (rv_pending st)\<rparr>)"

text \<open>Another resource: the effect's cleanup, then the new id.\<close>

definition switchPane :: "string \<Rightarrow> Reveal \<Rightarrow> Reveal" where
  "switchPane resourceId st = (clearAll st)\<lparr>rv_resource := resourceId\<rparr>"

section \<open>Runs\<close>

text \<open>Time passes only up to the next due timer: timers are not late.\<close>

inductive revealStep :: "Reveal \<Rightarrow> Reveal \<Rightarrow> bool" where
  start: "revealStep st (startReveal field st)"
| reply: "revealStep st (finishReveal req rep st)"
| hidden: "revealStep st (hide field st)"
| fire: "t \<in> set (rv_pending st) \<Longrightarrow> tm_due t \<le> rv_now st \<Longrightarrow> revealStep st (fireTimer t st)"
| elapse: "\<forall>t \<in> set (rv_pending st). rv_now st + d \<le> tm_due t \<Longrightarrow> revealStep st (st\<lparr>rv_now := rv_now st + d\<rparr>)"
| pane: "revealStep st (switchPane resourceId st)"

inductive revealed :: "string \<Rightarrow> Reveal \<Rightarrow> bool" for resourceId where
  mount: "revealed resourceId (mountReveal resourceId)"
| step: "revealed resourceId st \<Longrightarrow> revealStep st st' \<Longrightarrow> revealed resourceId st'"

inductive_cases revealStepE: "revealStep st st'"

text \<open>Every shown value has a timer that will hide it, due within the time to live; timer ids are fresh.\<close>

definition expires :: "Reveal \<Rightarrow> bool" where
  "expires st \<longleftrightarrow>
     (\<forall>field \<in> fst ` set (rv_values st). \<exists>t \<in> set (rv_pending st). tm_field t = field) \<and>
     (\<forall>t \<in> set (rv_pending st). rv_now st \<le> tm_due t \<and> tm_due t \<le> rv_now st + REVEAL_TTL_MS \<and> tm_id t < rv_nextId st) \<and>
     (\<forall>t \<in> set (rv_pending st). \<forall>u \<in> set (rv_pending st). tm_id t = tm_id u \<longrightarrow> t = u) \<and>
     (\<forall>p \<in> set (rv_tracked st). \<forall>t \<in> set (rv_pending st). tm_id t = snd p \<longrightarrow> tm_field t = fst p) \<and>
     (\<forall>p \<in> set (rv_tracked st). snd p < rv_nextId st) \<and>
     distinct (map fst (rv_tracked st))"

lemma expiresI:
  assumes "\<And>field. field \<in> fst ` set (rv_values st) \<Longrightarrow> \<exists>t \<in> set (rv_pending st). tm_field t = field"
    "\<And>t. t \<in> set (rv_pending st) \<Longrightarrow> rv_now st \<le> tm_due t \<and> tm_due t \<le> rv_now st + REVEAL_TTL_MS \<and> tm_id t < rv_nextId st"
    "\<And>t u. t \<in> set (rv_pending st) \<Longrightarrow> u \<in> set (rv_pending st) \<Longrightarrow> tm_id t = tm_id u \<Longrightarrow> t = u"
    "\<And>p t. p \<in> set (rv_tracked st) \<Longrightarrow> t \<in> set (rv_pending st) \<Longrightarrow> tm_id t = snd p \<Longrightarrow> tm_field t = fst p"
    "\<And>p. p \<in> set (rv_tracked st) \<Longrightarrow> snd p < rv_nextId st" "distinct (map fst (rv_tracked st))"
  shows "expires st"
  unfolding expires_def using assms by simp_all

lemma expiresD:
  assumes "expires st"
  shows "field \<in> fst ` set (rv_values st) \<Longrightarrow> \<exists>t \<in> set (rv_pending st). tm_field t = field"
    "t \<in> set (rv_pending st) \<Longrightarrow> rv_now st \<le> tm_due t \<and> tm_due t \<le> rv_now st + REVEAL_TTL_MS \<and> tm_id t < rv_nextId st"
    "t \<in> set (rv_pending st) \<Longrightarrow> u \<in> set (rv_pending st) \<Longrightarrow> tm_id t = tm_id u \<Longrightarrow> t = u"
    "p \<in> set (rv_tracked st) \<Longrightarrow> t \<in> set (rv_pending st) \<Longrightarrow> tm_id t = snd p \<Longrightarrow> tm_field t = fst p"
    "p \<in> set (rv_tracked st) \<Longrightarrow> snd p < rv_nextId st" "distinct (map fst (rv_tracked st))"
  using assms by (simp_all add: expires_def) (metis imageE)

text \<open>Hiding a field removes only timers of that field.\<close>

lemma hide_pending:
  assumes "expires st" "t \<in> set (rv_pending st)" "tm_field t \<noteq> field"
  shows "t \<in> set (rv_pending (hide field st))"
  using assms(2,3) expiresD(4)[OF assms(1) _ assms(2)]
  by (fastforce dest: map_of_SomeD simp: hide_def clearTimer_def split: option.splits)

lemma hide_expires:
  assumes "expires st"
  shows "expires (hide field st)"
proof (rule expiresI)
  note D = expiresD[OF assms]
  have sub: "set (rv_pending (hide field st)) \<subseteq> set (rv_pending st)" "set (rv_tracked (hide field st)) \<subseteq> set (rv_tracked st)"
    by (auto simp: hide_def clearTimer_def dropKey_def split: option.splits)
  show "\<exists>t \<in> set (rv_pending (hide field st)). tm_field t = f" if "f \<in> fst ` set (rv_values (hide field st))" for f
  proof -
    have f: "f \<in> fst ` set (rv_values st)" "f \<noteq> field" using that by (auto simp: hide_def keys_dropKey)
    then obtain t where t: "t \<in> set (rv_pending st)" "tm_field t = f" using D(1)[OF f(1)] by blast
    from hide_pending[OF assms t(1)] t(2) f(2) show ?thesis by blast
  qed
  show "distinct (map fst (rv_tracked (hide field st)))" using D(6) by (simp add: hide_def distinct_dropKey)
  show "rv_now (hide field st) \<le> tm_due t \<and> tm_due t \<le> rv_now (hide field st) + REVEAL_TTL_MS \<and> tm_id t < rv_nextId (hide field st)"
    if "t \<in> set (rv_pending (hide field st))" for t using D(2) sub(1) that by (auto simp: hide_def)
  show "t = u" if "t \<in> set (rv_pending (hide field st))" "u \<in> set (rv_pending (hide field st))" "tm_id t = tm_id u" for t u
    using D(3)[of t u] sub(1) that by blast
  show "tm_field t = fst p" if "p \<in> set (rv_tracked (hide field st))" "t \<in> set (rv_pending (hide field st))" "tm_id t = snd p" for p t
    using D(4)[of p t] sub that by blast
  show "snd p < rv_nextId (hide field st)" if "p \<in> set (rv_tracked (hide field st))" for p
    using D(5)[of p] sub(2) that by (auto simp: hide_def)
qed

lemma fire_expires:
  assumes "expires st" "t \<in> set (rv_pending st)"
  shows "expires (fireTimer t st)" "tm_field t \<notin> fst ` set (rv_values (fireTimer t st))"
proof -
  note D = expiresD[OF assms(1)]
  let ?st = "st\<lparr>rv_pending := filter (\<lambda>u. tm_id u \<noteq> tm_id t) (rv_pending st), rv_values := dropKey (tm_field t) (rv_values st)\<rparr>"
  have "expires ?st"
  proof (rule expiresI)
    show "\<exists>u \<in> set (rv_pending ?st). tm_field u = f" if "f \<in> fst ` set (rv_values ?st)" for f
    proof -
      have f: "f \<in> fst ` set (rv_values st)" "f \<noteq> tm_field t" using that by (auto simp: keys_dropKey)
      then obtain u where u: "u \<in> set (rv_pending st)" "tm_field u = f" using D(1) by blast
      then have "tm_id u \<noteq> tm_id t" using D(3)[OF u(1) assms(2)] f(2) by auto
      then show ?thesis using u by auto
    qed
  qed (use D(2-6) in auto)
  from hide_expires[OF this, of "tm_field t"] show "expires (fireTimer t st)"
    by (simp add: fireTimer_def hide_def dropKey_def)
  show "tm_field t \<notin> fst ` set (rv_values (fireTimer t st))" by (simp add: fireTimer_def hide_def keys_dropKey)
qed

lemma show_expires:
  assumes "expires st"
  shows "expires (showValue resourceId field v st)"
proof (rule expiresI)
  note D = expiresD[OF assms]
  show "\<exists>t \<in> set (rv_pending (showValue resourceId field v st)). tm_field t = f"
    if "f \<in> fst ` set (rv_values (showValue resourceId field v st))" for f
    using that D(1)[of f] by (auto simp: showValue_def keys_putKey)
  show "rv_now (showValue resourceId field v st) \<le> tm_due t \<and> tm_due t \<le> rv_now (showValue resourceId field v st) + REVEAL_TTL_MS \<and>
      tm_id t < rv_nextId (showValue resourceId field v st)" if "t \<in> set (rv_pending (showValue resourceId field v st))" for t
    using that D(2)[of t] by (auto simp: showValue_def)
  show "t = u" if "t \<in> set (rv_pending (showValue resourceId field v st))" "u \<in> set (rv_pending (showValue resourceId field v st))"
    "tm_id t = tm_id u" for t u using that D(2)[of t] D(2)[of u] D(3)[of t u] by (auto simp: showValue_def)
  have tr: "set (rv_tracked (showValue resourceId field v st)) \<subseteq> insert (field, rv_nextId st) (set (rv_tracked st))"
    using D(6) by (auto simp: showValue_def set_putKey)
  show "tm_field t = fst p" if "p \<in> set (rv_tracked (showValue resourceId field v st))"
    "t \<in> set (rv_pending (showValue resourceId field v st))" "tm_id t = snd p" for p t
    using that tr D(2)[of t] D(4)[of p t] D(5)[of p] by (auto simp: showValue_def)
  show "snd p < rv_nextId (showValue resourceId field v st)" if "p \<in> set (rv_tracked (showValue resourceId field v st))" for p
    using that tr D(5)[of p] by (auto simp: showValue_def)
  show "distinct (map fst (rv_tracked (showValue resourceId field v st)))" using D(6) by (simp add: showValue_def distinct_putKey)
qed

lemma clearAll_expires: "expires st \<Longrightarrow> expires (clearAll st)"
  by (auto simp: expires_def clearAll_def)

lemma expires_same:
  assumes "expires st" "rv_values st' = rv_values st" "rv_pending st' = rv_pending st" "rv_tracked st' = rv_tracked st"
    "rv_now st' = rv_now st" "rv_nextId st \<le> rv_nextId st'"
  shows "expires st'"
  using assms unfolding expires_def by (fastforce intro: less_le_trans)

lemma step_expires:
  assumes "revealStep st st'" "expires st"
  shows "expires st'"
  using assms
proof (cases rule: revealStep.cases)
  case (reply req rep)
  let ?st = "st\<lparr>rv_inflight := dropKey req (rv_inflight st)\<rparr>"
  have "expires ?st" by (rule expires_same[OF assms(2)]) simp_all
  moreover have "expires (failReveal field reason ?st)" for field reason
    by (rule expires_same[OF assms(2)]) (simp_all add: failReveal_def)
  ultimately show ?thesis using assms(2) show_expires
    by (auto simp: reply finishReveal_def Let_def split: option.splits RevealReply.splits)
next
  case (elapse d)
  then show ?thesis using assms(2) by (fastforce simp: expires_def)
next
  case (start field)
  show ?thesis unfolding start by (rule expires_same[OF assms(2)]) (simp_all add: startReveal_def)
next
  case (pane resourceId)
  show ?thesis unfolding pane by (rule expires_same[OF clearAll_expires[OF assms(2)]]) (simp_all add: switchPane_def)
next
  case (hidden field)
  then show ?thesis using hide_expires[OF assms(2)] by simp
next
  case (fire t)
  then show ?thesis using fire_expires(1)[OF assms(2)] by simp
qed

lemma revealed_expires: "revealed resourceId st \<Longrightarrow> expires st"
  by (induction rule: revealed.induct) (auto simp: step_expires, simp add: mountReveal_def expires_def)

text \<open>
  C32. No secret stays on screen: in every state the hook can reach, whatever requests overlap, fail or
  arrive late and however often a field is revealed, hidden or the pane changes, each shown value has a
  timer due within thirty seconds whose firing removes it.
\<close>

theorem secrets_expire:
  assumes "revealed resourceId st" "field \<in> fst ` set (rv_values st)"
  shows "\<exists>t \<in> set (rv_pending st). tm_due t \<le> rv_now st + REVEAL_TTL_MS \<and> field \<notin> fst ` set (rv_values (fireTimer t st))"
proof -
  note inv = revealed_expires[OF assms(1)]
  obtain t where t: "t \<in> set (rv_pending st)" "tm_field t = field" using expiresD(1)[OF inv assms(2)] by blast
  then show ?thesis using expiresD(2)[OF inv t(1)] fire_expires(2)[OF inv t(1)] by blast
qed

definition demoReveal :: Reveal where
  "demoReveal = finishReveal 0 (Value ''s3cret'') (startReveal ''password'' (mountReveal ''redis''))"

theorem secrets_expire_witness:
  "\<exists>t \<in> set (rv_pending demoReveal). tm_due t \<le> rv_now demoReveal + REVEAL_TTL_MS \<and>
     ''password'' \<notin> fst ` set (rv_values (fireTimer t demoReveal))"
proof (rule secrets_expire)
  show "revealed ''redis'' demoReveal" unfolding demoReveal_def
    by (intro revealed.step[OF _ revealStep.reply] revealed.step[OF _ revealStep.start] revealed.mount)
  show "''password'' \<in> fst ` set (rv_values demoReveal)"
    by (simp add: demoReveal_def startReveal_def mountReveal_def finishReveal_def showValue_def)
qed

text \<open>
  A request that is out when the pane changes is not called off: its value is shown in the pane of the
  other resource.
\<close>

lemma value_outlives_pane:
  "rv_values (finishReveal 0 (Value ''s3cret'') (switchPane ''vault'' (startReveal ''password'' (mountReveal ''redis'')))) =
    [(''password'', ''redis'', ''s3cret'')]"
  by (simp add: startReveal_def mountReveal_def finishReveal_def showValue_def switchPane_def clearAll_def)

end
