(* ===== verification/Base64.thy ===== *)
theory Base64
  imports JsUrl
begin

text \<open>
  Base64: \<open>btoa\<close> and \<open>atob\<close> of the browser on binary strings (a character is a byte), and the preview of a
  binary state value (\<open>lib/base64.ts\<close>). A preview may hold an ellipsis, so its texts are lists of UTF-16
  code units.
\<close>

section \<open>The codec of the browser\<close>

definition b64Alphabet :: string where
  "b64Alphabet = ''ABCDEFGHIJKLMNOPQRSTUVWXYZabcdefghijklmnopqrstuvwxyz0123456789+/''"

definition b64Digit :: "nat \<Rightarrow> char" where
  "b64Digit n = b64Alphabet ! n"

definition b64Value :: "char \<Rightarrow> nat option" where
  "b64Value c = indexOfChar c b64Alphabet"

fun sextets :: "nat list \<Rightarrow> nat list" where
  "sextets [] = []"
| "sextets [a] = [a div 4, a mod 4 * 16]"
| "sextets [a, b] = [a div 4, a mod 4 * 16 + b div 16, b mod 16 * 4]"
| "sextets (a # b # c # bs) = [a div 4, a mod 4 * 16 + b div 16, b mod 16 * 4 + c div 64, c mod 64] @ sextets bs"

fun octets :: "nat list \<Rightarrow> nat list" where
  "octets (x # y # z # w # xs) = [x * 4 + y div 16, y mod 16 * 16 + z div 4, z mod 4 * 64 + w] @ octets xs"
| "octets [x, y, z] = [x * 4 + y div 16, y mod 16 * 16 + z div 4]"
| "octets [x, y] = [x * 4 + y div 16]"
| "octets _ = []"

definition btoa :: "string \<Rightarrow> string" where
  "btoa s = map b64Digit (sextets (map of_char s)) @ replicate ((3 - length s mod 3) mod 3) CHR ''=''"

text \<open>
  \<open>atob\<close>: white space is removed, up to two padding signs are removed from a text of whole groups, and
  what is left must be digits, not one more than whole groups.
\<close>

definition asciiSpace :: "char \<Rightarrow> bool" where
  "asciiSpace c \<longleftrightarrow> c \<in> {CHR 9, CHR 10, CHR 12, CHR 13, CHR '' ''}"

definition stripPadding :: "string \<Rightarrow> string" where
  "stripPadding s =
     (if length s mod 4 \<noteq> 0 then s
      else if endsWith s ''=='' then butlast (butlast s)
      else if endsWith s ''='' then butlast s else s)"

definition atob :: "string \<Rightarrow> string option" where
  "atob text =
     (let s = stripPadding (filter (\<lambda>c. \<not> asciiSpace c) text) in
      if length s mod 4 = 1 \<or> (\<exists>c \<in> set s. b64Value c = None) then None
      else Some (map char_of (octets (map (the \<circ> b64Value) s))))"

section \<open>Previews\<close>

text \<open>Code units that \<open>\s\<close> matches.\<close>

definition spaceUnit :: "nat \<Rightarrow> bool" where
  "spaceUnit u \<longleftrightarrow> 9 \<le> u \<and> u \<le> 13 \<or> 8192 \<le> u \<and> u \<le> 8202 \<or> u \<in> {32, 160, 5760, 8232, 8233, 8239, 8287, 12288, 65279}"

definition ELLIPSIS :: nat where "ELLIPSIS = 8230"
definition UNPRINTABLE :: nat where "UNPRINTABLE = 183"

definition dropEnd :: "('a \<Rightarrow> bool) \<Rightarrow> 'a list \<Rightarrow> 'a list" where
  "dropEnd p s = rev (dropWhile p (rev s))"

definition printable :: "nat \<Rightarrow> bool" where
  "printable u \<longleftrightarrow> 32 \<le> u \<and> u \<le> 126"

text \<open>Each longest run of unprintable units becomes one placeholder.\<close>

function collapseRuns :: "nat list \<Rightarrow> nat list" where
  "collapseRuns [] = []"
| "collapseRuns (u # us) =
     (if printable u then u # collapseRuns us else UNPRINTABLE # collapseRuns (dropWhile (\<lambda>v. \<not> printable v) us))"
  by pat_completeness auto
termination by (relation "measure length") (auto simp: less_Suc_eq_le length_dropWhile_le)

definition printableText :: "string \<Rightarrow> nat list option" where
  "printableText bytes =
     (let text = collapseRuns (map of_char bytes);
          trimmed = dropEnd spaceUnit (dropWhile spaceUnit
            (dropEnd (\<lambda>u. u = UNPRINTABLE) (dropWhile (\<lambda>u. u = UNPRINTABLE) text)))
      in if trimmed = [] then None else Some trimmed)"

text \<open>A unit above 255 is no base64 digit, so \<open>atob\<close> throws.\<close>

definition atobUnits :: "nat list \<Rightarrow> string option" where
  "atobUnits us = (if \<forall>u \<in> set us. u < 256 then atob (map char_of us) else None)"

definition decodeBase64Preview :: "nat list \<Rightarrow> nat list option" where
  "decodeBase64Preview s =
     (let cleaned = filter (\<lambda>u. \<not> spaceUnit u) (dropEnd (\<lambda>u. u = ELLIPSIS) s);
          whole = take (length cleaned - length cleaned mod 4) cleaned
      in if whole = [] then None
         else case atobUnits whole of None \<Rightarrow> None | Some bytes \<Rightarrow> printableText bytes)"

section \<open>The codec is a round trip\<close>

lemma indexOfChar_nth: "distinct xs \<Longrightarrow> n < length xs \<Longrightarrow> indexOfChar (xs ! n) xs = Some n"
proof (induction xs arbitrary: n)
  case (Cons x xs)
  then show ?case by (cases n) auto
qed simp

lemma b64Value_digit: "n < 64 \<Longrightarrow> b64Value (b64Digit n) = Some n"
  unfolding b64Value_def b64Digit_def by (rule indexOfChar_nth) (simp_all add: b64Alphabet_def)

lemma b64Digit_alphabet: "n < 64 \<Longrightarrow> b64Digit n \<in> set b64Alphabet"
  unfolding b64Digit_def by (rule nth_mem) (simp add: b64Alphabet_def)

lemma b64Digit_plain:
  assumes "n < 64"
  shows "b64Digit n \<noteq> CHR ''=''" "b64Digit n \<noteq> CHR ''-''" "b64Digit n \<noteq> CHR ''_''" "\<not> asciiSpace (b64Digit n)"
    "\<not> isSpace (b64Digit n)" "\<not> spaceUnit (of_char (b64Digit n))" "of_char (b64Digit n) \<noteq> ELLIPSIS"
proof -
  have "\<forall>c \<in> set b64Alphabet. c \<noteq> CHR ''='' \<and> c \<noteq> CHR ''-'' \<and> c \<noteq> CHR ''_'' \<and> \<not> asciiSpace c \<and>
      \<not> isSpace c \<and> \<not> spaceUnit (of_char c) \<and> of_char c \<noteq> ELLIPSIS"
    by (simp add: b64Alphabet_def asciiSpace_def isSpace_def spaceUnit_def ELLIPSIS_def)
  then show "b64Digit n \<noteq> CHR ''=''" "b64Digit n \<noteq> CHR ''-''" "b64Digit n \<noteq> CHR ''_''" "\<not> asciiSpace (b64Digit n)"
    "\<not> isSpace (b64Digit n)" "\<not> spaceUnit (of_char (b64Digit n))" "of_char (b64Digit n) \<noteq> ELLIPSIS"
    using b64Digit_alphabet[OF assms] by blast+
qed

lemma shift_back: "u < m \<Longrightarrow> (v * m + u) div m = v" "u < m \<Longrightarrow> (v * m + u) mod m = u" for u m v :: nat
  by simp_all

lemma byte_parts:
  assumes "b < (256 :: nat)"
  shows "b div 4 < 64" "b div 16 < 16" "b div 64 < 4" "b div 4 * 4 + b mod 4 = b" "b div 16 * 16 + b mod 16 = b"
    "b div 64 * 64 + b mod 64 = b"
  using assms by simp_all

lemma shift_less: "v < n \<Longrightarrow> u < m \<Longrightarrow> v * m + u < n * m" for u m v n :: nat
proof -
  assume "v < n" "u < m"
  then have "v * m + u < Suc v * m" "Suc v * m \<le> n * m" by (simp_all only: mult_le_mono1 Suc_le_eq) simp
  then show ?thesis by linarith
qed

lemma sextets_less:
  assumes "\<forall>b \<in> set bs. b < 256"
  shows "\<forall>x \<in> set (sextets bs). x < 64"
  using assms
proof (induction bs rule: sextets.induct)
  case (2 a)
  then show ?case using byte_parts(1)[of a] shift_less[of "a mod 4" 4 0 16] by simp
next
  case (3 a b)
  then show ?case
    using byte_parts[of a] byte_parts[of b] shift_less[of "a mod 4" 4 "b div 16" 16] shift_less[of "b mod 16" 16 0 4] by simp
next
  case (4 a b c bs)
  then show ?case
    using byte_parts[of a] byte_parts[of b] byte_parts[of c] shift_less[of "a mod 4" 4 "b div 16" 16]
      shift_less[of "b mod 16" 16 "c div 64" 4] by simp
qed simp

lemma octets_sextets:
  assumes "\<forall>b \<in> set bs. b < 256"
  shows "octets (sextets bs) = bs"
  using assms
proof (induction bs rule: sextets.induct)
  case (2 a)
  then show ?case using byte_parts[of a] by simp
next
  case (3 a b)
  then show ?case using byte_parts[of a] byte_parts[of b] shift_back[of "b div 16" 16 "a mod 4"] by simp
next
  case (4 a b c bs)
  have "a < 256" "b < 256" "c < 256" "octets (sextets bs) = bs" using 4 by simp_all
  note byte_parts[OF this(1)] byte_parts[OF this(2)] byte_parts[OF this(3)] this(4)
  then show ?case by (simp only: sextets.simps append_Cons append_Nil octets.simps shift_back)
qed simp

lemma length_sextets: "length (sextets bs) mod 4 = (if length bs mod 3 = 0 then 0 else length bs mod 3 + 1)"
  by (induction bs rule: sextets.induct) (auto simp: mod_Suc)

lemma octets_of_string: "map char_of (octets (sextets (map of_char s))) = s"
  using octets_sextets[of "map of_char s"] by (simp add: of_char_less_256 comp_def)

lemma sextet_of_string: "x \<in> set (sextets (map of_char s)) \<Longrightarrow> x < 64"
  using sextets_less[of "map of_char s"] by (simp add: of_char_less_256)

lemma atob_digits:
  assumes "\<And>x. x \<in> set xs \<Longrightarrow> x < 64" "length xs mod 4 \<noteq> 1" "n = (4 - length xs mod 4) mod 4"
  shows "atob (map b64Digit xs @ replicate n CHR ''='') = Some (map char_of (octets xs))"
proof -
  let ?s = "map b64Digit xs @ replicate n CHR ''=''"
  have flt: "filter (\<lambda>c. \<not> asciiSpace c) ?s = ?s"
    using assms(1) b64Digit_plain(4) by (auto simp: filter_id_conv asciiSpace_def)
  have n: "n = 0 \<and> length xs mod 4 = 0 \<or> n = 1 \<and> length xs mod 4 = 3 \<or> n = 2 \<and> length xs mod 4 = 2"
  proof -
    have "length xs mod 4 < 4" by simp
    then consider "length xs mod 4 = 0" | "length xs mod 4 = 2" | "length xs mod 4 = 3" using assms(2) by linarith
    then show ?thesis using assms(3) by cases simp_all
  qed
  have "stripPadding ?s = map b64Digit xs"
  proof (cases xs rule: rev_cases)
    case Nil
    then show ?thesis using n by (auto simp: stripPadding_def endsWith_def)
  next
    case (snoc ys y)
    have y: "b64Digit y \<noteq> CHR ''=''" using snoc assms(1) b64Digit_plain(1) by simp
    show ?thesis using n y
      by (elim disjE) (simp_all add: stripPadding_def endsWith_def snoc numeral_2_eq_2 butlast_append mod_Suc)
  qed
  then show ?thesis
    using assms(1,2) b64Value_digit unfolding atob_def flt Let_def by (auto simp: comp_def map_idI)
qed

lemma atob_btoa: "atob (btoa s) = Some s"
proof -
  let ?xs = "sextets (map of_char s)"
  have l: "length ?xs mod 4 = (if length s mod 3 = 0 then 0 else length s mod 3 + 1)" using length_sextets[of "map of_char s"] by simp
  have "length s mod 3 \<in> {0, 1, 2}" by (simp; presburger)
  then have "length ?xs mod 4 \<noteq> 1" "(3 - length s mod 3) mod 3 = (4 - length ?xs mod 4) mod 4" unfolding l by auto
  then show ?thesis unfolding btoa_def using atob_digits[OF sextet_of_string[of _ s]] by (simp add: octets_of_string)
qed

text \<open>The code of whole triples is a beginning of the code.\<close>

lemma sextets_take: "sextets (take (3 * j) bs) = take (4 * j) (sextets bs)" if "3 * j \<le> length bs"
  using that
proof (induction j arbitrary: bs)
  case (Suc j)
  then obtain a b c r where "bs = a # b # c # r" by (cases bs rule: sextets.cases) auto
  moreover have "take (3 * Suc j) (a # b # c # r) = a # b # c # take (3 * j) r" by (simp add: numeral_3_eq_3)
  moreover have "take (4 * Suc j) (v # w # x # y # z) = v # w # x # y # take (4 * j) z" for v w x y and z :: "nat list"
    by (simp add: numeral_eq_Suc)
  ultimately show ?case using Suc by (simp del: take_Suc_Cons)
qed simp

lemma length_sextets_ge: "3 * j \<le> length bs \<Longrightarrow> 4 * j \<le> length (sextets bs)"
proof (induction j arbitrary: bs)
  case (Suc j)
  then obtain a b c r where "bs = a # b # c # r" by (cases bs rule: sextets.cases) auto
  then show ?case using Suc by simp
qed simp

lemma length_btoa: "length (btoa s) = 4 * ((length s + 2) div 3)"
proof -
  have l: "length (sextets bs) + (3 - length bs mod 3) mod 3 = 4 * ((length bs + 2) div 3)" for bs
  proof (induction bs rule: sextets.induct)
    case (4 a b c bs)
    have len: "length (a # b # c # bs) = length bs + 3" "length bs + 3 + 2 = length bs + 2 + 3" by simp_all
    have "length (a # b # c # bs) mod 3 = length bs mod 3" unfolding len by (rule mod_add_self2)
    moreover have "(length (a # b # c # bs) + 2) div 3 = (length bs + 2) div 3 + 1" unfolding len by (rule div_add_self2) simp
    ultimately show ?case using 4 by (simp only: sextets.simps length_append length_Cons list.size) simp
  qed simp_all
  show ?thesis unfolding btoa_def using l[of "map of_char s"] by simp
qed

lemma btoa_take: "btoa (take (3 * j) s) = take (4 * j) (btoa s)"
proof (cases "3 * j \<le> length s")
  case True
  then show ?thesis
    using length_sextets_ge[of j "map of_char s"] sextets_take[of j "map of_char s"]
    by (simp add: btoa_def take_map min_def)
next
  case False
  then have "length s + 2 < Suc j * 3" by simp
  then have "4 * ((length s + 2) div 3) \<le> 4 * j" using less_mult_imp_div_less[of "length s + 2" "Suc j" 3] by simp
  then show ?thesis using False by (simp add: length_btoa)
qed

lemma btoa_chars: "c \<in> set (btoa s) \<Longrightarrow> \<not> spaceUnit (of_char c) \<and> of_char c \<noteq> ELLIPSIS \<and> \<not> isSpace c"
  unfolding btoa_def using b64Digit_plain[OF sextet_of_string[of _ s]]
  by (auto simp: spaceUnit_def ELLIPSIS_def isSpace_def)

section \<open>A preview is the beginning of the value\<close>

lemma dropEnd_id: "(\<And>x. x \<in> set s \<Longrightarrow> \<not> p x) \<Longrightarrow> dropEnd p s = s"
  unfolding dropEnd_def by (cases s rule: rev_cases) auto

lemma dropEnd_replicate: "p x \<Longrightarrow> dropEnd p (s @ replicate n x) = dropEnd p s"
  unfolding dropEnd_def by (simp add: dropWhile_append)

lemma printableText_Nil [simp]: "printableText [] = None"
  by (simp add: printableText_def dropEnd_def)

text \<open>
  The preview of a binary value is right: of the base64 text of a value, cut anywhere and followed by
  any number of ellipses, it renders the beginning of the value that the whole groups of the cut carry,
  and nothing when that has nothing printable. The cut never turns into other bytes or an error.
\<close>

theorem preview_prefix:
  "decodeBase64Preview (map of_char (take k (btoa bytes)) @ replicate n ELLIPSIS) = printableText (take (3 * (k div 4)) bytes)"
proof -
  let ?s = "map of_char (take k (btoa bytes)) :: nat list"
  have plain: "\<not> spaceUnit u" "u \<noteq> ELLIPSIS" if "u \<in> set ?s" for u
    using that btoa_chars in_set_takeD by fastforce+
  have cleaned: "filter (\<lambda>u. \<not> spaceUnit u) (dropEnd (\<lambda>u. u = ELLIPSIS) (?s @ replicate n ELLIPSIS)) = ?s"
    using plain dropEnd_id[of ?s "\<lambda>u. u = ELLIPSIS"] by (simp only: dropEnd_replicate filter_id_conv) simp
  have whole: "take (length ?s - length ?s mod 4) ?s = map of_char (btoa (take (3 * (k div 4)) bytes))"
  proof (cases "k \<le> length (btoa bytes)")
    case True
    then show ?thesis by (simp add: btoa_take take_map min_def minus_mod_eq_mult_div)
  next
    case False
    then have "length (btoa bytes) \<le> 4 * (k div 4)"
      using div_le_mono[of "4 * ((length bytes + 2) div 3)" k 4] by (simp add: length_btoa)
    then show ?thesis using False by (simp add: btoa_take take_map min_def length_btoa[of bytes])
  qed
  have "atobUnits (map of_char (btoa b)) = Some b" for b
    by (simp add: atobUnits_def of_char_less_256 atob_btoa comp_def)
  moreover have "btoa b = [] \<longleftrightarrow> b = []" for b using length_btoa[of b] by (cases b) auto
  ultimately show ?thesis unfolding decodeBase64Preview_def cleaned Let_def whole by simp
qed

end
