(* ===== verification/RunCode.thy ===== *)
theory RunCode
  imports Base64 Tape
begin

text \<open>
  Run codes (\<open>runtime/share.ts\<close>): a tape as JSON, compressed, in the URL alphabet of base64. The
  compression streams, \<open>JSON.stringify\<close> with \<open>TextEncoder\<close> and \<open>TextDecoder\<close> with \<open>JSON.parse\<close> are arguments;
  a stream delivers its output in chunks, or fails.
\<close>

section \<open>Codes\<close>

record Platform =
  pf_deflate :: "string \<Rightarrow> string list option"
  pf_inflate :: "string \<Rightarrow> string list option"
  pf_encode :: "json \<Rightarrow> string"
  pf_parse :: "string \<Rightarrow> json option"

definition RUN_CODE_PREFIX :: string where "RUN_CODE_PREFIX = ''RPL1.''"
definition MAX_RUN_CODE :: nat where "MAX_RUN_CODE = 256 * 1024"
definition MAX_TAPE_JSON :: nat where "MAX_TAPE_JSON = 4 * 1024 * 1024"

text \<open>\<open>pipe\<close>: the chunks are collected while their size is within the limit; \<open>None\<close> is the error it throws.\<close>

fun collect :: "nat option \<Rightarrow> nat \<Rightarrow> string list \<Rightarrow> string option" where
  "collect limit n [] = Some []"
| "collect limit n (c # cs) =
     (let n = n + length c in
      if (case limit of Some l \<Rightarrow> l < n | None \<Rightarrow> False) then None
      else map_option (\<lambda>out. c @ out) (collect limit n cs))"

definition pipe :: "string \<Rightarrow> (string \<Rightarrow> string list option) \<Rightarrow> nat option \<Rightarrow> string option" where
  "pipe bytes stream limit = (case stream bytes of None \<Rightarrow> None | Some cs \<Rightarrow> collect limit 0 cs)"

text \<open>The binary string is built from slices of 32768 bytes.\<close>

function binaryString :: "string \<Rightarrow> string" where
  "binaryString bytes = (if bytes = [] then [] else take 32768 bytes @ binaryString (drop 32768 bytes))"
  by pat_completeness auto
termination by (relation "measure length") auto

definition toBase64Url :: "string \<Rightarrow> string" where
  "toBase64Url bytes =
     dropEnd (\<lambda>c. c = CHR ''='')
       (map (\<lambda>c. if c = CHR ''/'' then CHR ''_'' else c)
         (map (\<lambda>c. if c = CHR ''+'' then CHR ''-'' else c) (btoa (binaryString bytes))))"

definition fromBase64Url :: "string \<Rightarrow> string option" where
  "fromBase64Url text =
     (let b64 = map (\<lambda>c. if c = CHR ''_'' then CHR ''/'' else c) (map (\<lambda>c. if c = CHR ''-'' then CHR ''+'' else c) text) in
      atob (b64 @ replicate ((4 - length b64 mod 4) mod 4) CHR ''=''))"

definition encodeRun :: "Platform \<Rightarrow> Tape \<Rightarrow> string option" where
  "encodeRun pf tape =
     map_option (\<lambda>bytes. RUN_CODE_PREFIX @ toBase64Url bytes) (pipe (pf_encode pf (tapeJson tape)) (pf_deflate pf) None)"

text \<open>The outer option is the rejection of a compressor that fails, the inner one the source's \<open>null\<close>.\<close>

definition shareableRunCode :: "Platform \<Rightarrow> Tape \<Rightarrow> string option option" where
  "shareableRunCode pf tape = map_option (\<lambda>code. if MAX_RUN_CODE < length code then None else Some code) (encodeRun pf tape)"

definition decodeRun :: "Platform \<Rightarrow> string \<Rightarrow> json option" where
  "decodeRun pf code =
     (let clean = filter (\<lambda>c. \<not> isSpace c) code in
      if \<not> startsWith clean RUN_CODE_PREFIX \<or> MAX_RUN_CODE < length clean then None
      else case fromBase64Url (drop (length RUN_CODE_PREFIX) clean) of
             None \<Rightarrow> None
           | Some bytes \<Rightarrow>
               (case pipe bytes (pf_inflate pf) (Some MAX_TAPE_JSON) of
                  None \<Rightarrow> None
                | Some json \<Rightarrow>
                    (case pf_parse pf json of
                       None \<Rightarrow> None
                     | Some data \<Rightarrow> if isTape (Some data) then Some data else None)))"

section \<open>Codes are a round trip\<close>

lemma binaryString_id [simp]: "binaryString s = s"
  by (induction s rule: binaryString.induct) (subst binaryString.simps, simp)

declare binaryString.simps [simp del]

lemma collect_concat:
  "collect limit n cs = (if (case limit of Some l \<Rightarrow> cs = [] \<or> n + length (concat cs) \<le> l | None \<Rightarrow> True) then Some (concat cs) else None)"
proof (induction cs arbitrary: n)
  case (Cons c cs)
  show ?case using Cons.IH[of "n + length c"]
    by (cases limit; cases "cs = []") (auto simp: Let_def add.assoc)
qed (simp split: option.split)

definition urlDigit :: "nat \<Rightarrow> char" where
  "urlDigit n = (let c = if b64Digit n = CHR ''+'' then CHR ''-'' else b64Digit n in if c = CHR ''/'' then CHR ''_'' else c)"

lemma toBase64Url_digits: "toBase64Url s = map urlDigit (sextets (map of_char s))"
proof -
  let ?xs = "sextets (map of_char s)"
  have "toBase64Url s = dropEnd (\<lambda>c. c = CHR ''='') (map urlDigit ?xs @ replicate ((3 - length s mod 3) mod 3) CHR ''='')"
    by (simp add: toBase64Url_def btoa_def urlDigit_def[abs_def] Let_def comp_def)
  also have "\<dots> = map urlDigit ?xs"
    using b64Digit_plain(1)[OF sextet_of_string[of _ s]]
    by (simp add: dropEnd_replicate) (rule dropEnd_id, fastforce simp: urlDigit_def Let_def split: if_splits)
  finally show ?thesis .
qed

lemma fromBase64Url_toBase64Url: "fromBase64Url (toBase64Url s) = Some s"
proof -
  let ?xs = "sextets (map of_char s)"
  have digits: "map (\<lambda>c. if c = CHR ''_'' then CHR ''/'' else c) (map (\<lambda>c. if c = CHR ''-'' then CHR ''+'' else c) (toBase64Url s)) =
      map b64Digit ?xs"
    using b64Digit_plain(2,3)[OF sextet_of_string[of _ s]]
    by (auto simp: toBase64Url_digits urlDigit_def Let_def)
  have "length ?xs mod 4 \<noteq> 1" using length_sextets[of "map of_char s"] by auto
  then show ?thesis unfolding fromBase64Url_def digits Let_def
    by (subst atob_digits) (auto simp: octets_of_string dest: sextet_of_string)
qed

lemma code_unspaced: "filter (\<lambda>c. \<not> isSpace c) (RUN_CODE_PREFIX @ toBase64Url s) = RUN_CODE_PREFIX @ toBase64Url s"
proof -
  have "\<not> isSpace (urlDigit x)" if "x \<in> set (sextets (map of_char s))" for x
    using b64Digit_plain(5)[OF sextet_of_string[OF that]] by (auto simp: urlDigit_def Let_def isSpace_def)
  then show ?thesis by (auto simp: filter_id_conv toBase64Url_digits RUN_CODE_PREFIX_def isSpace_def)
qed

text \<open>
  C37. A shared run can be watched: when the decompressor undoes the compressor and JSON texts parse to
  what was written, the code that is offered for a well-formed tape (within the size the decoder accepts)
  decodes to that tape, whatever white space a mail client or a chat has put into it, and whatever the
  chunks the streams deliver.
\<close>

theorem run_code_roundtrip:
  assumes "tapeOk tape" "shareableRunCode pf tape = Some (Some code)"
    "\<And>bytes packed. pf_deflate pf bytes = Some packed \<Longrightarrow> \<exists>cs. pf_inflate pf (concat packed) = Some cs \<and> concat cs = bytes"
    "pf_parse pf (pf_encode pf (tapeJson tape)) = Some (tapeJson tape)" "length (pf_encode pf (tapeJson tape)) \<le> MAX_TAPE_JSON"
    "filter (\<lambda>c. \<not> isSpace c) pasted = filter (\<lambda>c. \<not> isSpace c) code"
  shows "decodeRun pf pasted = Some (tapeJson tape)"
proof -
  obtain packed where packed: "pf_deflate pf (pf_encode pf (tapeJson tape)) = Some packed"
    and code: "code = RUN_CODE_PREFIX @ toBase64Url (concat packed)" "length code \<le> MAX_RUN_CODE"
    using assms(2) by (auto simp: shareableRunCode_def encodeRun_def pipe_def collect_concat split: option.splits if_splits)
  obtain cs where cs: "pf_inflate pf (concat packed) = Some cs" "concat cs = pf_encode pf (tapeJson tape)"
    using assms(3)[OF packed] by blast
  have clean: "filter (\<lambda>c. \<not> isSpace c) pasted = RUN_CODE_PREFIX @ toBase64Url (concat packed)"
    using assms(6) code_unspaced code(1) by simp
  have "pipe (concat packed) (pf_inflate pf) (Some MAX_TAPE_JSON) = Some (pf_encode pf (tapeJson tape))"
    using assms(5) cs by (simp add: pipe_def collect_concat)
  then show ?thesis unfolding decodeRun_def clean Let_def
    using code(2) assms(4) tapeJson_ok[OF assms(1)]
    by (simp add: code(1) startsWith_append fromBase64Url_toBase64Url)
qed

definition demoPlatform :: Platform where
  "demoPlatform =
     \<lparr>pf_deflate = (\<lambda>b. Some [take 2 b, drop 2 b]), pf_inflate = (\<lambda>b. Some [b]), pf_encode = (\<lambda>j. ''tape''),
      pf_parse = (\<lambda>s. if s = ''tape'' then Some (tapeJson (emptyTape ''2026-01-31'')) else None)\<rparr>"

theorem run_code_roundtrip_witness:
  "decodeRun demoPlatform ''RPL1. dG Fw ZQ'' = Some (tapeJson (emptyTape ''2026-01-31''))"
proof (rule run_code_roundtrip)
  show "tapeOk (emptyTape ''2026-01-31'')" by (simp add: tapeOk_def emptyTape_def isDigit_def)
  show "shareableRunCode demoPlatform (emptyTape ''2026-01-31'') = Some (Some ''RPL1.dGFwZQ'')"
    by (simp add: shareableRunCode_def encodeRun_def pipe_def demoPlatform_def toBase64Url_digits urlDigit_def b64Digit_def
        b64Alphabet_def RUN_CODE_PREFIX_def MAX_RUN_CODE_def)
qed (auto simp: demoPlatform_def MAX_TAPE_JSON_def isSpace_def)

text \<open>Whatever is pasted, what comes out is a tape the player accepts.\<close>

lemma decodeRun_tape: "decodeRun pf pasted = Some data \<Longrightarrow> isTape (Some data)"
  by (auto simp: decodeRun_def Let_def split: option.splits if_splits)

end
