(* ===== verification/Highlight.thy ===== *)
theory Highlight
  imports JsText
begin

text \<open>
  Highlighting of payloads and manifests: the tokenizer of \<open>lib/json-highlight.tsx\<close> and the line matcher of
  \<open>lib/yaml-highlight.tsx\<close>. What is rendered is a list of spans, each with its class and its text.
\<close>

section \<open>JSON\<close>

datatype TokenType = KeyTok | StringTok | NumberTok | PunctuationTok | LiteralTok | WhitespaceTok

type_synonym Token = "TokenType \<times> string"

definition PUNCTUATION :: "char set" where
  "PUNCTUATION = set ''{}[]:,''"

text \<open>The rest of a string literal after its opening quote, and what follows it.\<close>

fun scanString :: "string \<Rightarrow> string \<times> string" where
  "scanString [] = ([], [])"
| "scanString [c] = ([c], [])"
| "scanString (c # d # s) =
     (if c = CHR 0x5C then (let (str, rest) = scanString s in (c # d # str, rest))
      else if c = CHR 0x22 then ([c], d # s)
      else (let (str, rest) = scanString (d # s) in (c # str, rest)))"

definition numberChar :: "char \<Rightarrow> bool" where
  "numberChar c \<longleftrightarrow> isDigit c \<or> c \<in> set ''.eE+-''"

definition literalMatch :: "string \<Rightarrow> string option" where
  "literalMatch s = List.find (\<lambda>w. startsWith s w) [''true'', ''false'', ''null'']"

definition followedByColon :: "string \<Rightarrow> bool" where
  "followedByColon s \<longleftrightarrow> (case dropWhile isSpace s of c # _ \<Rightarrow> c = CHR '':'' | [] \<Rightarrow> False)"

text \<open>The token at the head of a text that is not empty, and what is left.\<close>

fun nextToken :: "string \<Rightarrow> Token \<times> string" where
  "nextToken [] = ((WhitespaceTok, []), [])"
| "nextToken (ch # s) =
     (if isSpace ch then ((WhitespaceTok, takeWhile isSpace (ch # s)), dropWhile isSpace (ch # s))
      else if ch \<in> PUNCTUATION then ((PunctuationTok, [ch]), s)
      else if ch = CHR 0x22 then
        (let (str, rest) = scanString s in ((if followedByColon rest then KeyTok else StringTok, CHR 0x22 # str), rest))
      else if ch = CHR ''-'' then ((NumberTok, CHR ''-'' # takeWhile numberChar s), dropWhile numberChar s)
      else if isDigit ch then ((NumberTok, takeWhile numberChar (ch # s)), dropWhile numberChar (ch # s))
      else case literalMatch (ch # s) of
             Some w \<Rightarrow> ((LiteralTok, w), drop (length w) (ch # s))
           | None \<Rightarrow> ((WhitespaceTok, [ch]), s))"

lemma scanString_text: "fst (scanString s) @ snd (scanString s) = s"
  by (induction s rule: scanString.induct) (auto split: prod.splits)

lemma literalMatch_SomeD: "literalMatch s = Some w \<Longrightarrow> startsWith s w \<and> w \<noteq> []"
  by (auto simp: literalMatch_def split: if_splits)

lemma nextToken_text:
  assumes "s \<noteq> []"
  shows "snd (fst (nextToken s)) @ snd (nextToken s) = s" "snd (fst (nextToken s)) \<noteq> []"
proof -
  obtain ch r where s: "s = ch # r" using assms by (cases s) auto
  have lit: "w @ drop (length w) s = s \<and> w \<noteq> []" if "literalMatch s = Some w" for w
    using literalMatch_SomeD[OF that] startsWith_drop by blast
  have "snd (fst (nextToken s)) @ snd (nextToken s) = s \<and> snd (fst (nextToken s)) \<noteq> []"
    using lit scanString_text[of r]
    by (auto simp: s numberChar_def takeWhile_dropWhile_id Let_def split: prod.splits option.splits)
  then show "snd (fst (nextToken s)) @ snd (nextToken s) = s" "snd (fst (nextToken s)) \<noteq> []" by simp_all
qed

lemma nextToken_shorter: "s \<noteq> [] \<Longrightarrow> length (snd (nextToken s)) < length s"
  using arg_cong[OF nextToken_text(1)[of s], of length] nextToken_text(2)[of s] by (cases "snd (fst (nextToken s))") auto

function tokenize :: "string \<Rightarrow> Token list" where
  "tokenize s = (if s = [] then [] else let (tok, rest) = nextToken s in tok # tokenize rest)"
  by pat_completeness auto
termination
proof (relation "measure length")
  fix s x tok rest assume "s \<noteq> []" "x = nextToken s" "(tok, rest) = x"
  then show "(rest, s) \<in> measure length" using nextToken_shorter[of s] by (metis in_measure snd_conv)
qed simp

declare tokenize.simps [simp del]

text \<open>
  \<open>highlightJson\<close>: a text that parses is printed again with two spaces of indentation (\<open>pretty\<close>, which is
  \<open>None\<close> when \<open>JSON.parse\<close> throws), any other is shown as it is.
\<close>

definition highlightJson :: "(string \<Rightarrow> string option) \<Rightarrow> string \<Rightarrow> (string option \<times> string) list" where
  "highlightJson pretty v =
     map (\<lambda>(type, text). (case type of KeyTok \<Rightarrow> Some ''k'' | StringTok \<Rightarrow> Some ''s'' | NumberTok \<Rightarrow> Some ''n''
            | PunctuationTok \<Rightarrow> Some ''p'' | LiteralTok \<Rightarrow> Some ''b'' | WhitespaceTok \<Rightarrow> None, text))
       (tokenize (case pretty v of Some t \<Rightarrow> t | None \<Rightarrow> v))"

section \<open>YAML\<close>

definition keyChar :: "char \<Rightarrow> bool" where
  "keyChar c \<longleftrightarrow> isLetter c \<or> isDigit c \<or> c \<in> set ''_.-''"

text \<open>\<open>([\w.-]+)(:)(.*)$\<close>: the key is the whole run before the colon, and a dot matches no line end.\<close>

definition keyMatch :: "string \<Rightarrow> (string \<times> string) option" where
  "keyMatch s =
     (let key = takeWhile keyChar s in
      case dropWhile keyChar s of
        c # rest \<Rightarrow> if key \<noteq> [] \<and> c = CHR '':'' \<and> CHR 10 \<notin> set rest \<and> CHR 13 \<notin> set rest then Some (key, rest) else None
      | [] \<Rightarrow> None)"

text \<open>\<open>KEY_LINE_RE\<close>: with a dash, or else without.\<close>

definition keyLine :: "string \<Rightarrow> (string \<times> string \<times> string) option" where
  "keyLine line =
     (let indent = takeWhile isSpace line; s = dropWhile isSpace line;
          plain = map_option (\<lambda>(key, rest). (indent, key, rest)) (keyMatch s)
      in case s of
           c # r \<Rightarrow>
             if c = CHR ''-'' then
               (case keyMatch (dropWhile isSpace r) of
                  Some (key, rest) \<Rightarrow> Some (indent @ CHR ''-'' # takeWhile isSpace r, key, rest)
                | None \<Rightarrow> plain)
             else plain
         | [] \<Rightarrow> None)"

text \<open>\<open>BOOL_DAPR_RE\<close>.\<close>

definition boolLine :: "string \<Rightarrow> (string \<times> string \<times> string) option" where
  "boolLine line =
     (let s = dropWhile isSpace line in
      case List.find (\<lambda>w. startsWith s w \<and> list_all isSpace (drop (length w) s)) [''true'', ''false''] of
        Some w \<Rightarrow> Some (takeWhile isSpace line, w, drop (length w) s)
      | None \<Rightarrow> None)"

type_synonym Span = "string option \<times> string"

definition highlightLine :: "string \<Rightarrow> Span list" where
  "highlightLine line =
     (if startsWith (trimStart line) ''#'' then [(Some ''yc'', line)]
      else case boolLine line of
        Some (indent, literal, trail) \<Rightarrow> [(None, indent), (Some ''yd'', literal), (None, trail)]
      | None \<Rightarrow>
          (case keyLine line of
             Some (indent, key, rest) \<Rightarrow>
               [(None, indent), (Some ''yk'', key), (None, '':'')] @
               (if rest = [] then []
                else let trimmed = trimStart rest; leading = take (length rest - length trimmed) rest in
                  if trimmed = ''true'' \<or> trimmed = ''false'' then [(None, leading), (Some ''yd'', trimmed)]
                  else [(Some ''ys'', rest)])
           | None \<Rightarrow> [(None, line)]))"

fun highlightLines :: "string list \<Rightarrow> Span list" where
  "highlightLines [] = []"
| "highlightLines [line] = highlightLine line"
| "highlightLines (line # l # lines) = highlightLine line @ [(None, [CHR 10])] @ highlightLines (l # lines)"

definition highlightYaml :: "string \<Rightarrow> Span list" where
  "highlightYaml text = highlightLines (splitOn (CHR 10) text)"

abbreviation textContent :: "('c \<times> string) list \<Rightarrow> string" where
  "textContent spans \<equiv> concat (map snd spans)"

section \<open>Nothing is lost, and keys are keys\<close>

lemma tokenize_Cons: "s \<noteq> [] \<Longrightarrow> tokenize s = fst (nextToken s) # tokenize (snd (nextToken s))"
  by (subst tokenize.simps) (simp split: prod.split)

lemma tokenize_Nil [simp]: "tokenize [] = []"
  by (simp add: tokenize.simps)

lemma textContent_tokenize: "textContent (tokenize s) = s"
proof (induction s rule: length_induct)
  case (1 s)
  show ?case
  proof (cases "s = []")
    case False
    then have "textContent (tokenize (snd (nextToken s))) = snd (nextToken s)" using 1 nextToken_shorter by blast
    then show ?thesis using nextToken_text(1)[OF False] by (simp add: tokenize_Cons[OF False])
  qed simp
qed

lemma nextToken_key:
  "fst (fst (nextToken s)) = KeyTok \<Longrightarrow> followedByColon (snd (nextToken s))"
  "fst (fst (nextToken s)) = StringTok \<Longrightarrow> \<not> followedByColon (snd (nextToken s))"
  by (cases s; auto simp: Let_def split: prod.splits if_splits option.splits)+

lemma tokens_classified:
  assumes "tokenize s = before @ (type, text) # after"
  shows "text \<noteq> [] \<and> (type = KeyTok \<longrightarrow> followedByColon (textContent after)) \<and> (type = StringTok \<longrightarrow> \<not> followedByColon (textContent after))"
  using assms
proof (induction before arbitrary: s)
  case Nil
  then have s: "s \<noteq> []" by auto
  then have "fst (nextToken s) = (type, text)" "snd (nextToken s) = textContent after"
    using Nil textContent_tokenize[of "snd (nextToken s)"] by (auto simp: tokenize_Cons)
  then show ?case using nextToken_key[of s] nextToken_text(2)[OF s] by auto
next
  case (Cons t ts)
  then have "s \<noteq> []" by auto
  then show ?case using Cons.prems Cons.IH[of "snd (nextToken s)"] by (simp add: tokenize_Cons)
qed

lemma keyMatch_text: "keyMatch s = Some (key, rest) \<Longrightarrow> key @ '':'' @ rest = s \<and> key \<noteq> [] \<and> list_all keyChar key"
  using set_takeWhileD[of _ keyChar s]
  by (auto simp: keyMatch_def Let_def list_all_iff split: list.splits if_splits) (metis takeWhile_dropWhile_id)

lemma keyLine_text:
  assumes "keyLine line = Some (indent, key, rest)"
  shows "indent @ key @ '':'' @ rest = line \<and> key \<noteq> [] \<and> list_all keyChar key"
proof -
  let ?s = "dropWhile isSpace line"
  have line: "takeWhile isSpace line @ ?s = line" by simp
  have plain: ?thesis if "keyMatch ?s = Some (key, rest)" "indent = takeWhile isSpace line"
    using keyMatch_text[OF that(1)] line that(2) by (metis append_assoc)
  obtain c r where s: "?s = c # r" using assms by (auto simp: keyLine_def Let_def split: list.splits)
  show ?thesis
  proof (cases "c = CHR ''-'' \<and> keyMatch (dropWhile isSpace r) \<noteq> None")
    case True
    then have m: "keyMatch (dropWhile isSpace r) = Some (key, rest)"
      and i: "indent = takeWhile isSpace line @ CHR ''-'' # takeWhile isSpace r"
      using assms by (auto simp: keyLine_def Let_def s split: option.splits)
    have "indent @ dropWhile isSpace r = line" using line s True by (simp add: i)
    then show ?thesis using keyMatch_text[OF m] by auto
  next
    case False
    then show ?thesis using assms plain by (auto simp: keyLine_def Let_def s split: option.splits if_splits)
  qed
qed

lemma boolLine_text: "boolLine line = Some (indent, w, trail) \<Longrightarrow> indent @ w @ trail = line"
  using startsWith_drop[of "dropWhile isSpace line" w] takeWhile_dropWhile_id[of isSpace line]
  by (auto simp: boolLine_def Let_def find_Some_iff split: option.splits if_splits)

lemma textContent_line: "textContent (highlightLine line) = line"
proof (cases "boolLine line")
  case None
  have trimmed: "take (length rest - length (trimStart rest)) rest @ trimStart rest = rest" for rest
    unfolding trimStart_def by (metis append_eq_conv_conj length_append add_diff_cancel_right' takeWhile_dropWhile_id)
  show ?thesis
  proof (cases "keyLine line")
    case (Some p)
    then obtain indent key rest where p: "keyLine line = Some (indent, key, rest)" by (cases p) auto
    show ?thesis using None keyLine_text[OF p] trimmed[of rest] by (auto simp: highlightLine_def p Let_def)
  qed (simp add: highlightLine_def None)
next
  case (Some p)
  then obtain indent w trail where p: "boolLine line = Some (indent, w, trail)" by (cases p) auto
  then show ?thesis using boolLine_text[OF p] by (simp add: highlightLine_def)
qed

lemma textContent_lines: "lines \<noteq> [] \<Longrightarrow> textContent (highlightLines lines) = joinWith [CHR 10] lines"
  by (induction lines rule: highlightLines.induct) (simp_all add: textContent_line)

text \<open>
  C40. Highlighting is faithful. What is rendered for a payload is, span by span, the text that is to be
  shown (the printed text when it parses, otherwise the text itself, broken JSON included) and for a
  manifest its text to the last character; no JSON token is empty, and a string literal is coloured as a
  key exactly when a colon follows it.
\<close>

theorem highlight_faithful:
  "textContent (highlightJson pretty v) = (case pretty v of Some t \<Rightarrow> t | None \<Rightarrow> v) \<and>
   textContent (highlightYaml yaml) = yaml \<and>
   (tokenize s = before @ (type, text) # after \<longrightarrow>
      text \<noteq> [] \<and> (type \<in> {KeyTok, StringTok} \<longrightarrow> (type = KeyTok \<longleftrightarrow> followedByColon (textContent after))))"
proof (intro conjI)
  have "map snd (highlightJson pretty v) = map snd (tokenize (case pretty v of Some t \<Rightarrow> t | None \<Rightarrow> v))"
    by (simp add: highlightJson_def split: prod.split)
  then show "textContent (highlightJson pretty v) = (case pretty v of Some t \<Rightarrow> t | None \<Rightarrow> v)"
    by (simp add: textContent_tokenize)
  show "textContent (highlightYaml yaml) = yaml"
    by (simp add: highlightYaml_def textContent_lines join_splitOn)
  show "tokenize s = before @ (type, text) # after \<longrightarrow>
      text \<noteq> [] \<and> (type \<in> {KeyTok, StringTok} \<longrightarrow> (type = KeyTok \<longleftrightarrow> followedByColon (textContent after)))"
    using tokens_classified[of s before "type" "text" after] by auto
qed

theorem highlight_faithful_witness:
  "followedByColon (textContent [(PunctuationTok, '':''), (WhitespaceTok, '' ''), (NumberTok, ''1'')])"
proof -
  have "tokenize [CHR 0x22, CHR 0x22, CHR '':'', CHR '' '', CHR ''1''] =
      [] @ (KeyTok, [CHR 0x22, CHR 0x22]) # [(PunctuationTok, '':''), (WhitespaceTok, '' ''), (NumberTok, ''1'')]"
    by (simp add: tokenize_Cons isSpace_def PUNCTUATION_def followedByColon_def isDigit_def numberChar_def)
  then show ?thesis
    using highlight_faithful[of "\<lambda>v. None" "[]" "[]" "[CHR 0x22, CHR 0x22, CHR '':'', CHR '' '', CHR ''1'']" "[]" KeyTok
        "[CHR 0x22, CHR 0x22]" "[(PunctuationTok, '':''), (WhitespaceTok, '' ''), (NumberTok, ''1'')]"]
    by auto
qed

end
