(* ===== verification/Payload.thy ===== *)
theory Payload
  imports JsUrl RuntimeTypes
begin

text \<open>
  Workflow payloads that live in a binary store: the envelope (\<open>lib/daprRef.ts\<close>), the check of loaded
  bytes (\<open>lib/payloadContent.ts\<close>), the request (\<open>hooks/useBinaryFile.ts\<close>) and the card that loads them on
  demand (\<open>components/PayloadView.tsx\<close>). \<open>JSON.parse\<close> is an argument (\<open>None\<close> when it throws, and objects
  without repeated keys otherwise), and so are the digest of the browser and its UTF-8 decoder.
\<close>

section \<open>References\<close>

record DaprRefStage =
  st_n :: string
  st_m :: "(string \<times> string) list option"

record DaprRef =
  dr_store :: string
  dr_key :: string
  dr_size :: nat
  dr_sha256 :: string
  dr_stages :: "DaprRefStage list option"

datatype ParsedPayload = DataPayload | RefPayload DaprRef | InvalidPayload string

definition nonEmpty :: "json option \<Rightarrow> bool" where
  "nonEmpty x = (case x of Some (JStr s) \<Rightarrow> trim s \<noteq> [] | _ \<Rightarrow> False)"

definition MAX_SAFE_INTEGER :: nat where
  "MAX_SAFE_INTEGER = 2 ^ 53 - 1"

definition sizeOf :: "json option \<Rightarrow> nat option" where
  "sizeOf x = (case x of
      Some (JNum z) \<Rightarrow> if z = of_int \<lfloor>z\<rfloor> \<and> \<bar>z\<bar> \<le> of_nat MAX_SAFE_INTEGER \<and> \<not> z < 0 then Some (nat \<lfloor>z\<rfloor>) else None
    | _ \<Rightarrow> None)"

definition isSha256 :: "string \<Rightarrow> bool" where
  "isSha256 s \<longleftrightarrow> length s = 64 \<and> list_all (\<lambda>c. c \<in> set ''0123456789abcdef'') s"

fun textValue :: "json \<Rightarrow> string option" where
  "textValue (JStr s) = Some s"
| "textValue _ = None"

text \<open>The values of a stage's map when all of them are strings.\<close>

definition stageMap :: "json \<Rightarrow> (string \<times> string) list option" where
  "stageMap x = (case x of
      JObj kvs \<Rightarrow> if list_all (\<lambda>(k, v). textValue v \<noteq> None) kvs then Some (map (\<lambda>(k, v). (k, the (textValue v))) kvs) else None
    | _ \<Rightarrow> None)"

fun parseStages :: "json list \<Rightarrow> string + DaprRefStage list" where
  "parseStages [] = Inr []"
| "parseStages (s # ss) =
     (case s of
        JObj fs \<Rightarrow>
          (case map_of fs ''n'' of
             Some (JStr n) \<Rightarrow>
               (case map_of fs ''m'' of
                  None \<Rightarrow> map_sum id (\<lambda>r. \<lparr>st_n = n, st_m = None\<rparr> # r) (parseStages ss)
                | Some m \<Rightarrow>
                    (case stageMap m of
                       None \<Rightarrow> Inl ''stage m must map strings to strings''
                     | Some kvs \<Rightarrow> map_sum id (\<lambda>r. \<lparr>st_n = n, st_m = Some kvs\<rparr> # r) (parseStages ss)))
           | _ \<Rightarrow> Inl ''stages entries must have a string n'')
      | _ \<Rightarrow> Inl ''stages entries must have a string n'')"

definition withStages :: "json option \<Rightarrow> (DaprRefStage list option \<Rightarrow> ParsedPayload) \<Rightarrow> ParsedPayload" where
  "withStages x ref = (case x of
      None \<Rightarrow> ref None
    | Some (JArr ss) \<Rightarrow> (case parseStages ss of Inl reason \<Rightarrow> InvalidPayload reason | Inr stages \<Rightarrow> ref (Some stages))
    | Some _ \<Rightarrow> InvalidPayload ''stages must be an array'')"

text \<open>The fields of the envelope, in the order in which they are checked.\<close>

definition parseRef :: "(string \<times> json) list \<Rightarrow> ParsedPayload" where
  "parseRef r =
     (if map_of r ''v'' \<noteq> Some (jint 1) then InvalidPayload ''v must be 1''
      else if \<not> nonEmpty (map_of r ''store'') then InvalidPayload ''store must be a non-empty string''
      else if \<not> nonEmpty (map_of r ''key'') then InvalidPayload ''key must be a non-empty string''
      else case sizeOf (map_of r ''size'') of
        None \<Rightarrow> InvalidPayload ''size must be a non-negative integer''
      | Some bytes \<Rightarrow>
          (case map_of r ''sha256'' of
             Some (JStr sha) \<Rightarrow>
               if \<not> isSha256 sha then InvalidPayload ''sha256 must be 64 lowercase hex characters''
               else withStages (map_of r ''stages'') (\<lambda>stages. RefPayload
                 \<lparr>dr_store = the (textValue (the (map_of r ''store''))), dr_key = the (textValue (the (map_of r ''key''))),
                  dr_size = bytes, dr_sha256 = sha, dr_stages = stages\<rparr>)
           | _ \<Rightarrow> InvalidPayload ''sha256 must be 64 lowercase hex characters''))"

definition parseDaprRef :: "(string \<Rightarrow> json option) \<Rightarrow> string \<Rightarrow> ParsedPayload" where
  "parseDaprRef parse text =
     (let t = trimStart text in
      if \<not> startsWith t ''{'' then DataPayload
      else case parse t of
        None \<Rightarrow> if includesText t ''$daprRef'' then InvalidPayload ''not valid JSON'' else DataPayload
      | Some parsed \<Rightarrow>
          (case parsed of
             JObj fs \<Rightarrow>
               if map fst fs \<noteq> [''$daprRef''] then DataPayload
               else (case snd (hd fs) of JObj r \<Rightarrow> parseRef r | _ \<Rightarrow> InvalidPayload ''$daprRef must be an object'')
           | _ \<Rightarrow> DataPayload))"

section \<open>Loading\<close>

datatype PayloadContent = JsonContent string | TextContent string | BinaryContent nat
datatype Integrity = Verified | Mismatch | Unverified

record LoadedPayload =
  lp_content :: PayloadContent
  lp_integrity :: Integrity

text \<open>\<open>digest\<close> is \<open>None\<close> where \<open>SubtleCrypto\<close> is missing; \<open>decode\<close> is \<open>None\<close> on bytes that are not UTF-8.\<close>

definition analyzePayload ::
    "('b \<Rightarrow> string) option \<Rightarrow> ('b \<Rightarrow> string option) \<Rightarrow> (string \<Rightarrow> json option) \<Rightarrow> ('b \<Rightarrow> nat) \<Rightarrow> 'b \<Rightarrow> string \<Rightarrow> LoadedPayload" where
  "analyzePayload digest decode parse byteLength bytes expectedSha256 =
     (let integrity = (case digest of None \<Rightarrow> Unverified
            | Some sha256Hex \<Rightarrow> if sha256Hex bytes = toLowerCase expectedSha256 then Verified else Mismatch)
      in case decode bytes of
           None \<Rightarrow> \<lparr>lp_content = BinaryContent (byteLength bytes), lp_integrity = integrity\<rparr>
         | Some text \<Rightarrow>
             (case parse text of
                Some _ \<Rightarrow> \<lparr>lp_content = JsonContent text, lp_integrity = integrity\<rparr>
              | None \<Rightarrow> \<lparr>lp_content = TextContent text, lp_integrity = integrity\<rparr>))"

definition binaryFilePath :: "string \<Rightarrow> DaprRef \<Rightarrow> string" where
  "binaryFilePath key ref =
     ''/apps/'' @ encodeURIComponent key @ ''/binarystore/'' @ encodeURIComponent (dr_store ref) @ ''/file?key='' @
     encodeURIComponent (dr_key ref) @ ''&size='' @ showNat (dr_size ref)"

definition MAX_BYTES :: nat where
  "MAX_BYTES = 1048576"

record CardApp =
  ca_appId :: string
  ca_instanceKey :: "string option"
  ca_sidecarReachable :: "bool option"
  ca_daprdStopped :: bool

definition appKey :: "CardApp \<Rightarrow> string" where
  "appKey app = (case ca_instanceKey app of Some k \<Rightarrow> if k = [] then ca_appId app else k | None \<Rightarrow> ca_appId app)"

definition cardKey :: "CardApp list \<Rightarrow> string \<Rightarrow> string option" where
  "cardKey apps appId =
     map_option appKey (List.find (\<lambda>a. ca_appId a = appId \<and> ca_sidecarReachable a \<noteq> Some False \<and> \<not> ca_daprdStopped a) apps)"

text \<open>Why a payload is not offered; the apps are \<open>None\<close> until they arrive. An empty key counts as none.\<close>

datatype Blocked = Staged "string list" | TooLarge nat | AppsLoading | AppsFailed | StartApp string

definition blocked :: "CardApp list option \<Rightarrow> bool \<Rightarrow> bool \<Rightarrow> string \<Rightarrow> DaprRef \<Rightarrow> Blocked option" where
  "blocked apps isLoading isError appId ref =
     (let stages = (case dr_stages ref of Some s \<Rightarrow> s | None \<Rightarrow> []);
          key = (case apps of Some l \<Rightarrow> cardKey l appId | None \<Rightarrow> None) in
      if stages \<noteq> [] then Some (Staged (map st_n stages))
      else if MAX_BYTES < dr_size ref then Some (TooLarge (dr_size ref))
      else if key = None \<or> key = Some [] then
        (if isLoading then Some AppsLoading else if isError then Some AppsFailed else Some (StartApp appId))
      else None)"

text \<open>The request of the card: made once the user has asked for it and nothing blocks it.\<close>

definition cardRequest :: "CardApp list option \<Rightarrow> bool \<Rightarrow> bool \<Rightarrow> string \<Rightarrow> DaprRef \<Rightarrow> bool \<Rightarrow> string option" where
  "cardRequest apps isLoading isError appId ref asked =
     (let key = (case apps of Some l \<Rightarrow> cardKey l appId | None \<Rightarrow> None) in
      if asked \<and> blocked apps isLoading isError appId ref = None then map_option (\<lambda>k. binaryFilePath k ref) key else None)"

section \<open>What counts as a reference\<close>

fun stageDescribes :: "json \<Rightarrow> DaprRefStage \<Rightarrow> bool" where
  "stageDescribes (JObj fs) st =
     (map_of fs ''n'' = Some (JStr (st_n st)) \<and>
      (case st_m st of None \<Rightarrow> map_of fs ''m'' = None
       | Some kvs \<Rightarrow> map_of fs ''m'' = Some (JObj (map (\<lambda>(k, v). (k, JStr v)) kvs))))"
| "stageDescribes _ _ = False"

definition describes :: "(string \<times> json) list \<Rightarrow> DaprRef \<Rightarrow> bool" where
  "describes r ref \<longleftrightarrow>
     map_of r ''v'' = Some (jint 1) \<and> map_of r ''store'' = Some (JStr (dr_store ref)) \<and>
     map_of r ''key'' = Some (JStr (dr_key ref)) \<and> map_of r ''size'' = Some (jint (int (dr_size ref))) \<and>
     map_of r ''sha256'' = Some (JStr (dr_sha256 ref)) \<and>
     (case dr_stages ref of None \<Rightarrow> map_of r ''stages'' = None
      | Some sts \<Rightarrow> \<exists>ss. map_of r ''stages'' = Some (JArr ss) \<and> list_all2 stageDescribes ss sts)"

definition refOk :: "DaprRef \<Rightarrow> bool" where
  "refOk ref \<longleftrightarrow> trim (dr_store ref) \<noteq> [] \<and> trim (dr_key ref) \<noteq> [] \<and> dr_size ref \<le> MAX_SAFE_INTEGER \<and> isSha256 (dr_sha256 ref)"

lemma nonEmpty_iff: "nonEmpty x \<longleftrightarrow> (\<exists>s. x = Some (JStr s) \<and> trim s \<noteq> [])"
  by (auto simp: nonEmpty_def split: option.splits json.splits)

lemma sizeOf_iff: "sizeOf x = Some n \<longleftrightarrow> x = Some (jint (int n)) \<and> n \<le> MAX_SAFE_INTEGER"
proof
  assume "sizeOf x = Some n"
  then obtain z where z: "x = Some (JNum z)" "z = of_int \<lfloor>z\<rfloor>" "\<bar>z\<bar> \<le> of_nat MAX_SAFE_INTEGER" "0 \<le> z" "n = nat \<lfloor>z\<rfloor>"
    by (auto simp: sizeOf_def split: option.splits json.splits if_splits)
  then have "z = of_nat n" by (metis floor_of_nat nat_0_le of_int_of_nat_eq zero_le_floor)
  then show "x = Some (jint (int n)) \<and> n \<le> MAX_SAFE_INTEGER" using z by simp
qed (simp add: sizeOf_def)

lemma textValue_iff: "textValue v = Some s \<longleftrightarrow> v = JStr s"
  by (cases v) auto

lemma stageMap_iff: "stageMap x = Some kvs \<longleftrightarrow> x = JObj (map (\<lambda>(k, v). (k, JStr v)) kvs)"
proof
  assume "stageMap x = Some kvs"
  then obtain js where js: "x = JObj js" "list_all (\<lambda>(k, v). textValue v \<noteq> None) js" "kvs = map (\<lambda>(k, v). (k, the (textValue v))) js"
    by (auto simp: stageMap_def split: json.splits if_splits)
  have "map (\<lambda>(k, v). (k, JStr v)) kvs = js" unfolding js(3) using js(2)
    by (induction js) (auto simp: textValue_iff)
  then show "x = JObj (map (\<lambda>(k, v). (k, JStr v)) kvs)" using js(1) by simp
qed (auto simp: stageMap_def list_all_iff comp_def split_def)

lemma parseStages_iff: "parseStages ss = Inr sts \<longleftrightarrow> list_all2 stageDescribes ss sts"
proof (induction ss arbitrary: sts)
  case Nil
  then show ?case by auto
next
  case (Cons s ss)
  have cons: "map_sum id (\<lambda>r. x # r) (parseStages ss) = Inr sts \<longleftrightarrow> (\<exists>r. sts = x # r \<and> list_all2 stageDescribes ss r)" for x
    using Cons.IH by (cases "parseStages ss") auto
  have st: "stageDescribes s y \<longleftrightarrow> (\<exists>fs. s = JObj fs \<and> map_of fs ''n'' = Some (JStr (st_n y)) \<and>
      (case st_m y of None \<Rightarrow> map_of fs ''m'' = None | Some kvs \<Rightarrow> \<exists>m. map_of fs ''m'' = Some m \<and> stageMap m = Some kvs))" for y
    by (cases s; cases "st_m y") (auto simp: stageMap_iff)
  show ?case
  proof (cases "\<exists>fs n. s = JObj fs \<and> map_of fs ''n'' = Some (JStr n)")
    case True
    then obtain fs n where fs: "s = JObj fs" "map_of fs ''n'' = Some (JStr n)" by blast
    show ?thesis
    proof (cases "map_of fs ''m''")
      case None
      have "stageDescribes s y \<longleftrightarrow> y = \<lparr>st_n = n, st_m = None\<rparr>" for y
        using fs None unfolding st by (cases y) (auto split: option.splits)
      then show ?thesis using fs None cons by (auto simp: list_all2_Cons1)
    next
      case (Some m)
      have "stageDescribes s y \<longleftrightarrow> (\<exists>kvs. stageMap m = Some kvs \<and> y = \<lparr>st_n = n, st_m = Some kvs\<rparr>)" for y
        using fs Some unfolding st by (cases y) (auto split: option.splits)
      then show ?thesis using fs Some cons by (auto simp: list_all2_Cons1 split: option.splits)
    qed
  next
    case False
    then have "\<not> stageDescribes s y" for y unfolding st by blast
    moreover have "parseStages (s # ss) = Inl ''stages entries must have a string n''"
      using False by (auto split: json.splits option.splits)
    ultimately show ?thesis by (auto simp: list_all2_Cons1)
  qed
qed

lemma withStages_iff:
  "withStages x f = RefPayload ref \<longleftrightarrow>
    (\<exists>sts. f sts = RefPayload ref \<and>
      (case sts of None \<Rightarrow> x = None | Some l \<Rightarrow> \<exists>ss. x = Some (JArr ss) \<and> list_all2 stageDescribes ss l))"
proof (cases x)
  case (Some j)
  then show ?thesis
    by (cases j) (auto simp: withStages_def parseStages_iff[symmetric] split: option.splits sum.splits)
qed (auto simp: withStages_def split: option.splits)

lemma parseRef_iff: "parseRef r = RefPayload ref \<longleftrightarrow> describes r ref \<and> refOk ref"
proof
  assume parsed: "parseRef r = RefPayload ref"
  have v: "map_of r ''v'' = Some (jint 1)" by (rule ccontr) (use parsed in \<open>simp add: parseRef_def del: jint.simps\<close>)
  have "nonEmpty (map_of r ''store'')" by (rule ccontr) (use parsed v in \<open>simp add: parseRef_def del: jint.simps\<close>)
  then obtain store where store: "map_of r ''store'' = Some (JStr store)" "trim store \<noteq> []" by (auto simp: nonEmpty_iff)
  have "nonEmpty (map_of r ''key'')" by (rule ccontr) (use parsed v in \<open>simp add: parseRef_def nonEmpty_iff store del: jint.simps\<close>)
  then obtain key where key: "map_of r ''key'' = Some (JStr key)" "trim key \<noteq> []" by (auto simp: nonEmpty_iff)
  note known = v store key
  obtain n where n: "sizeOf (map_of r ''size'') = Some n"
    using parsed by (cases "sizeOf (map_of r ''size'')") (simp_all add: parseRef_def nonEmpty_iff known del: jint.simps)
  obtain j where j: "map_of r ''sha256'' = Some j"
    using parsed by (cases "map_of r ''sha256''") (simp_all add: parseRef_def nonEmpty_iff known n del: jint.simps)
  obtain sha where sha: "j = JStr sha"
    using parsed by (cases j) (simp_all add: parseRef_def nonEmpty_iff known n j del: jint.simps)
  have "isSha256 sha" by (rule ccontr) (use parsed in \<open>simp add: parseRef_def nonEmpty_iff known n j sha del: jint.simps\<close>)
  then show "describes r ref \<and> refOk ref"
    using parsed n by (auto simp: parseRef_def describes_def refOk_def nonEmpty_iff known j sha withStages_iff sizeOf_iff simp del: jint.simps)
next
  assume "describes r ref \<and> refOk ref"
  then have d: "describes r ref" and ok: "refOk ref" by simp_all
  have "sizeOf (map_of r ''size'') = Some (dr_size ref)" using d ok by (simp add: sizeOf_iff describes_def refOk_def)
  then show "parseRef r = RefPayload ref"
    using d ok by (simp add: parseRef_def describes_def refOk_def nonEmpty_iff withStages_iff exI[of _ "dr_stages ref"])
qed

text \<open>
  C39. A payload is treated as a reference to the binary store exactly when its text, after leading white
  space, is a JSON object whose only field is \<open>$daprRef\<close>, holding version 1, a store and a key that are not
  blank, a size the number type represents exactly, a digest of 64 lower-case hex digits and, if any,
  well-formed stages; the reference has just these values. Whatever else a workflow stores stays data or
  is reported, and is never fetched.
\<close>

theorem reference_specified:
  "parseDaprRef parse text = RefPayload ref \<longleftrightarrow>
    (\<exists>r. startsWith (trimStart text) ''{'' \<and> parse (trimStart text) = Some (JObj [(''$daprRef'', JObj r)]) \<and>
         describes r ref \<and> refOk ref)"
  unfolding parseDaprRef_def Let_def
  by (auto simp: parseRef_iff map_eq_Cons_conv split: if_splits option.splits json.splits)

lemma cardKey_SomeD: "cardKey l appId = Some k \<Longrightarrow> \<exists>a \<in> set l. ca_appId a = appId \<and> \<not> ca_daprdStopped a \<and> k = appKey a"
  by (induction l) (auto simp: cardKey_def split: if_splits)

text \<open>A request is made only on demand, for an unstaged payload of at most 1 MiB and an app that can serve it.\<close>

lemma request_guarded:
  assumes "cardRequest apps isLoading isError appId ref asked = Some path"
  shows "asked \<and> (dr_stages ref = None \<or> dr_stages ref = Some []) \<and> dr_size ref \<le> MAX_BYTES \<and>
    (\<exists>l a. apps = Some l \<and> a \<in> set l \<and> ca_appId a = appId \<and> \<not> ca_daprdStopped a \<and> path = binaryFilePath (appKey a) ref)"
proof -
  obtain l k where l: "apps = Some l" "cardKey l appId = Some k" "path = binaryFilePath k ref"
    and "asked" "blocked apps isLoading isError appId ref = None"
    using assms by (auto simp: cardRequest_def Let_def split: if_splits option.splits)
  moreover from this have "(dr_stages ref = None \<or> dr_stages ref = Some []) \<and> dr_size ref \<le> MAX_BYTES"
    by (auto simp: blocked_def Let_def split: if_splits option.splits)
  ultimately show ?thesis using cardKey_SomeD[OF l(2)] by blast
qed

text \<open>A payload is called verified only when its bytes have the digest of the reference.\<close>

lemma verified_digest:
  assumes "isSha256 sha" "lp_integrity (analyzePayload digest decode parse byteLength bytes sha) = Verified"
  shows "\<exists>h. digest = Some h \<and> h bytes = sha"
proof -
  have lower: "lowerChar c = c" if "c \<in> set ''0123456789abcdef''" for c using that by (auto simp: lowerChar_def)
  have "c \<in> set ''0123456789abcdef''" if "c \<in> set sha" for c
    using assms(1) that unfolding isSha256_def list_all_iff by blast
  then have "toLowerCase sha = sha" by (intro map_idI lower)
  then show ?thesis using assms(2) by (auto simp: analyzePayload_def Let_def split: option.splits if_splits)
qed

end
