(* ===== verification/Settings.thy ===== *)
theory Settings
  imports WorkflowHistory RuntimeTypes
begin

text \<open>
  What the shell of the dashboard keeps and listens to: \<open>lib/safeStorage.ts\<close>, \<open>lib/prefs.ts\<close>,
  \<open>lib/refresh.tsx\<close>, the poll interval of \<open>lib/connection.tsx\<close>, \<open>hooks/useKonami.ts\<close>, the key map of the game
  (\<open>runtime/keys.ts\<close>) and the health shown for an application (\<open>lib/appDisplayState.ts\<close>, the counts of
  \<open>pages/Applications.tsx\<close>).
\<close>

section \<open>Guarded storage\<close>

text \<open>Every access may throw (\<open>bs_off\<close>), and so may a write to a full storage.\<close>

record BrowserStorage =
  bs_items :: "string \<rightharpoonup> string"
  bs_off :: bool
  bs_full :: bool

definition safeGet :: "string \<Rightarrow> BrowserStorage \<Rightarrow> string option" where
  "safeGet key st = (if bs_off st then None else bs_items st key)"

definition safeSet :: "string \<Rightarrow> string \<Rightarrow> BrowserStorage \<Rightarrow> BrowserStorage" where
  "safeSet key v st = (if bs_off st \<or> bs_full st then st else st\<lparr>bs_items := (bs_items st)(key \<mapsto> v)\<rparr>)"

section \<open>Preferences\<close>

datatype Theme = Light | Dark

definition THEME_KEY :: string where "THEME_KEY = ''devdash.theme''"
definition HISTORY_ORDER_KEY :: string where "HISTORY_ORDER_KEY = ''devdash.workflowHistoryOrder''"
definition REFRESH_MS_KEY :: string where "REFRESH_MS_KEY = ''devdash.refreshMs''"
definition REFRESH_PAUSED_KEY :: string where "REFRESH_PAUSED_KEY = ''devdash.refreshPaused''"

definition readTheme :: "string option \<Rightarrow> Theme" where
  "readTheme v = (if v = Some ''dark'' then Dark else Light)"

definition themeName :: "Theme \<Rightarrow> string" where
  "themeName t = (case t of Light \<Rightarrow> ''light'' | Dark \<Rightarrow> ''dark'')"

definition readHistoryOrder :: "string option \<Rightarrow> HistoryOrder" where
  "readHistoryOrder v = (if v = Some ''desc'' then Desc else Asc)"

definition orderName :: "HistoryOrder \<Rightarrow> string" where
  "orderName order = (case order of Asc \<Rightarrow> ''asc'' | Desc \<Rightarrow> ''desc'')"

definition getTheme :: "BrowserStorage \<Rightarrow> Theme" where
  "getTheme st = readTheme (safeGet THEME_KEY st)"

definition setTheme :: "Theme \<Rightarrow> BrowserStorage \<Rightarrow> BrowserStorage" where
  "setTheme t = safeSet THEME_KEY (themeName t)"

definition getHistoryOrder :: "BrowserStorage \<Rightarrow> HistoryOrder" where
  "getHistoryOrder st = readHistoryOrder (safeGet HISTORY_ORDER_KEY st)"

definition setHistoryOrder :: "HistoryOrder \<Rightarrow> BrowserStorage \<Rightarrow> BrowserStorage" where
  "setHistoryOrder order = safeSet HISTORY_ORDER_KEY (orderName order)"

section \<open>Refreshing\<close>

definition DEFAULT_INTERVAL_MS :: int where "DEFAULT_INTERVAL_MS = 3000"
definition VALID_INTERVAL_MS :: "int list" where "VALID_INTERVAL_MS = [1000, 3000, 5000, 10000, 0]"
definition OFFLINE_FALLBACK_MS :: int where "OFFLINE_FALLBACK_MS = 30000"

text \<open>\<open>parseInt(s, 10)\<close>: a sign and the digits at the start of the text, \<open>None\<close> for \<open>NaN\<close>.\<close>

definition parseInt :: "string \<Rightarrow> int option" where
  "parseInt s =
     (let t = trimStart s;
          (sign, u) = (case t of c # r \<Rightarrow> if c = CHR ''-'' then (-1, r) else if c = CHR ''+'' then (1, r) else (1, t) | [] \<Rightarrow> (1, t));
          ds = takeWhile isDigit u
      in if ds = [] then None else Some (sign * int (readNat ds)))"

definition readIntervalMs :: "string option \<Rightarrow> int" where
  "readIntervalMs raw = (case raw of
      None \<Rightarrow> DEFAULT_INTERVAL_MS
    | Some s \<Rightarrow> (case parseInt s of
          Some n \<Rightarrow> if n \<in> set VALID_INTERVAL_MS then n else DEFAULT_INTERVAL_MS
        | None \<Rightarrow> DEFAULT_INTERVAL_MS))"

definition readPaused :: "string option \<Rightarrow> bool" where
  "readPaused raw \<longleftrightarrow> raw = Some ''true''"

definition boolText :: "bool \<Rightarrow> string" where
  "boolText b = (if b then ''true'' else ''false'')"

text \<open>The provider: its two values and the storage they are written through to.\<close>

record Refresh =
  rf_intervalMs :: int
  rf_paused :: bool
  rf_storage :: BrowserStorage

definition mountRefresh :: "BrowserStorage \<Rightarrow> Refresh" where
  "mountRefresh st =
     \<lparr>rf_intervalMs = readIntervalMs (safeGet REFRESH_MS_KEY st), rf_paused = readPaused (safeGet REFRESH_PAUSED_KEY st), rf_storage = st\<rparr>"

definition setRefreshInterval :: "int \<Rightarrow> Refresh \<Rightarrow> Refresh" where
  "setRefreshInterval ms r = r\<lparr>rf_storage := safeSet REFRESH_MS_KEY (showInt ms) (rf_storage r), rf_intervalMs := ms\<rparr>"

definition setPaused :: "bool \<Rightarrow> Refresh \<Rightarrow> Refresh" where
  "setPaused v r = r\<lparr>rf_storage := safeSet REFRESH_PAUSED_KEY (boolText v) (rf_storage r), rf_paused := v\<rparr>"

text \<open>\<open>None\<close> is \<open>false\<close>: no polling.\<close>

definition refetchMs :: "Refresh \<Rightarrow> int option" where
  "refetchMs r = (if rf_paused r \<or> rf_intervalMs r = 0 then None else Some (rf_intervalMs r))"

definition refetchMsAtLeast :: "Refresh \<Rightarrow> int \<Rightarrow> int option" where
  "refetchMsAtLeast r floorMs = map_option (\<lambda>ms. max ms floorMs) (refetchMs r)"

definition healthPollMs :: "Refresh \<Rightarrow> int" where
  "healthPollMs r = (case refetchMs r of Some ms \<Rightarrow> ms | None \<Rightarrow> OFFLINE_FALLBACK_MS)"

section \<open>Keys\<close>

definition MODIFIERS :: "string list" where
  "MODIFIERS = [''Shift'', ''Control'', ''Alt'', ''Meta'']"

definition KONAMI :: "string list" where
  "KONAMI = [''arrowup'', ''arrowup'', ''arrowdown'', ''arrowdown'', ''arrowleft'', ''arrowright'', ''arrowleft'', ''arrowright'',
     ''b'', ''a'']"

record KeyEvent =
  ke_key :: string
  ke_repeat :: bool
  ke_editable :: bool

definition counts :: "KeyEvent \<Rightarrow> bool" where
  "counts e \<longleftrightarrow> \<not> (ke_repeat e \<or> ke_key e \<in> set MODIFIERS \<or> ke_editable e)"

text \<open>\<open>xs.slice(-n)\<close>.\<close>

definition lastN :: "nat \<Rightarrow> 'a list \<Rightarrow> 'a list" where
  "lastN n xs = drop (length xs - n) xs"

text \<open>The handler: the recent keys, and how often the code has been typed.\<close>

definition onKeyDown :: "string list \<times> nat \<Rightarrow> KeyEvent \<Rightarrow> string list \<times> nat" where
  "onKeyDown st e =
     (case st of (recent, matched) \<Rightarrow>
      if \<not> counts e then st
      else
        let recent = lastN (length KONAMI) (recent @ [toLowerCase (ke_key e)]) in
        if recent = KONAMI then ([], matched + 1) else (recent, matched))"

definition keyToCommand :: "string \<Rightarrow> bool \<Rightarrow> bool \<Rightarrow> Command option" where
  "keyToCommand rawKey isRepeat down =
     (let key = (if length rawKey = 1 then toLowerCase rawKey else rawKey) in
      if \<not> down then
        (if key = ''ArrowDown'' \<or> key = ''s'' then Some (Press SlideEnd)
         else if key = '' '' \<or> key = ''ArrowUp'' \<or> key = ''w'' then Some (Press JumpEnd)
         else None)
      else if isRepeat then None
      else if key = '' '' \<or> key = ''ArrowUp'' \<or> key = ''w'' then Some (Press Jump)
      else if key = ''ArrowDown'' \<or> key = ''s'' then Some (Press SlideStart)
      else if key = ''Enter'' then Some ConfirmCmd
      else if key = ''Escape'' then Some CancelCmd
      else if key = ''p'' then Some PauseCmd
      else None)"

section \<open>Health of applications\<close>

datatype HealthStatus = Healthy | Starting | Unhealthy | UnknownHealth
datatype ProcStatus = RunningProc | StoppedProc

record HealthFields =
  hf_health :: HealthStatus
  hf_appStatus :: "ProcStatus option"
  hf_daprdStatus :: "ProcStatus option"
  hf_sidecarOrphaned :: bool

definition healthName :: "HealthStatus \<Rightarrow> string" where
  "healthName h = (case h of Healthy \<Rightarrow> ''healthy'' | Starting \<Rightarrow> ''starting'' | Unhealthy \<Rightarrow> ''unhealthy'' | UnknownHealth \<Rightarrow> ''unknown'')"

definition ledClass :: "HealthStatus \<Rightarrow> string" where
  "ledClass h = (case h of Healthy \<Rightarrow> ''ok'' | Starting \<Rightarrow> ''warn'' | Unhealthy \<Rightarrow> ''bad'' | UnknownHealth \<Rightarrow> ''warn'')"

definition isStopped :: "HealthFields \<Rightarrow> bool" where
  "isStopped app \<longleftrightarrow> hf_appStatus app = Some StoppedProc \<and> hf_daprdStatus app = Some StoppedProc"

text \<open>The label and the light; the hints are texts only.\<close>

definition appDisplayState :: "HealthFields \<Rightarrow> string \<times> string" where
  "appDisplayState app =
     (if hf_appStatus app = Some StoppedProc \<and> hf_daprdStatus app = Some StoppedProc then (''stopped'', ''off'')
      else if hf_sidecarOrphaned app then (''orphaned'', ''warn'')
      else if hf_health app = Healthy \<and> hf_appStatus app = Some StoppedProc then (''app down'', ''warn'')
      else (healthName (hf_health app), ledClass (hf_health app)))"

record AppStats =
  as_running :: nat
  as_healthy :: nat
  as_starting :: nat
  as_unhealthy :: nat
  as_inactive :: nat

definition appStats :: "HealthFields list \<Rightarrow> AppStats" where
  "appStats apps =
     (let labels = map (fst \<circ> appDisplayState) apps in
      \<lparr>as_running = length (filter (\<lambda>a. \<not> isStopped a) apps),
       as_healthy = length (filter (\<lambda>l. l = ''healthy'') labels),
       as_starting = length (filter (\<lambda>l. l = ''starting'') labels),
       as_unhealthy = length (filter (\<lambda>l. l = ''unhealthy'' \<or> l = ''app down'' \<or> l = ''orphaned'') labels),
       as_inactive = length (filter isStopped apps)\<rparr>)"

section \<open>What is set is read back\<close>

text \<open>
  A preference is a key with a writer and a reader that undoes it; the reader gives some value whatever
  the storage holds. Four settings of the shell are one.
\<close>

locale preference =
  fixes key :: string and name :: "'a \<Rightarrow> string" and read :: "string option \<Rightarrow> 'a" and offered :: "'a set"
  assumes read_name: "x \<in> offered \<Longrightarrow> read (Some (name x)) = x"
begin

definition current :: "BrowserStorage \<Rightarrow> 'a" where
  "current st = read (safeGet key st)"

lemma current_set:
  assumes "x \<in> offered" "\<not> bs_off st" "\<not> bs_full st"
  shows "current (safeSet key (name x) st) = x"
  using assms by (simp add: current_def safeGet_def safeSet_def read_name)

lemma current_other: "k \<noteq> key \<Longrightarrow> current (safeSet k v st) = current st"
  by (simp add: current_def safeGet_def safeSet_def)

lemma current_broken: "bs_off st \<or> bs_full st \<Longrightarrow> current (safeSet k v st) = current st"
  by (auto simp: safeSet_def)

end

lemma parseInt_showInt: "0 \<le> n \<Longrightarrow> parseInt (showInt n) = Some n"
proof -
  assume "0 \<le> n"
  then have s: "showInt n = showNat (nat n)" by (simp add: showInt_def)
  obtain c r where c: "showNat (nat n) = c # r" by (cases "showNat (nat n)") auto
  have "isDigit c" using showNat_isDigit[of c "nat n"] by (simp add: c)
  then have plain: "\<not> isSpace c" "c \<noteq> CHR ''-''" "c \<noteq> CHR ''+''" by (auto simp: isDigit_def isSpace_def)
  have ds: "takeWhile isDigit (c # r) = c # r" using showNat_isDigit[of _ "nat n"] unfolding c by (simp add: takeWhile_eq_all_conv)
  have "readNat (c # r) = nat n" using readNat_showNat[of "nat n"] by (simp add: c)
  then show ?thesis using plain ds \<open>0 \<le> n\<close> unfolding parseInt_def s c by (simp add: trimStart_def)
qed

interpretation theme_pref: preference THEME_KEY themeName readTheme UNIV
  by unfold_locales (simp add: readTheme_def themeName_def split: Theme.split)

interpretation order_pref: preference HISTORY_ORDER_KEY orderName readHistoryOrder UNIV
  by unfold_locales (simp add: readHistoryOrder_def orderName_def split: HistoryOrder.split)

interpretation paused_pref: preference REFRESH_PAUSED_KEY boolText readPaused UNIV
  by unfold_locales (simp add: readPaused_def boolText_def)

interpretation interval_pref: preference REFRESH_MS_KEY showInt readIntervalMs "set VALID_INTERVAL_MS"
proof
  fix ms assume ms: "ms \<in> set VALID_INTERVAL_MS"
  then have "0 \<le> ms" by (auto simp: VALID_INTERVAL_MS_def)
  then show "readIntervalMs (Some (showInt ms)) = ms" using ms by (simp add: readIntervalMs_def parseInt_showInt)
qed

text \<open>After any changes of interval and pause the provider shows what a reload would, while storage works.\<close>

lemma refresh_survives:
  assumes "ms \<in> set VALID_INTERVAL_MS" "\<not> bs_off (rf_storage r)" "\<not> bs_full (rf_storage r)"
    and r'_def: "r' = setPaused v (setRefreshInterval ms r)"
  shows "rf_intervalMs (mountRefresh (rf_storage r')) = rf_intervalMs r'" "rf_paused (mountRefresh (rf_storage r')) = rf_paused r'"
proof -
  have keys: "REFRESH_PAUSED_KEY \<noteq> REFRESH_MS_KEY" by (simp add: REFRESH_PAUSED_KEY_def REFRESH_MS_KEY_def)
  note pref = interval_pref.current_set[OF assms(1-3)] interval_pref.current_other[OF keys]
  show "rf_intervalMs (mountRefresh (rf_storage r')) = rf_intervalMs r'"
    using pref by (simp add: r'_def mountRefresh_def setPaused_def setRefreshInterval_def interval_pref.current_def)
  have "\<not> bs_off (rf_storage (setRefreshInterval ms r))" "\<not> bs_full (rf_storage (setRefreshInterval ms r))"
    using assms(2,3) by (simp_all add: setRefreshInterval_def safeSet_def)
  from paused_pref.current_set[OF UNIV_I this, of v] show "rf_paused (mountRefresh (rf_storage r')) = rf_paused r'"
    by (simp add: r'_def mountRefresh_def setPaused_def paused_pref.current_def)
qed

text \<open>Whatever the storage holds, the interval is one the picker offers, and the health check never stops.\<close>

lemma interval_offered: "rf_intervalMs (mountRefresh st) \<in> set VALID_INTERVAL_MS"
  by (auto simp: mountRefresh_def readIntervalMs_def DEFAULT_INTERVAL_MS_def VALID_INTERVAL_MS_def split: option.split)

lemma health_polled: "rf_intervalMs r \<in> set VALID_INTERVAL_MS \<Longrightarrow> 1000 \<le> healthPollMs r"
  by (auto simp: healthPollMs_def refetchMs_def OFFLINE_FALLBACK_MS_def VALID_INTERVAL_MS_def)

section \<open>The code is recognised\<close>

lemma lastN_append: "lastN n (lastN n xs @ ys) = lastN n (xs @ ys)"
proof (cases "length xs \<le> n")
  case False
  then show ?thesis by (cases "n \<le> length ys") (auto simp: lastN_def add.commute)
qed (simp add: lastN_def)

lemma onKeyDown_plain:
  assumes "counts e" "toLowerCase (ke_key e) \<noteq> last KONAMI"
  shows "onKeyDown (recent, n) e = (lastN (length KONAMI) (recent @ [toLowerCase (ke_key e)]), n)"
proof -
  have "0 < length KONAMI" by (simp add: KONAMI_def)
  then have "last (lastN (length KONAMI) (recent @ [toLowerCase (ke_key e)])) = toLowerCase (ke_key e)"
    unfolding lastN_def by (subst last_drop) auto
  then have "lastN (length KONAMI) (recent @ [toLowerCase (ke_key e)]) \<noteq> KONAMI" using assms(2) by metis
  then show ?thesis using assms(1) by (simp add: onKeyDown_def)
qed

lemma onKeyDown_run:
  assumes "\<forall>e \<in> set es. counts e \<and> toLowerCase (ke_key e) \<noteq> last KONAMI"
  shows "foldl onKeyDown (lastN (length KONAMI) recent, n) es = (lastN (length KONAMI) (recent @ map (\<lambda>e. toLowerCase (ke_key e)) es), n)"
  using assms
proof (induction es arbitrary: recent)
  case (Cons e es)
  then have "foldl onKeyDown (lastN (length KONAMI) recent, n) (e # es) =
      foldl onKeyDown (lastN (length KONAMI) (recent @ [toLowerCase (ke_key e)]), n) es"
    by (simp add: onKeyDown_plain lastN_append)
  also have "\<dots> = (lastN (length KONAMI) ((recent @ [toLowerCase (ke_key e)]) @ map (\<lambda>e. toLowerCase (ke_key e)) es), n)"
    using Cons.prems by (intro Cons.IH) simp
  finally show ?case by simp
qed simp

text \<open>Whatever was typed before, typing the code in full calls the handler once, and forgets what was typed.\<close>

lemma konami_fires:
  assumes "\<forall>e \<in> set es. counts e" "map (\<lambda>e. toLowerCase (ke_key e)) es = KONAMI"
  shows "foldl onKeyDown (lastN (length KONAMI) recent, n) es = ([], n + 1)"
proof -
  obtain fs f where es: "es = fs @ [f]" using assms(2) by (cases es rule: rev_cases) (auto simp: KONAMI_def)
  have keys: "map (\<lambda>e. toLowerCase (ke_key e)) fs = butlast KONAMI" "toLowerCase (ke_key f) = last KONAMI"
    using assms(2) by (auto simp: es simp flip: assms(2))
  have "last KONAMI \<notin> set (butlast KONAMI)" by (simp add: KONAMI_def)
  then have "\<forall>e \<in> set fs. counts e \<and> toLowerCase (ke_key e) \<noteq> last KONAMI"
    using assms(1) unfolding keys(1)[symmetric] by (force simp: es)
  note run = onKeyDown_run[OF this, of recent n]
  have "lastN (length KONAMI) ((recent @ butlast KONAMI) @ [last KONAMI]) = KONAMI" by (simp add: lastN_def KONAMI_def)
  then have "onKeyDown (lastN (length KONAMI) (recent @ butlast KONAMI), n) f = ([], n + 1)"
    using assms(1) by (simp add: onKeyDown_def es keys(2) lastN_append)
  then show ?thesis using run by (simp add: es keys(1))
qed

section \<open>The cards agree with the rows\<close>

lemma stats_agree:
  assumes "\<forall>a \<in> set apps. hf_health a \<noteq> UnknownHealth"
  shows "as_healthy (appStats apps) + as_starting (appStats apps) + as_unhealthy (appStats apps) = as_running (appStats apps) \<and>
    as_running (appStats apps) + as_inactive (appStats apps) = length apps"
  using assms
proof (induction apps)
  case (Cons a apps)
  then show ?case
    by (cases "hf_health a") (auto simp: appStats_def appDisplayState_def isStopped_def healthName_def Let_def)
qed (simp add: appStats_def)

end
