(* ===== verification/FrameLoop.thy ===== *)
theory FrameLoop
  imports EngineStep
begin

text \<open>
  The animation loop of the game (\<open>runtime/loop.ts\<close>), the state drawn between two ticks
  (\<open>render/interpolate.ts\<close>) and the stretch of the hat (\<open>render/pose.ts\<close>). The variables that
  \<open>startLoop\<close> closes over are the record \<open>Loop\<close>; the frame the browser has been asked for is one of its
  fields, so that \<open>raf\<close> and \<open>caf\<close> have their effect in the model. Times are doubles.

  The lemmas show that, whatever the gaps between frames, the accumulator stays between nothing and
  one tick in spite of the rounding of every operation, so that a frame simulates at most five ticks
  and is drawn strictly before the next one.
\<close>

section \<open>The fixed-timestep loop\<close>

abbreviation MAX_TICKS_PER_FRAME :: int where "MAX_TICKS_PER_FRAME \<equiv> 5"

definition TICK_MS :: rat where
  "TICK_MS = fdiv 1000 (of_int TICK_HZ)"

record Loop =
  lp_last :: "rat option"
  lp_acc :: rat
  lp_stopped :: bool
  lp_requested :: bool

definition startLoop :: Loop where
  "startLoop = \<lparr>lp_last = None, lp_acc = 0, lp_stopped = False, lp_requested = True\<rparr>"

text \<open>The arguments of \<open>onFrame\<close>, if it is called; \<open>ends\<close> says whether the callback stops the loop itself.\<close>

definition loopFrame :: "bool \<Rightarrow> rat \<Rightarrow> Loop \<Rightarrow> (int \<times> rat) option \<times> Loop" where
  "loopFrame ends now l =
     (let l = l\<lparr>lp_requested := False\<rparr> in
      if lp_stopped l then (None, l)
      else
        let acc = fadd (lp_acc l) (case lp_last l of None \<Rightarrow> 0 | Some t \<Rightarrow> fsub now t);
            ticks = mathFloor (fdiv acc TICK_MS);
            acc = fsub acc (fmul (of_int ticks) TICK_MS);
            (ticks, acc) = (if ticks > MAX_TICKS_PER_FRAME then (MAX_TICKS_PER_FRAME, 0) else (ticks, acc));
            stopped = (lp_stopped l \<or> ends)
        in (Some (ticks, fdiv acc TICK_MS),
            \<lparr>lp_last = Some now, lp_acc = acc, lp_stopped = stopped, lp_requested = \<not> stopped\<rparr>))"

definition stopLoop :: "Loop \<Rightarrow> Loop" where
  "stopLoop l = l\<lparr>lp_stopped := True, lp_requested := False\<rparr>"

text \<open>The frames the browser delivers: each only while one has been asked for.\<close>

fun runLoop :: "rat list \<Rightarrow> Loop \<Rightarrow> (int \<times> rat) list \<times> Loop" where
  "runLoop [] l = ([], l)"
| "runLoop (now # nows) l =
     (if lp_requested l then
        case loopFrame False now l of
          (None, l) \<Rightarrow> runLoop nows l
        | (Some f, l) \<Rightarrow> (case runLoop nows l of (fs, l) \<Rightarrow> (f # fs, l))
      else ([], l))"

section \<open>Between two ticks\<close>

definition lerp :: "rat \<Rightarrow> rat \<Rightarrow> rat \<Rightarrow> rat" where
  "lerp a b t = fadd a (fmul (fsub b a) t)"

text \<open>\<open>before\<close>: the last entity of the previous tick with the identifier.\<close>

definition beforeEntity :: "Entity list \<Rightarrow> int \<Rightarrow> Entity option" where
  "beforeEntity es i = find (\<lambda>e. ent_id e = i) (rev es)"

definition blendEntity :: "Entity list \<Rightarrow> rat \<Rightarrow> Entity \<Rightarrow> Entity" where
  "blendEntity prev alpha e =
     (case beforeEntity prev (ent_id e) of
        None \<Rightarrow> e
      | Some p \<Rightarrow> e\<lparr>ent_x := lerp (ent_x p) (ent_x e) alpha\<rparr>)"

definition blend :: "GameState option \<Rightarrow> GameState \<Rightarrow> rat \<Rightarrow> GameState" where
  "blend prev cur alpha =
     (case prev of
        None \<Rightarrow> cur
      | Some p \<Rightarrow>
          if alpha \<le> 0 then cur
          else cur\<lparr>gs_scroll := lerp (gs_scroll p) (gs_scroll cur) alpha,
                    gs_player := (gs_player cur)\<lparr>pl_y := lerp (pl_y (gs_player p)) (pl_y (gs_player cur)) alpha\<rparr>,
                    gs_entities := map (blendEntity (gs_entities p) alpha) (gs_entities cur)\<rparr>)"

section \<open>The hat\<close>

record Pose =
  po_sx :: rat
  po_sy :: rat

definition NEUTRAL :: Pose where
  "NEUTRAL = \<lparr>po_sx = 1, po_sy = 1\<rparr>"

abbreviation LAND_FRAMES :: int where "LAND_FRAMES \<equiv> 8"

definition RISE_STRETCH :: rat where "RISE_STRETCH = rnd (35 / 100)"
definition FALL_STRETCH :: rat where "FALL_STRETCH = rnd (20 / 100)"
definition LAND_FOLD :: rat where "LAND_FOLD = rnd (35 / 100)"

record HatPose =
  hp_wasAirborne :: bool
  hp_landed :: int

definition newHatPose :: HatPose where
  "newHatPose = \<lparr>hp_wasAirborne = False, hp_landed = LAND_FRAMES\<rparr>"

definition stretch :: "rat \<Rightarrow> rat" where
  "stretch vy =
     (if vy < 0 then fadd 1 (min RISE_STRETCH (fmul (- vy) (rnd (4 / 100))))
      else fadd 1 (min FALL_STRETCH (fmul vy (rnd (25 / 1000)))))"

definition poseUpdate :: "Player \<Rightarrow> bool \<Rightarrow> HatPose \<Rightarrow> Pose \<times> HatPose" where
  "poseUpdate p reducedMotion h =
     (let airborne = pl_y p < GROUND_Y in
      if reducedMotion then (NEUTRAL, \<lparr>hp_wasAirborne = airborne, hp_landed = LAND_FRAMES\<rparr>)
      else if airborne then
        (\<lparr>po_sx = fdiv 1 (stretch (pl_vy p)), po_sy = stretch (pl_vy p)\<rparr>,
         \<lparr>hp_wasAirborne = True, hp_landed = LAND_FRAMES\<rparr>)
      else
        let h = (if hp_wasAirborne h then \<lparr>hp_wasAirborne = False, hp_landed = 0\<rparr> else h) in
        if hp_landed h < LAND_FRAMES then
          let t = fsub 1 (fdiv (of_int (hp_landed h)) (of_int LAND_FRAMES))
          in (\<lparr>po_sx = fadd 1 (fmul LAND_FOLD t), po_sy = fsub 1 (fmul LAND_FOLD t)\<rparr>,
              h\<lparr>hp_landed := hp_landed h + 1\<rparr>)
        else (NEUTRAL, h))"

section \<open>Doubles next to each other\<close>

text \<open>A double below \<open>m\<close> units of the last place of a significand with 53 bits is at most \<open>m - 1\<close> units.\<close>

lemma double_below:
  assumes x: "rnd x = x" "x < of_int m * 2 powi e" and m: "2 ^ 52 < m"
  shows "x \<le> of_int (m - 1) * 2 powi e"
proof (cases "x \<le> 2 powi (e + 52)")
  case True
  have "(2::rat) powi (e + 52) = of_int (2 ^ 52) * 2 powi e" by (simp add: power_int_add)
  also have "\<dots> \<le> of_int (m - 1) * 2 powi e"
  proof (rule mult_right_mono)
    show "of_int (2 ^ 52) \<le> (of_int (m - 1) :: rat)" using m by (subst of_int_le_iff) linarith
  qed simp
  finally show ?thesis using True by linarith
next
  case False
  then have big: "2 powi (e + 52) < x" by simp
  then have pos: "0 < x" using zero_less_power_int[of "2::rat" "e + 52"] by linarith
  have "e + 52 \<le> ilog2 x"
  proof (rule ccontr)
    assume "\<not> ?thesis"
    then have "(2::rat) powi (ilog2 x + 1) \<le> 2 powi (e + 52)" by (intro powi2_mono) simp
    with ilog2_bounds(2)[OF pos] big show False by linarith
  qed
  then obtain j where j: "ilog2 x - 52 = e + int j" by (metis add.commute le_diff_eq zle_iff_zadd)
  define k where "k = roundHalfEven (x / ulp x) * 2 ^ j"
  have "x = of_int (roundHalfEven (x / ulp x)) * ulp x" using rnd_ulp[of x] pos x(1) by simp
  also have "\<dots> = of_int k * 2 powi e" using pos by (simp add: ulp_def j k_def power_int_add)
  finally have xk: "x = of_int k * 2 powi e" .
  then have "of_int k < (of_int m :: rat)" using x(2) by simp
  then have "k \<le> m - 1" by simp
  then have "of_int k \<le> (of_int (m - 1) :: rat)" by (simp only: of_int_le_iff)
  then show ?thesis unfolding xk by (rule mult_right_mono) simp
qed

section \<open>The ends of the first six ticks\<close>

text \<open>
  The end of tick \<open>k\<close> as the loop computes it, \<open>k * TICK_MS\<close>, is a significand of 53 bits times a power
  of two; the two functions give both, and the lemmas check by evaluation that dividing such an end by
  \<open>TICK_MS\<close> gives back at least \<open>k\<close>, and dividing the double before it less than \<open>k\<close>.
\<close>

definition endSignificand :: "int \<Rightarrow> int" where
  "endSignificand k =
     (if k = 3 \<or> k = 6 then 7036874417766400 else if k = 5 then 5864062014805334 else 4691249611844267)"

definition endExponent :: "int \<Rightarrow> nat" where
  "endExponent k = (if k = 1 then 48 else if k \<le> 3 then 47 else 46)"

definition beforeEnd :: "int \<Rightarrow> rat" where
  "beforeEnd k = of_int (endSignificand k - 1) / 2 ^ endExponent k"

definition tickEnd :: "int \<Rightarrow> rat" where
  "tickEnd k = fmul (of_int k) TICK_MS"

lemma one_to_six: "1 \<le> k \<Longrightarrow> k \<le> 6 \<Longrightarrow> k \<in> set [1, 2, 3, 4, 5, 6 :: int]"
  by auto

lemma tickEnds:
  "\<forall>k \<in> set [1, 2, 3, 4, 5, 6 :: int].
     tickEnd k = of_int (endSignificand k) / 2 ^ endExponent k \<and> of_int k \<le> fdiv (tickEnd k) TICK_MS \<and>
     fdiv (beforeEnd k) TICK_MS < of_int k \<and> fdiv (fsub (beforeEnd k) (tickEnd (k - 1))) TICK_MS < 1"
  by code_simp

lemma TICK_MS_pos: "0 < TICK_MS"
  by code_simp

lemma fdiv_tick_mono: "x \<le> y \<Longrightarrow> fdiv x TICK_MS \<le> fdiv y TICK_MS"
  unfolding fdiv_def using TICK_MS_pos by (intro rnd_mono divide_right_mono) auto

lemma double_before_end:
  assumes "rnd x = x" "x < tickEnd k" "1 \<le> k" "k \<le> 6"
  shows "x \<le> beforeEnd k"
proof -
  have e: "tickEnd k = of_int (endSignificand k) * 2 powi (- int (endExponent k))"
    using tickEnds one_to_six[OF assms(3,4)] by (auto simp: power_int_minus divide_inverse)
  have "2 ^ 52 < endSignificand k" by (simp add: endSignificand_def)
  with assms(2) have "x \<le> of_int (endSignificand k - 1) * 2 powi (- int (endExponent k))"
    unfolding e by (intro double_below[OF assms(1)])
  then show ?thesis by (simp add: beforeEnd_def power_int_minus divide_inverse)
qed

text \<open>What a frame leaves of the accumulator when it is not capped.\<close>

lemma leftover_bounds:
  assumes x: "rnd x = x" "0 \<le> x" and n: "mathFloor (fdiv x TICK_MS) = n" "n \<le> MAX_TICKS_PER_FRAME"
  shows "0 \<le> n" "0 \<le> fsub x (tickEnd n)" "fdiv (fsub x (tickEnd n)) TICK_MS < 1"
proof -
  have lo: "of_int n \<le> fdiv x TICK_MS" and hi: "fdiv x TICK_MS < of_int (n + 1)"
    using n(1) unfolding mathFloor_def by linarith+
  have "0 \<le> fdiv x TICK_MS" using x(2) TICK_MS_pos by (simp add: fdiv_nonneg)
  then show n0: "0 \<le> n" using n(1) unfolding mathFloor_def by auto
  have "tickEnd n \<le> x"
  proof (cases "n = 0")
    case True
    then show ?thesis using x(2) by (simp add: tickEnd_def fmul_def)
  next
    case False
    then have k: "1 \<le> n" "n \<le> 6" using n0 n(2) by auto
    show ?thesis
    proof (rule ccontr)
      assume "\<not> ?thesis"
      then have "x \<le> beforeEnd n" using double_before_end[OF x(1) _ k] by simp
      then have "fdiv x TICK_MS \<le> fdiv (beforeEnd n) TICK_MS" by (rule fdiv_tick_mono)
      with lo tickEnds one_to_six[OF k] show False by fastforce
    qed
  qed
  then show "0 \<le> fsub x (tickEnd n)" by (simp add: fsub_def rnd_nonneg)
  have k: "1 \<le> n + 1" "n + 1 \<le> 6" using n0 n(2) by auto
  have "x < tickEnd (n + 1)"
  proof (rule ccontr)
    assume "\<not> ?thesis"
    then have "fdiv (tickEnd (n + 1)) TICK_MS \<le> fdiv x TICK_MS" by (intro fdiv_tick_mono) simp
    with hi tickEnds one_to_six[OF k] show False by fastforce
  qed
  then have "x \<le> beforeEnd (n + 1)" by (rule double_before_end[OF x(1) _ k])
  then have "fsub x (tickEnd n) \<le> fsub (beforeEnd (n + 1)) (tickEnd n)"
    unfolding fsub_def by (intro rnd_mono) simp
  then have "fdiv (fsub x (tickEnd n)) TICK_MS \<le> fdiv (fsub (beforeEnd (n + 1)) (tickEnd (n + 1 - 1))) TICK_MS"
    by (intro fdiv_tick_mono) simp
  with tickEnds one_to_six[OF k] show "fdiv (fsub x (tickEnd n)) TICK_MS < 1" by fastforce
qed

section \<open>Frames\<close>

text \<open>The times of the frames still to come are not before the last one.\<close>

definition loopOk :: "rat list \<Rightarrow> Loop \<Rightarrow> bool" where
  "loopOk nows l \<longleftrightarrow> 0 \<le> lp_acc l \<and> fdiv (lp_acc l) TICK_MS < 1 \<and> sorted nows \<and>
     (case lp_last l of None \<Rightarrow> True | Some t \<Rightarrow> \<forall>now \<in> set nows. t \<le> now)"

definition frameOk :: "int \<times> rat \<Rightarrow> bool" where
  "frameOk f \<longleftrightarrow> 0 \<le> fst f \<and> fst f \<le> MAX_TICKS_PER_FRAME \<and> 0 \<le> snd f \<and> snd f < 1"

lemma loopOk_start: "sorted nows \<Longrightarrow> loopOk nows startLoop"
  by (simp add: loopOk_def startLoop_def fdiv_def)

lemma loopFrame_ok:
  assumes ok: "loopOk (now # nows) l" and run: "\<not> lp_stopped l"
  obtains f l' where "loopFrame ends now l = (Some f, l')" "frameOk f" "loopOk nows l'"
    "lp_stopped l' = ends" "lp_requested l' = (\<not> ends)" "lp_last l' = Some now"
proof -
  define x where "x = fadd (lp_acc l) (case lp_last l of None \<Rightarrow> 0 | Some t \<Rightarrow> fsub now t)"
  define n where "n = mathFloor (fdiv x TICK_MS)"
  have "0 \<le> (case lp_last l of None \<Rightarrow> 0 | Some t \<Rightarrow> fsub now t)"
    using ok by (simp add: loopOk_def fsub_def rnd_nonneg split: option.splits)
  then have x: "rnd x = x" "0 \<le> x" using ok by (simp_all add: x_def loopOk_def fadd_nonneg) (simp add: fadd_def)
  have nows: "sorted nows" "\<forall>t \<in> set nows. now \<le> t" using ok by (simp_all add: loopOk_def)
  have T: "0 \<le> TICK_MS" "fdiv 0 TICK_MS = 0" using TICK_MS_pos by (simp_all add: fdiv_def)
  show thesis
  proof (cases "n > MAX_TICKS_PER_FRAME")
    case True
    show thesis
      by (rule that[of "(5, 0)" "\<lparr>lp_last = Some now, lp_acc = 0, lp_stopped = ends, lp_requested = \<not> ends\<rparr>"])
        (use True run nows T in \<open>simp_all add: loopFrame_def Let_def x_def[symmetric] n_def[symmetric] frameOk_def loopOk_def\<close>)
  next
    case False
    then have b: "0 \<le> n" "0 \<le> fsub x (tickEnd n)" "fdiv (fsub x (tickEnd n)) TICK_MS < 1"
      using leftover_bounds[OF x n_def[symmetric]] by simp_all
    show thesis
      by (rule that[of "(n, fdiv (fsub x (tickEnd n)) TICK_MS)"
            "\<lparr>lp_last = Some now, lp_acc = fsub x (tickEnd n), lp_stopped = ends, lp_requested = \<not> ends\<rparr>"])
        (use False run nows T b in \<open>simp_all add: loopFrame_def Let_def x_def[symmetric] n_def[symmetric]
           tickEnd_def[symmetric] frameOk_def loopOk_def fdiv_nonneg\<close>)
  qed
qed

lemma runLoop_ok:
  "loopOk nows l \<Longrightarrow> lp_requested l \<Longrightarrow> \<not> lp_stopped l \<Longrightarrow>
   (\<forall>f \<in> set (fst (runLoop nows l)). frameOk f) \<and> length (fst (runLoop nows l)) = length nows \<and>
   lp_requested (snd (runLoop nows l)) \<and> \<not> lp_stopped (snd (runLoop nows l))"
proof (induction nows arbitrary: l)
  case (Cons now nows)
  obtain f l' where f: "loopFrame False now l = (Some f, l')" "frameOk f" "loopOk nows l'"
    "\<not> lp_stopped l'" "lp_requested l'"
    using loopFrame_ok[OF Cons.prems(1,3), of False] by metis
  from Cons.IH[OF f(3,5,4)] Cons.prems(2) f(1,2) show ?case by (auto split: prod.splits)
qed simp

text \<open>
  C18. Frames at any times that do not go backwards are each given to the game, and each simulates between
  none and five ticks; the fraction of a tick it is drawn at is not negative and strictly below one,
  although the accumulator, the product and the quotient are all rounded.
\<close>

theorem frame_bounds:
  assumes "sorted nows"
  shows "length (fst (runLoop nows startLoop)) = length nows \<and>
    (\<forall>(ticks, alpha) \<in> set (fst (runLoop nows startLoop)).
       0 \<le> ticks \<and> ticks \<le> MAX_TICKS_PER_FRAME \<and> 0 \<le> alpha \<and> alpha < 1)"
proof -
  have "(\<forall>f \<in> set (fst (runLoop nows startLoop)). frameOk f) \<and> length (fst (runLoop nows startLoop)) = length nows"
    using runLoop_ok[OF loopOk_start[OF assms]] by (simp add: startLoop_def)
  then show ?thesis by (auto simp: frameOk_def)
qed

theorem frame_bounds_witness:
  "sorted [0, 16, 33, 50, 1000 :: rat] \<and>
   list_all (\<lambda>(ticks, alpha). 0 \<le> ticks \<and> ticks \<le> MAX_TICKS_PER_FRAME \<and> 0 \<le> alpha \<and> alpha < 1)
     (fst (runLoop [0, 16, 33, 50, 1000] startLoop))"
  using frame_bounds[of "[0, 16, 33, 50, 1000]"] by (simp add: list_all_iff)

text \<open>A stopped loop calls nothing and asks for nothing, whatever the browser still delivers.\<close>

lemma stopped_silent: "runLoop nows (stopLoop l) = ([], stopLoop l)"
  by (cases nows) (simp_all add: stopLoop_def)

lemma stopped_frame: "fst (loopFrame ends now (stopLoop l)) = None"
  by (simp add: loopFrame_def stopLoop_def)

section \<open>What is drawn\<close>

text \<open>Interpolating moves positions only: identity, kind and size of every entity are the current tick's.\<close>

lemma blendEntity_same:
  "ent_id (blendEntity prev a e) = ent_id e" "ent_kind (blendEntity prev a e) = ent_kind e"
  "ent_y (blendEntity prev a e) = ent_y e" "ent_taken (blendEntity prev a e) = ent_taken e"
  by (simp_all add: blendEntity_def split: option.splits)

lemma lerp_start: "rnd a = a \<Longrightarrow> lerp a b 0 = a"
  by (simp add: lerp_def fmul_def fadd_def)

text \<open>The fold of a landing ends: after eight frames on the ground the hat is neutral again.\<close>

lemma pose_neutral:
  "\<not> pl_y p < GROUND_Y \<Longrightarrow> \<not> hp_wasAirborne h \<Longrightarrow> LAND_FRAMES \<le> hp_landed h \<Longrightarrow>
   poseUpdate p rm h = (NEUTRAL, h\<lparr>hp_wasAirborne := False, hp_landed := if rm then LAND_FRAMES else hp_landed h\<rparr>)"
  by (cases h) (simp add: poseUpdate_def Let_def)

lemma pose_reduced: "fst (poseUpdate p True h) = NEUTRAL"
  by (simp add: poseUpdate_def Let_def)

end
