(* ===== verification/GamePage.thy ===== *)
theory GamePage
  imports GameTheorems RunCode Settings WorkflowDetail FrameLoop
begin

text \<open>
  The page of the game: the history panel (\<open>HistoryPanel.tsx\<close>) and the component that owns the game
  (\<open>Replay.tsx\<close>). Its React state and refs are the record \<open>Page\<close>, and what reaches it from outside, keys,
  frames, clicks, the browser hiding the page and the promises of the codec settling, are the events
  of \<open>replayPageStep\<close>. Promises settle in any order: each outstanding call is an entry of a list, and an event
  names the entry. After an event React renders and runs the effect on the kind of the phase, as
  \<open>useSyncExternalStore\<close> has it for every change of the game's version; the kind it last ran for is kept,
  so that it runs for a change only. Focus, telemetry and drawing are left out.

  The lemmas show that the card of a finished run shows the execution ID of that run only.
\<close>

section \<open>The history panel\<close>

abbreviation SHOWN :: nat where "SHOWN \<equiv> 60"

fun NODE :: "HistoryEvent \<Rightarrow> string" where
  "NODE (Input _ _) = ''n-sched''"
| "NODE (OrchestratorStarted _) = ''n-sched''"
| "NODE (RetryAttempt _ _ _) = ''n-sched''"
| "NODE (CircuitBreakerTripped _ _ _) = ''n-done''"
| "NODE (BoostLost _ _ _) = ''n-fail''"
| "NODE (FanOut _ _) = ''n-sched''"
| "NODE (FanIn _ _ _) = ''n-sched''"
| "NODE (ActivityCoinCollected _ _ _) = ''n-done''"
| "NODE (ActivityCrateCollected _ _ _ _) = ''n-done''"
| "NODE (OrbTaken _ _ _) = ''n-fail''"

text \<open>The type and the detail of a row; the middle dot and the multiplication sign are code units 0xB7 and 0xD7.\<close>

fun describeEvent :: "HistoryEvent \<Rightarrow> string \<times> string" where
  "describeEvent (Input _ k) = (''Input'', playerInputName k)"
| "describeEvent (OrchestratorStarted _) = (''OrchestratorStarted'', ''replay resumed '' @ [CHR 0xB7] @ '' 1 s grace'')"
| "describeEvent (RetryAttempt _ a f) =
     (''RetryAttempt'', ''attempt '' @ showInt a @ '' '' @ [CHR 0xB7] @ '' failed at t'' @ showInt f)"
| "describeEvent (CircuitBreakerTripped _ i _) =
     (''CircuitBreakerTripped'', if i = 0 then ''pit bridged'' else ''rack '' @ showInt i @ '' smashed'')"
| "describeEvent (BoostLost _ _ _) = (''BoostLost'', [CHR 0xD7] @ ''3 boost absorbed the hit'')"
| "describeEvent (FanOut _ _) = (''FanOut'', showNat FAN_LANES @ '' activities in parallel'')"
| "describeEvent (FanIn _ _ rs) = (''FanIn'', ''WhenAll '' @ [CHR 0xB7] @ '' coins '' @ joinWith '' / '' (map showInt rs))"
| "describeEvent (OrbTaken _ i _) =
     (''NonDeterministicCall'', ''orb '' @ showInt i @ '' '' @ [CHR 0xB7] @ '' value not recorded'')"
| "describeEvent (ActivityCoinCollected _ i _) = (''ActivityCoinCollected'', ''coin '' @ showInt i)"
| "describeEvent (ActivityCrateCollected _ i _ r) =
     (''ActivityCrateCollected'', ''crate '' @ showInt i @ '' '' @ [CHR 0xB7] @ '' result '' @ toFixed 3 r)"

definition historyRows :: "HistoryEvent list \<Rightarrow> (HistoryEvent \<times> nat) list" where
  "historyRows history =
     (let first = length history - SHOWN
      in rev (map (\<lambda>(e, i). (e, first + i)) (zip (drop first history) [0..<length history - first])))"

text \<open>The panel shows the newest sixty events, newest first, each with its place in the history.\<close>

lemma historyRows_events: "map fst (historyRows h) = take SHOWN (rev h)"
proof -
  have "map fst (historyRows h) = rev (drop (length h - SHOWN) h)"
    by (simp add: historyRows_def Let_def rev_map[symmetric] comp_def case_prod_beta)
  then show ?thesis by (simp add: take_rev)
qed

lemma historyRows_index: "(e, i) \<in> set (historyRows h) \<Longrightarrow> i < length h \<and> h ! i = e"
  by (auto simp: historyRows_def Let_def set_zip)

section \<open>The page\<close>

fun phaseKind :: "Phase \<Rightarrow> string" where
  "phaseKind TitlePhase = ''title''"
| "phaseKind (ResumePhase _) = ''resume''"
| "phaseKind (TipPhase _) = ''tip''"
| "phaseKind PlayingPhase = ''playing''"
| "phaseKind PausedPhase = ''paused''"
| "phaseKind (CrashingPhase _) = ''crashing''"
| "phaseKind ReplayingPhase = ''replaying''"
| "phaseKind (RewindingPhase _ _ _ _) = ''rewinding''"
| "phaseKind (MontagePhase _) = ''montage''"
| "phaseKind LostPhase = ''lost''"
| "phaseKind (OverPhase _) = ''over''"

text \<open>A call of \<open>replayFrom\<close> that waits for its decoder; one of the form on the title card reports failure.\<close>

datatype Decode = ReplayDecode string | WatchDecode string

record 'w Page =
  pg_game :: "'w Game"
  pg_executionId :: "string option"
  pg_executionIdError :: "string option"
  pg_idCopied :: bool
  pg_cardToken :: int
  pg_watchError :: "string option"
  pg_effectKind :: "string option"
  pg_encodes :: "(int \<times> Tape) list"
  pg_decodes :: "Decode list"
  pg_clipboard :: "string option"

definition withGame :: "('w Game \<Rightarrow> 'w Game) \<Rightarrow> 'w Page \<Rightarrow> 'w Page" where
  "withGame f p = p\<lparr>pg_game := f (pg_game p)\<rparr>"

text \<open>The effect of the card, with its dependency.\<close>

definition cardEffect :: "'w Page \<Rightarrow> 'w Page" where
  "cardEffect p =
     (let kind = phaseKind (g_phase (pg_game p)) in
      if pg_effectKind p = Some kind then p
      else
        let p = p\<lparr>pg_effectKind := Some kind\<rparr> in
        if kind \<noteq> ''over'' then
          p\<lparr>pg_cardToken := pg_cardToken p + 1, pg_executionId := None, pg_executionIdError := None, pg_idCopied := False\<rparr>
        else p\<lparr>pg_encodes := pg_encodes p @ [(pg_cardToken p, g_tape (pg_game p))]\<rparr>)"

definition mountReplay :: "'w GameDeps \<Rightarrow> GameStore \<Rightarrow> 'w \<Rightarrow> 'w Page" where
  "mountReplay d store w = cardEffect
     \<lparr>pg_game = newGame d store w, pg_executionId = None, pg_executionIdError = None, pg_idCopied = False,
      pg_cardToken = 0, pg_watchError = None, pg_effectKind = None, pg_encodes = [], pg_decodes = [], pg_clipboard = None\<rparr>"

definition TOO_LONG :: string where "TOO_LONG = ''This run is too long to share.''"
definition NO_CODE :: string where "NO_CODE = ''Couldn't create an execution ID.''"
definition NOT_VALID :: string where "NOT_VALID = ''That execution ID isn't valid.''"

text \<open>The two callbacks of \<open>shareableRunCode(game.tape).then\<close>.\<close>

definition encodeSettled :: "Platform \<Rightarrow> int \<times> Tape \<Rightarrow> 'w Page \<Rightarrow> 'w Page" where
  "encodeSettled pf call p =
     (if fst call \<noteq> pg_cardToken p then p
      else case shareableRunCode pf (snd call) of
             None \<Rightarrow> p\<lparr>pg_executionIdError := Some NO_CODE\<rparr>
           | Some None \<Rightarrow> p\<lparr>pg_executionIdError := Some TOO_LONG\<rparr>
           | Some (Some code) \<Rightarrow> p\<lparr>pg_executionId := Some code\<rparr>)"

definition onCopyExecutionId :: "'w Page \<Rightarrow> 'w Page" where
  "onCopyExecutionId p =
     (case pg_executionId p of
        None \<Rightarrow> p
      | Some code \<Rightarrow> if code = '''' then p else p\<lparr>pg_clipboard := Some code, pg_idCopied := True\<rparr>)"

text \<open>
  The rest of \<open>replayFrom\<close> when its decoder settles, then of the caller. \<open>asTape\<close> reads a JSON value that
  \<open>isTape\<close> has accepted at the type \<open>Tape\<close>.
\<close>

definition decodeSettled ::
  "'w GameDeps \<Rightarrow> Platform \<Rightarrow> (json \<Rightarrow> Tape) \<Rightarrow> Decode \<Rightarrow> 'w Page \<Rightarrow> 'w Page" where
  "decodeSettled d pf asTape call p =
     (let (code, form) = (case call of ReplayDecode code \<Rightarrow> (code, False) | WatchDecode code \<Rightarrow> (code, True));
          (done, game) = (case decodeRun pf code of None \<Rightarrow> (False, pg_game p) | Some data \<Rightarrow> watch d (asTape data) (pg_game p));
          p = p\<lparr>pg_game := game\<rparr>
      in if form then p\<lparr>pg_watchError := (if done then None else Some NOT_VALID)\<rparr> else p)"

definition onReplayRun :: "'w GameDeps \<Rightarrow> 'w Page \<Rightarrow> 'w Page" where
  "onReplayRun d p =
     (case pg_executionId p of
        Some code \<Rightarrow> if code = '''' then withGame (\<lambda>g. snd (watch d (g_tape g) g)) p
                     else p\<lparr>pg_decodes := pg_decodes p @ [ReplayDecode code]\<rparr>
      | None \<Rightarrow> withGame (\<lambda>g. snd (watch d (g_tape g) g)) p)"

definition onWatch :: "string \<Rightarrow> 'w Page \<Rightarrow> 'w Page" where
  "onWatch code p = p\<lparr>pg_decodes := pg_decodes p @ [WatchDecode code]\<rparr>"

record PageKey =
  pk_key :: string
  pk_repeat :: bool
  pk_modified :: bool
  pk_interactive :: bool

definition pageKeyDown :: "'w GameDeps \<Rightarrow> PageKey \<Rightarrow> 'w Page \<Rightarrow> 'w Page" where
  "pageKeyDown d k p =
     (if pk_modified k \<or> pk_interactive k then p
      else case keyToCommand (pk_key k) (pk_repeat k) True of
             None \<Rightarrow> p
           | Some c \<Rightarrow> withGame (command d c) p)"

definition pageKeyUp :: "'w GameDeps \<Rightarrow> PageKey \<Rightarrow> 'w Page \<Rightarrow> 'w Page" where
  "pageKeyUp d k p =
     (case keyToCommand (pk_key k) (pk_repeat k) False of
        None \<Rightarrow> p
      | Some c \<Rightarrow> withGame (command d c) p)"

datatype PageEvent =
    KeyDown PageKey
  | KeyUp PageKey
  | AnimationFrame nat
  | EncodeSettles nat
  | DecodeSettles nat
  | ClickCopy
  | ClickReplay
  | SubmitWatch string
  | ClickSpeed int
  | VisibilityChange bool
  | PageHidden
  | WindowBlur

definition removeAt :: "nat \<Rightarrow> 'a list \<Rightarrow> 'a list" where
  "removeAt i xs = take i xs @ drop (Suc i) xs"

text \<open>One event. \<open>None\<close>: a tick that does not end, or a promise that is not outstanding.\<close>

fun pageHandler :: "'w GameDeps \<Rightarrow> Platform \<Rightarrow> (json \<Rightarrow> Tape) \<Rightarrow> PageEvent \<Rightarrow> 'w Page \<Rightarrow> 'w Page option" where
  "pageHandler d pf asTape (KeyDown k) p = Some (pageKeyDown d k p)"
| "pageHandler d pf asTape (KeyUp k) p = Some (pageKeyUp d k p)"
| "pageHandler d pf asTape (AnimationFrame ticks) p =
     map_option (\<lambda>g. p\<lparr>pg_game := g\<rparr>) (Game.frame d ticks (pg_game p))"
| "pageHandler d pf asTape (EncodeSettles i) p =
     (if i < length (pg_encodes p)
      then Some (encodeSettled pf (pg_encodes p ! i) (p\<lparr>pg_encodes := removeAt i (pg_encodes p)\<rparr>)) else None)"
| "pageHandler d pf asTape (DecodeSettles i) p =
     (if i < length (pg_decodes p)
      then Some (decodeSettled d pf asTape (pg_decodes p ! i) (p\<lparr>pg_decodes := removeAt i (pg_decodes p)\<rparr>)) else None)"
| "pageHandler d pf asTape ClickCopy p = Some (onCopyExecutionId p)"
| "pageHandler d pf asTape ClickReplay p = Some (onReplayRun d p)"
| "pageHandler d pf asTape (SubmitWatch code) p = Some (onWatch code p)"
| "pageHandler d pf asTape (ClickSpeed speed) p = Some (withGame (setPlaybackSpeed speed) p)"
| "pageHandler d pf asTape (VisibilityChange hidden) p = Some (if hidden then withGame (suspend d) p else p)"
| "pageHandler d pf asTape PageHidden p = Some (withGame (saveGame d) p)"
| "pageHandler d pf asTape WindowBlur p = Some (withGame (suspend d) p)"

definition replayPageStep :: "'w GameDeps \<Rightarrow> Platform \<Rightarrow> (json \<Rightarrow> Tape) \<Rightarrow> PageEvent \<Rightarrow> 'w Page \<Rightarrow> 'w Page option" where
  "replayPageStep d pf asTape e p = map_option cardEffect (pageHandler d pf asTape e p)"

fun runPage :: "'w GameDeps \<Rightarrow> Platform \<Rightarrow> (json \<Rightarrow> Tape) \<Rightarrow> PageEvent list \<Rightarrow> 'w Page \<Rightarrow> 'w Page option" where
  "runPage d pf asTape [] p = Some p"
| "runPage d pf asTape (e # es) p = replayPageStep d pf asTape e p \<bind> runPage d pf asTape es"

section \<open>A finished run keeps its tape\<close>

lemma kind_over [simp]: "phaseKind ph = ''over'' \<longleftrightarrow> isOver ph"
  by (cases ph) (simp_all add: isOver_def)

lemma saveGame_still: "g_phase (saveGame d g) = g_phase g" "g_tape (saveGame d g) = g_tape g"
  by (simp_all add: saveGame_def Let_def)

lemma setPhase_phase: "g_phase (setPhase ph g) = ph"
  by (simp add: setPhase_def touch_def syncSlide_def Let_def)

lemma startRun_not_over: "\<not> isOver (g_phase (startRun d g))"
  by (simp add: startRun_def beginSegment_def Let_def saveGame_still setPhase_phase isOver_def)

lemma watch_over: "watch d tape g = (ok, g') \<Longrightarrow> isOver (g_phase g') \<Longrightarrow> g' = g"
  using startRun_not_over by (auto simp: watch_def split: if_splits)

lemma isOver_phase: "isOver ph \<Longrightarrow> \<exists>r. ph = OverPhase r"
  by (cases ph) (simp_all add: isOver_def)

lemma autoplay_over: "isOver (g_phase g) \<Longrightarrow> autoplay d g = g"
  by (drule isOver_phase, erule exE) (simp add: autoplay_def Let_def split: option.split)

lemma frameStep_over: "isOver (g_phase g) \<Longrightarrow> frameStep d n g = Some g"
  by (frule isOver_phase, erule exE) (simp add: frameStep_def autoplay_over)

lemma frame_over: "isOver (g_phase g) \<Longrightarrow> Game.frame d n g = Some g"
proof -
  assume over: "isOver (g_phase g)"
  have "frameSteps d k n g = Some g" for k
    by (induction k) (simp_all add: frameStep_over[OF over])
  then show ?thesis by (simp add: Game.frame_def)
qed

lemma newRun_not_over: "\<not> isOver (g_phase (newRun d g))"
  by (simp add: newRun_def Let_def startRun_not_over)

lemma phaseCommand_over:
  assumes "isOver (g_phase g)" "isOver (g_phase (phaseCommand d c g))"
  shows "phaseCommand d c g = g"
proof -
  obtain r where "g_phase g = OverPhase r" using isOver_phase[OF assms(1)] by blast
  then have "phaseCommand d c g = (if c = ConfirmCmd then newRun d g else g)" by (simp add: phaseCommand_def)
  then show ?thesis using assms(2) newRun_not_over[of d g] by (simp split: if_splits)
qed

lemma command_over:
  assumes "isOver (g_phase g)" "isOver (g_phase (command d c g))"
  shows "g_tape (command d c g) = g_tape g"
proof -
  define h where "h = (if c = Press SlideStart then g\<lparr>g_slideHeld := True\<rparr>
               else if c = Press SlideEnd then g\<lparr>g_slideHeld := False\<rparr> else g)"
  have h: "isOver (g_phase h)" "g_tape h = g_tape g" using assms(1) by (simp_all add: h_def)
  have "command d c g = newRun d h \<or> command d c g = setPhase TitlePhase (leavePlayback d h) \<or>
      command d c g = h \<or> command d c g = phaseCommand d c h"
    unfolding command_def h_def[symmetric] Let_def
    by (cases "g_playback h"; cases "c = ConfirmCmd \<and> isOver (g_phase h)";
        cases "c = CancelCmd \<and> g_phase h \<noteq> PausedPhase") (simp_all only: if_True if_False split: if_split, blast+)
  then show ?thesis
    using assms(2) h phaseCommand_over[OF h(1), of d c] newRun_not_over[of d h]
    by (elim disjE) (simp_all add: setPhase_phase isOver_def[of TitlePhase])
qed

section \<open>The card\<close>

text \<open>What the card of a finished run is to show: the execution ID of its tape, or why there is none.\<close>

definition cardOutcome :: "Platform \<Rightarrow> Tape \<Rightarrow> string option \<times> string option" where
  "cardOutcome pf tape =
     (case shareableRunCode pf tape of
        None \<Rightarrow> (None, Some NO_CODE)
      | Some None \<Rightarrow> (None, Some TOO_LONG)
      | Some (Some code) \<Rightarrow> (Some code, None))"

definition cardShown :: "'w Page \<Rightarrow> string option \<times> string option" where
  "cardShown p = (pg_executionId p, pg_executionIdError p)"

text \<open>The calls of the codec for the card that is on screen.\<close>

definition cardCalls :: "'w Page \<Rightarrow> (int \<times> Tape) list" where
  "cardCalls p = filter (\<lambda>c. fst c = pg_cardToken p) (pg_encodes p)"

definition cardInv :: "Platform \<Rightarrow> 'w Page \<Rightarrow> bool" where
  "cardInv pf p \<longleftrightarrow>
     pg_effectKind p = Some (phaseKind (g_phase (pg_game p))) \<and>
     (\<forall>c \<in> set (pg_encodes p). fst c \<le> pg_cardToken p) \<and>
     (if isOver (g_phase (pg_game p)) then
        (cardShown p = (None, None) \<and> cardCalls p = [(pg_cardToken p, g_tape (pg_game p))]) \<or>
        (cardShown p = cardOutcome pf (g_tape (pg_game p)) \<and> cardCalls p = [])
      else cardShown p = (None, None) \<and> cardCalls p = [])"

lemma cardEffect_inv:
  assumes "\<forall>c \<in> set (pg_encodes p). fst c \<le> pg_cardToken p" "pg_effectKind p \<noteq> Some (phaseKind (g_phase (pg_game p)))"
    "isOver (g_phase (pg_game p)) \<longrightarrow> cardShown p = (None, None) \<and> cardCalls p = []"
  shows "cardInv pf (cardEffect p)"
proof (cases "isOver (g_phase (pg_game p))")
  case True
  then show ?thesis using assms
    by (auto simp: cardEffect_def cardInv_def cardShown_def cardCalls_def Let_def)
next
  case False
  have "filter (\<lambda>c. fst c = pg_cardToken p + 1) (pg_encodes p) = []"
    using assms(1) by (auto simp: filter_empty_conv)
  moreover have "\<forall>c \<in> set (pg_encodes p). fst c \<le> pg_cardToken p + 1" using assms(1) by auto
  ultimately show ?thesis using False assms(2)
    by (simp add: cardEffect_def cardInv_def cardShown_def cardCalls_def Let_def)
qed

text \<open>An event that leaves what the card shows alone, and the tape of a finished run.\<close>

lemma cardInv_game:
  assumes inv: "cardInv pf p"
    and same: "pg_executionId p' = pg_executionId p" "pg_executionIdError p' = pg_executionIdError p"
      "pg_cardToken p' = pg_cardToken p" "pg_effectKind p' = pg_effectKind p" "pg_encodes p' = pg_encodes p"
    and tape: "isOver (g_phase (pg_game p)) \<Longrightarrow> isOver (g_phase (pg_game p')) \<Longrightarrow> g_tape (pg_game p') = g_tape (pg_game p)"
  shows "cardInv pf (cardEffect p')"
proof -
  let ?k = "phaseKind (g_phase (pg_game p))" and ?k' = "phaseKind (g_phase (pg_game p'))"
  have shown: "cardShown p' = cardShown p" "cardCalls p' = cardCalls p" by (simp_all add: cardShown_def cardCalls_def same)
  show ?thesis
  proof (cases "?k' = ?k")
    case True
    then have "isOver (g_phase (pg_game p')) = isOver (g_phase (pg_game p))" by (metis kind_over)
    moreover have "cardEffect p' = p'" using inv True by (simp add: cardEffect_def cardInv_def same)
    ultimately show ?thesis using inv tape True by (simp add: cardInv_def shown same split: if_splits)
  next
    case False
    then have "isOver (g_phase (pg_game p')) \<Longrightarrow> \<not> isOver (g_phase (pg_game p))" by (metis kind_over)
    then show ?thesis using inv False
      by (intro cardEffect_inv) (auto simp: cardInv_def shown same split: if_splits)
  qed
qed

lemma removeAt_parts:
  assumes "i < length xs"
  obtains a x b where "xs = a @ x # b" "removeAt i xs = a @ b" "xs ! i = x"
  using id_take_nth_drop[OF assms] by (metis removeAt_def)

lemma encodeSettled_inv:
  assumes inv: "cardInv pf p" and i: "i < length (pg_encodes p)"
  shows "cardInv pf (cardEffect (encodeSettled pf (pg_encodes p ! i) (p\<lparr>pg_encodes := removeAt i (pg_encodes p)\<rparr>)))"
    (is "cardInv pf (cardEffect ?p)")
proof -
  obtain a c b where e: "pg_encodes p = a @ c # b" "removeAt i (pg_encodes p) = a @ b" "pg_encodes p ! i = c"
    using removeAt_parts[OF i] .
  have game: "pg_game ?p = pg_game p" "pg_effectKind ?p = pg_effectKind p" "pg_cardToken ?p = pg_cardToken p"
    "pg_encodes ?p = a @ b"
    unfolding e(2,3) by (simp_all add: encodeSettled_def split: option.splits)
  then have idle: "cardEffect ?p = ?p" using inv by (simp add: cardEffect_def cardInv_def)
  have bound: "\<forall>c \<in> set (a @ b). fst c \<le> pg_cardToken p" using inv by (auto simp: cardInv_def e)
  show ?thesis
  proof (cases "fst c = pg_cardToken p")
    case True
    then have calls: "cardCalls p = [(pg_cardToken p, g_tape (pg_game p))]" "isOver (g_phase (pg_game p))" "cardShown p = (None, None)"
      using inv by (auto simp: cardInv_def cardCalls_def e split: if_splits)
    then have cc: "c = (pg_cardToken p, g_tape (pg_game p))" "filter (\<lambda>c. fst c = pg_cardToken p) (a @ b) = []"
      using True by (auto simp: cardCalls_def e append_eq_Cons_conv filter_empty_conv)
    then have "cardShown ?p = cardOutcome pf (g_tape (pg_game p))"
      using calls(3) unfolding e(2,3)
      by (simp add: cc(1) encodeSettled_def cardShown_def cardOutcome_def split: option.splits)
    then show ?thesis using inv calls(2) cc bound unfolding idle by (simp add: cardInv_def game cardCalls_def)
  next
    case False
    then have "?p = p\<lparr>pg_encodes := a @ b\<rparr>" unfolding e(2,3) by (simp add: encodeSettled_def)
    moreover have "filter (\<lambda>c. fst c = pg_cardToken p) (a @ b) = cardCalls p" using False by (simp add: cardCalls_def e)
    ultimately show ?thesis using inv bound unfolding idle by (simp add: cardInv_def cardShown_def cardCalls_def split: if_splits)
  qed
qed

lemma decodeSettled_same:
  "pg_executionId (decodeSettled d pf asTape c p) = pg_executionId p"
  "pg_executionIdError (decodeSettled d pf asTape c p) = pg_executionIdError p"
  "pg_cardToken (decodeSettled d pf asTape c p) = pg_cardToken p"
  "pg_effectKind (decodeSettled d pf asTape c p) = pg_effectKind p"
  "pg_encodes (decodeSettled d pf asTape c p) = pg_encodes p"
  by (simp_all add: decodeSettled_def Let_def case_prod_beta)

lemma decodeSettled_over:
  "isOver (g_phase (pg_game (decodeSettled d pf asTape c p))) \<Longrightarrow> pg_game (decodeSettled d pf asTape c p) = pg_game p"
  using watch_over by (auto simp: decodeSettled_def Let_def split: option.splits prod.splits if_splits)

lemma suspend_over:
  "isOver (g_phase g) \<Longrightarrow> g_tape (suspend d g) = g_tape g"
  by (auto simp: suspend_def saveGame_still isOver_def)

lemma replayPageStep_inv:
  assumes inv: "cardInv pf p" and run: "replayPageStep d pf asTape e p = Some p'"
  shows "cardInv pf p'"
proof -
  have game: "cardInv pf (cardEffect (withGame f p))"
    if "isOver (g_phase (pg_game p)) \<Longrightarrow> isOver (g_phase (f (pg_game p))) \<Longrightarrow> g_tape (f (pg_game p)) = g_tape (pg_game p)" for f
    by (rule cardInv_game[OF inv]) (simp_all add: withGame_def that)
  have self: "cardInv pf (cardEffect p)" by (rule cardInv_game[OF inv]) simp_all
  have cmd: "cardInv pf (cardEffect (withGame (command d c) p))" for c
    by (rule game) (rule command_over)
  have susp: "cardInv pf (cardEffect (withGame (suspend d) p))" by (rule game) (rule suspend_over)
  have replay: "cardInv pf (cardEffect (withGame (\<lambda>g. snd (watch d (g_tape g) g)) p))"
    by (rule game) (metis prod.collapse watch_over)
  show ?thesis
  proof (cases e)
    case (AnimationFrame n)
    with run obtain g where g: "Game.frame d n (pg_game p) = Some g" "p' = cardEffect (p\<lparr>pg_game := g\<rparr>)"
      by (auto simp: replayPageStep_def)
    show ?thesis unfolding g(2) by (rule cardInv_game[OF inv]) (use g(1) frame_over[of "pg_game p" d n] in auto)
  next
    case (EncodeSettles i)
    then show ?thesis using run encodeSettled_inv[OF inv] by (auto simp: replayPageStep_def split: if_splits)
  next
    case (DecodeSettles i)
    with run have p': "p' = cardEffect (decodeSettled d pf asTape (pg_decodes p ! i) (p\<lparr>pg_decodes := removeAt i (pg_decodes p)\<rparr>))"
      by (auto simp: replayPageStep_def split: if_splits)
    show ?thesis unfolding p' by (rule cardInv_game[OF inv]) (simp_all add: decodeSettled_same decodeSettled_over)
  next
    case ClickCopy
    have "cardInv pf (cardEffect (onCopyExecutionId p))"
      by (rule cardInv_game[OF inv]) (simp_all add: onCopyExecutionId_def split: option.splits)
    then show ?thesis using run ClickCopy by (auto simp: replayPageStep_def)
  next
    case ClickReplay
    have "cardInv pf (cardEffect (p\<lparr>pg_decodes := ds\<rparr>))" for ds by (rule cardInv_game[OF inv]) simp_all
    then show ?thesis using run ClickReplay replay
      by (auto simp: replayPageStep_def onReplayRun_def split: option.splits if_splits)
  next
    case (SubmitWatch code)
    have "cardInv pf (cardEffect (onWatch code p))" by (rule cardInv_game[OF inv]) (simp_all add: onWatch_def)
    then show ?thesis using run SubmitWatch by (auto simp: replayPageStep_def)
  next
    case (ClickSpeed n)
    have "cardInv pf (cardEffect (withGame (setPlaybackSpeed n) p))"
      by (rule game) (simp add: setPlaybackSpeed_def touch_def)
    then show ?thesis using run ClickSpeed by (auto simp: replayPageStep_def)
  next
    case PageHidden
    have "cardInv pf (cardEffect (withGame (saveGame d) p))" by (rule game) (simp add: saveGame_still)
    then show ?thesis using run PageHidden by (auto simp: replayPageStep_def)
  qed (use run self cmd susp in \<open>auto simp: replayPageStep_def pageKeyDown_def pageKeyUp_def split: option.splits if_splits\<close>)
qed

lemma mountReplay_inv: "cardInv pf (mountReplay d store w)"
proof -
  have "\<not> isOver (g_phase (newGame d store w))"
    by (simp add: newGame_def Let_def isOver_def split: option.splits)
  then show ?thesis unfolding mountReplay_def by (intro cardEffect_inv) simp_all
qed

lemma runPage_inv: "cardInv pf p \<Longrightarrow> runPage d pf asTape es p = Some p' \<Longrightarrow> cardInv pf p'"
  by (induction es arbitrary: p) (auto dest: replayPageStep_inv simp: bind_eq_Some_conv)

text \<open>
  C11. The card of a finished run, on a page that has seen any keys, frames, clicks and settled promises in
  any order: it shows the execution ID of that very run, or why there is none, or nothing while the codec
  still works on that run's tape. An encoding that settles late, for a card that is gone, never lands on a
  later card, and outside the card nothing is shown.
\<close>

theorem card_id_current:
  assumes "runPage d pf asTape events (mountReplay d store w) = Some p"
  shows "if isOver (g_phase (pg_game p)) then
      cardShown p = cardOutcome pf (g_tape (pg_game p)) \<or>
      (cardShown p = (None, None) \<and> (pg_cardToken p, g_tape (pg_game p)) \<in> set (pg_encodes p))
    else cardShown p = (None, None)"
  using runPage_inv[OF mountReplay_inv assms]
  by (auto simp: cardInv_def cardCalls_def filter_eq_Cons_iff split: if_splits)

text \<open>
  For the witness: levels that ask for a random crash from the start, so that watching the code of an
  empty tape ends in the next frame, and its card.
\<close>

definition chaosDeps :: "unit GameDeps" where
  "chaosDeps = demoDeps\<lparr>dp_levels := (\<lambda>_. LEVELS L1)\<rparr>"

definition demoTape :: Tape where
  "demoTape = emptyTape ''2026-01-31''"

definition demoReplayPage :: "unit Page" where
  "demoReplayPage = mountReplay chaosDeps demoStore ()"

definition demoWatched :: "unit Page" where
  "demoWatched = cardEffect (demoReplayPage\<lparr>pg_game := snd (watch chaosDeps demoTape (pg_game demoReplayPage))\<rparr>)"

lemma demo_code: "cardOutcome demoPlatform tape = (Some ''RPL1.dGFwZQ'', None)"
  by (simp add: cardOutcome_def shareableRunCode_def encodeRun_def pipe_def demoPlatform_def toBase64Url_digits urlDigit_def
      b64Digit_def b64Alphabet_def RUN_CODE_PREFIX_def MAX_RUN_CODE_def)

lemma demo_decode: "decodeRun demoPlatform ''RPL1.dGFwZQ'' = Some (tapeJson demoTape)"
proof -
  have "toBase64Url ''tape'' = ''dGFwZQ''"
    by (simp add: toBase64Url_digits urlDigit_def b64Digit_def b64Alphabet_def)
  then have "fromBase64Url ''dGFwZQ'' = Some ''tape''" by (metis fromBase64Url_toBase64Url)
  moreover have "isTape (Some (tapeJson demoTape))"
    by (rule tapeJson_ok) (simp add: tapeOk_def demoTape_def emptyTape_def isDigit_def)
  ultimately show ?thesis
    by (simp add: decodeRun_def demoPlatform_def RUN_CODE_PREFIX_def MAX_RUN_CODE_def MAX_TAPE_JSON_def isSpace_def
        pipe_def demoTape_def)
qed

lemma runPage_append: "runPage d pf f (xs @ ys) p = runPage d pf f xs p \<bind> runPage d pf f ys"
proof (induction xs arbitrary: p)
  case (Cons e xs)
  have "runPage d pf f (xs @ ys) = (\<lambda>p. runPage d pf f xs p \<bind> runPage d pf f ys)" using Cons.IH by (rule ext)
  then show ?case by (simp add: Option.bind_assoc)
qed simp

lemma demo_watched:
  "runPage chaosDeps demoPlatform (\<lambda>_. demoTape) [SubmitWatch ''RPL1.dGFwZQ'', DecodeSettles 0] demoReplayPage = Some demoWatched"
proof -
  have idle: "cardEffect (p\<lparr>pg_decodes := ds\<rparr>) = (cardEffect p)\<lparr>pg_decodes := ds\<rparr>" for p :: "unit Page" and ds
    by (simp add: cardEffect_def Let_def)
  have same: "p\<lparr>pg_decodes := [], pg_game := g, pg_watchError := None\<rparr> = p\<lparr>pg_game := g\<rparr>"
    if "pg_decodes p = []" "pg_watchError p = None" for p :: "unit Page" and g
    using that by (cases p) simp
  have facts: "pg_effectKind demoReplayPage = Some (phaseKind (g_phase (pg_game demoReplayPage)))" "pg_decodes demoReplayPage = []"
    "pg_watchError demoReplayPage = None" "fst (watch chaosDeps demoTape (pg_game demoReplayPage))"
    by code_simp+
  have "cardEffect demoReplayPage = demoReplayPage" unfolding cardEffect_def Let_def facts(1) by simp
  then show ?thesis using same[OF facts(2,3)] facts(2,4)
    by (simp add: replayPageStep_def onWatch_def idle decodeSettled_def demo_decode removeAt_def demoWatched_def case_prod_beta Let_def)
qed

lemma demo_over:
  "case runPage chaosDeps demoPlatform (\<lambda>_. demoTape) [AnimationFrame 1] demoWatched of
      None \<Rightarrow> False
    | Some p \<Rightarrow> isOver (g_phase (pg_game p)) \<and> pg_effectKind p = Some ''over'' \<and> length (pg_encodes p) = 1"
  by code_simp

theorem card_id_current_witness:
  "case runPage chaosDeps demoPlatform (\<lambda>_. demoTape)
      ([SubmitWatch ''RPL1.dGFwZQ'', DecodeSettles 0] @ [AnimationFrame 1] @ [EncodeSettles 0]) demoReplayPage of
     None \<Rightarrow> False
   | Some p \<Rightarrow> isOver (g_phase (pg_game p)) \<and> cardShown p = (Some ''RPL1.dGFwZQ'', None)"
    (is "case ?run of None \<Rightarrow> False | Some p \<Rightarrow> ?P p")
proof -
  obtain q where q: "runPage chaosDeps demoPlatform (\<lambda>_. demoTape) [AnimationFrame 1] demoWatched = Some q"
    "isOver (g_phase (pg_game q))" "pg_effectKind q = Some ''over''" "length (pg_encodes q) = 1"
    using demo_over by (auto split: option.splits)
  define p where "p = encodeSettled demoPlatform (pg_encodes q ! 0) (q\<lparr>pg_encodes := removeAt 0 (pg_encodes q)\<rparr>)"
  have p: "isOver (g_phase (pg_game p))" "pg_encodes p = []" "pg_effectKind p = Some ''over''"
    using q(2-4) by (simp_all add: p_def encodeSettled_def removeAt_def split: option.splits)
  obtain r where "g_phase (pg_game p) = OverPhase r" using isOver_phase[OF p(1)] by blast
  then have "cardEffect p = p" by (simp add: cardEffect_def p(3))
  then have "runPage chaosDeps demoPlatform (\<lambda>_. demoTape) [EncodeSettles 0] q = Some p"
    using q(4) by (simp add: replayPageStep_def p_def[symmetric])
  then have run: "?run = Some p" unfolding runPage_append demo_watched by (simp only: Option.bind.bind_lunit q(1))
  then show ?thesis using card_id_current[OF run[unfolded demoReplayPage_def]] p demo_code by simp
qed

end
