(* ===== verification/Lifecycle.thy ===== *)
theory Lifecycle
  imports Settings Payload WorkflowDetail
begin

text \<open>
  Starting, stopping and forgetting applications: the detail page (\<open>pages/AppDetail.tsx\<close>) with the
  requests of \<open>hooks/useAppAction.ts\<close>, the uptime text (\<open>lib/uptime.ts\<close>), the mode and the runtime of an
  application (\<open>lib/modeLabel.ts\<close>, \<open>lib/modeToken.ts\<close>, \<open>lib/runtimeToken.ts\<close>, \<open>lib/runtimeSwatch.ts\<close>) and the
  clearing of stopped applications on the list (\<open>pages/Applications.tsx\<close>).

  The page is a state machine: polls replace the application, clicks open a confirmation, and only the
  confirmation sends a request. A confirmation is the closure the source stores in its state, so it
  holds the application of the render it was made in. The requests that have been sent are kept, each
  with that application, for the statements about them.
\<close>

section \<open>Applications\<close>

datatype AppSource = Standalone | Compose | AspireHost | Testcontainers

record AppInfo =
  ap_appId :: string
  ap_instanceKey :: "string option"
  ap_runtime :: string
  ap_label :: "string option"
  ap_isAspire :: bool
  ap_source :: "AppSource option"
  ap_sidecarReachable :: "bool option"
  ap_appStatus :: "ProcStatus option"
  ap_daprdStatus :: "ProcStatus option"
  ap_sidecarOrphaned :: bool
  ap_metadataOk :: bool
  ap_appPid :: int

definition cardApp :: "AppInfo \<Rightarrow> CardApp" where
  "cardApp app =
     \<lparr>ca_appId = ap_appId app, ca_instanceKey = ap_instanceKey app, ca_sidecarReachable = ap_sidecarReachable app,
      ca_daprdStopped = (ap_daprdStatus app = Some StoppedProc)\<rparr>"

text \<open>\<open>None\<close> is the dash that stands for no value.\<close>

definition modeLabel :: "AppInfo \<Rightarrow> string option" where
  "modeLabel app =
     (if ap_isAspire app \<or> ap_source app = Some AspireHost then Some ''Aspire''
      else case ap_source app of
             Some Compose \<Rightarrow> Some ''Compose''
           | Some Testcontainers \<Rightarrow> Some ''TestContainers''
           | Some Standalone \<Rightarrow> Some ''Dapr run''
           | _ \<Rightarrow> None)"

definition modeToken :: "AppInfo \<Rightarrow> string option" where
  "modeToken app =
     (if ap_isAspire app \<or> ap_source app = Some AspireHost then Some ''aspire''
      else case ap_source app of
             Some Compose \<Rightarrow> Some ''compose''
           | Some Testcontainers \<Rightarrow> Some ''test-containers''
           | Some Standalone \<Rightarrow> Some ''dapr-run''
           | _ \<Rightarrow> None)"

definition KNOWN :: "string list" where
  "KNOWN = [''go'', ''python'', ''node'', ''dotnet'', ''java'', ''rust'']"

definition runtimeToken :: "string \<Rightarrow> string option" where
  "runtimeToken runtime =
     (if runtime = [] then None
      else let r = toLowerCase (trim runtime) in if r \<in> set KNOWN then Some r else None)"

definition runtimeSwatch :: "string \<Rightarrow> string" where
  "runtimeSwatch runtime =
     (let r = toLowerCase runtime in
      if includesText r ''go'' then ''#00ADD8''
      else if includesText r ''python'' \<or> includesText r ''py'' then ''#3776AB''
      else if includesText r ''node'' \<or> includesText r ''js'' then ''#539E43''
      else if includesText r ''.net'' \<or> includesText r ''dotnet'' then ''#8330FF''
      else if includesText r ''java'' then ''#ED8B00''
      else if includesText r ''rust'' then ''#CE422B''
      else ''var(--faint)'')"

section \<open>Uptime\<close>

definition formatUptime :: "(string \<Rightarrow> int option) \<Rightarrow> string \<Rightarrow> int \<Rightarrow> string option" where
  "formatUptime dateParse startedAt nowMs =
     (case dateParse startedAt of
        None \<Rightarrow> None
      | Some t \<Rightarrow>
          let s = max 0 (mathFloor (fdiv (of_int (nowMs - t)) 1000));
              d = mathFloor (fdiv (of_int s) 86400);
              s = s - d * 86400;
              h = mathFloor (fdiv (of_int s) 3600);
              s = s - h * 3600;
              m = mathFloor (fdiv (of_int s) 60);
              s = s - m * 60;
              ss = padStart 2 CHR ''0'' (showInt s)
          in Some (if 0 < d then showInt d @ ''d '' @ showInt h @ ''h '' @ showInt m @ ''m''
                   else if 0 < h then showInt h @ ''h '' @ showInt m @ ''m '' @ ss @ ''s''
                   else if 0 < m then showInt m @ ''m '' @ ss @ ''s''
                   else showInt s @ ''s''))"

definition uptimeCell :: "(string \<Rightarrow> int option) \<Rightarrow> bool \<Rightarrow> string option \<Rightarrow> int \<Rightarrow> string option" where
  "uptimeCell dateParse isRunning startedAt now =
     (case startedAt of
        None \<Rightarrow> None
      | Some t \<Rightarrow> if isRunning \<and> t \<noteq> [] then formatUptime dateParse t now else None)"

section \<open>Requests\<close>

datatype LifecycleTarget = TheApp | Daprd | All
datatype AppLifecycleAction = Start | Stop | Restart

fun targetName :: "LifecycleTarget \<Rightarrow> string" where
  "targetName TheApp = ''app''" | "targetName Daprd = ''daprd''" | "targetName All = ''all''"

fun actionName :: "AppLifecycleAction \<Rightarrow> string" where
  "actionName Start = ''start''" | "actionName Stop = ''stop''" | "actionName Restart = ''restart''"

fun actionLabel :: "AppLifecycleAction \<Rightarrow> string" where
  "actionLabel Start = ''Start''" | "actionLabel Stop = ''Stop''" | "actionLabel Restart = ''Restart''"

datatype AppRequest = Act (rq_key: string) LifecycleTarget AppLifecycleAction | Forget (rq_key: string)

text \<open>The method and the path below the base of the API.\<close>

fun requestLine :: "AppRequest \<Rightarrow> string \<times> string" where
  "requestLine (Act key target action) =
     (''POST'', ''/apps/'' @ encodeURIComponent key @ ''/'' @ encodeURIComponent (targetName target) @ ''/'' @
        encodeURIComponent (actionName action))"
| "requestLine (Forget key) = (''DELETE'', ''/apps/'' @ encodeURIComponent key)"

text \<open>A response: its status and the \<open>error\<close> of its body, if the body is JSON with a text there.\<close>

record AppResponse =
  ar_status :: nat
  ar_error :: "string option"

definition responseOk :: "AppResponse \<Rightarrow> bool" where
  "responseOk r \<longleftrightarrow> 200 \<le> ar_status r \<and> ar_status r < 300"

definition throwIfNotOK :: "AppResponse \<Rightarrow> string option" where
  "throwIfNotOK r =
     (if responseOk r then None
      else Some (case ar_error r of Some msg \<Rightarrow> msg | None \<Rightarrow> ''request failed: '' @ showNat (ar_status r)))"

section \<open>What the page offers\<close>

definition isCompose :: "AppInfo \<Rightarrow> bool" where "isCompose app \<longleftrightarrow> ap_source app = Some Compose"
definition isTestcontainers :: "AppInfo \<Rightarrow> bool" where "isTestcontainers app \<longleftrightarrow> ap_source app = Some Testcontainers"
definition appRunning :: "AppInfo \<Rightarrow> bool" where "appRunning app \<longleftrightarrow> ap_appStatus app = Some RunningProc"
definition daprdRunning :: "AppInfo \<Rightarrow> bool" where "daprdRunning app \<longleftrightarrow> ap_daprdStatus app = Some RunningProc"
definition appStopped :: "AppInfo \<Rightarrow> bool" where "appStopped app \<longleftrightarrow> ap_appStatus app = Some StoppedProc"
definition daprdStopped :: "AppInfo \<Rightarrow> bool" where "daprdStopped app \<longleftrightarrow> ap_daprdStatus app = Some StoppedProc"
definition anyRunning :: "AppInfo \<Rightarrow> bool" where "anyRunning app \<longleftrightarrow> appRunning app \<or> daprdRunning app"

definition allStopped :: "AppInfo \<Rightarrow> bool" where
  "allStopped app \<longleftrightarrow> (appStopped app \<or> daprdStopped app) \<and> \<not> appRunning app \<and> \<not> daprdRunning app"

definition removable :: "AppInfo \<Rightarrow> bool" where
  "removable app \<longleftrightarrow> appStopped app \<and> daprdStopped app"

definition unreachable :: "AppInfo \<Rightarrow> bool" where
  "unreachable app \<longleftrightarrow> isCompose app \<and> ap_sidecarReachable app = Some False \<and> ap_daprdStatus app \<noteq> Some StoppedProc"

lemmas app_status_defs = isCompose_def isTestcontainers_def appRunning_def daprdRunning_def appStopped_def daprdStopped_def
  anyRunning_def allStopped_def removable_def

definition perTarget :: "AppInfo \<Rightarrow> bool" where
  "perTarget app \<longleftrightarrow> isCompose app \<or> ap_isAspire app"

definition daprdTarget :: "AppInfo \<Rightarrow> LifecycleTarget" where
  "daprdTarget app = (if perTarget app then Daprd else All)"

definition quoted :: "string \<Rightarrow> string" where
  "quoted s = [CHR 0x22] @ s @ [CHR 0x22]"

definition daprdWhat :: "AppInfo \<Rightarrow> string" where
  "daprdWhat app =
     (if perTarget app then ''sidecar of '' @ quoted (ap_appId app)
      else quoted (ap_appId app) @ '' (dapr run manages app + sidecar together)'')"

definition allWhat :: "AppInfo \<Rightarrow> string" where
  "allWhat app = quoted (ap_appId app) @ '' (app + sidecar)''"

text \<open>The hints above the panels, by what they say.\<close>

datatype Hint = Unreachable | NoMetadata | ManagedByAspire | Orphaned | StartedWithDaprRun

definition hints :: "bool \<Rightarrow> AppInfo \<Rightarrow> Hint list" where
  "hints lifecycle app =
     (if unreachable app then [Unreachable] else if \<not> ap_metadataOk app then [NoMetadata] else []) @
     (if ap_isAspire app \<and> (appStopped app \<or> daprdStopped app) then [ManagedByAspire] else []) @
     (if ap_sidecarOrphaned app then [Orphaned] else []) @
     (if lifecycle \<and> ap_source app = Some Standalone \<and> \<not> ap_isAspire app \<and> \<not> ap_sidecarOrphaned app \<and> anyRunning app
      then [StartedWithDaprRun] else [])"

text \<open>The text below the name: the container name, or a label that differs from the identifier.\<close>

definition subtitle :: "AppInfo \<Rightarrow> string option" where
  "subtitle app =
     (let key = appKey (cardApp app) in
      if key \<noteq> ap_appId app then Some key
      else case ap_label app of
             Some l \<Rightarrow> if l \<noteq> [] \<and> l \<noteq> ap_appId app then Some l else None
           | None \<Rightarrow> None)"

text \<open>The App PID cell; the inner \<open>None\<close> is the dash.\<close>

definition appPidDisplay :: "AppInfo \<Rightarrow> string option" where
  "appPidDisplay app =
     (if \<not> ap_metadataOk app then Some ''unknown'' else if ap_appPid app \<noteq> 0 then Some (showInt (ap_appPid app)) else None)"

section \<open>The page\<close>

record Confirm =
  cf_title :: string
  cf_label :: string
  cf_danger :: bool
  cf_run :: "AppLifecycleAction option"
  cf_target :: LifecycleTarget
  cf_app :: AppInfo

record DetailPage =
  dt_app :: AppInfo
  dt_confirm :: "Confirm option"
  dt_action :: "Confirm option"
  dt_forget :: bool
  dt_toast :: "string option"
  dt_atList :: bool
  dt_sent :: "(AppRequest \<times> AppInfo) list"

definition openDetail :: "AppInfo \<Rightarrow> DetailPage" where
  "openDetail app = \<lparr>dt_app = app, dt_confirm = None, dt_action = None, dt_forget = False, dt_toast = None,
     dt_atList = False, dt_sent = []\<rparr>"

definition busy :: "DetailPage \<Rightarrow> bool" where
  "busy p \<longleftrightarrow> dt_action p \<noteq> None"

definition runAction :: "LifecycleTarget \<Rightarrow> AppLifecycleAction \<Rightarrow> string \<Rightarrow> DetailPage \<Rightarrow> DetailPage" where
  "runAction target act what p =
     p\<lparr>dt_confirm := Some \<lparr>cf_title = actionLabel act @ '' '' @ what @ ''?'', cf_label = actionLabel act,
         cf_danger = (act = Stop), cf_run = Some act, cf_target = target, cf_app = dt_app p\<rparr>\<rparr>"

definition removeFromList :: "DetailPage \<Rightarrow> DetailPage" where
  "removeFromList p =
     p\<lparr>dt_confirm := Some \<lparr>cf_title = ''Remove '' @ quoted (ap_appId (dt_app p)) @ '' from the list?'', cf_label = ''Remove'',
         cf_danger = True, cf_run = None, cf_target = All, cf_app = dt_app p\<rparr>\<rparr>"

datatype Button = HeaderButton AppLifecycleAction | RemoveButton | AppButton AppLifecycleAction | SidecarButton AppLifecycleAction

text \<open>The buttons of a panel, for the status of its half.\<close>

definition panelShows :: "bool \<Rightarrow> AppInfo \<Rightarrow> ProcStatus option \<Rightarrow> AppLifecycleAction \<Rightarrow> bool" where
  "panelShows lifecycle app status act \<longleftrightarrow>
     lifecycle \<and> \<not> isTestcontainers app \<and>
     (case act of
        Restart \<Rightarrow> status = Some RunningProc \<and> isCompose app
      | Stop \<Rightarrow> status = Some RunningProc
      | Start \<Rightarrow> status = Some StoppedProc \<and> isCompose app)"

fun buttonShown :: "bool \<Rightarrow> AppInfo \<Rightarrow> Button \<Rightarrow> bool" where
  "buttonShown lifecycle app (HeaderButton Restart) \<longleftrightarrow>
     lifecycle \<and> \<not> isTestcontainers app \<and> anyRunning app \<and> isCompose app"
| "buttonShown lifecycle app (HeaderButton Stop) \<longleftrightarrow> lifecycle \<and> \<not> isTestcontainers app \<and> anyRunning app"
| "buttonShown lifecycle app (HeaderButton Start) \<longleftrightarrow> lifecycle \<and> isCompose app \<and> allStopped app"
| "buttonShown lifecycle app RemoveButton \<longleftrightarrow> lifecycle \<and> removable app"
| "buttonShown lifecycle app (AppButton act) \<longleftrightarrow> panelShows lifecycle app (ap_appStatus app) act"
| "buttonShown lifecycle app (SidecarButton act) \<longleftrightarrow> panelShows lifecycle app (ap_daprdStatus app) act"

fun buttonEnabled :: "DetailPage \<Rightarrow> Button \<Rightarrow> bool" where
  "buttonEnabled p RemoveButton \<longleftrightarrow> \<not> busy p \<and> \<not> dt_forget p"
| "buttonEnabled p _ \<longleftrightarrow> \<not> busy p"

fun pressButton :: "Button \<Rightarrow> DetailPage \<Rightarrow> DetailPage" where
  "pressButton (HeaderButton act) p = runAction All act (allWhat (dt_app p)) p"
| "pressButton RemoveButton p = removeFromList p"
| "pressButton (AppButton act) p = runAction TheApp act (''application '' @ quoted (ap_appId (dt_app p))) p"
| "pressButton (SidecarButton act) p = runAction (daprdTarget (dt_app p)) act (daprdWhat (dt_app p)) p"

text \<open>\<open>onConfirm\<close>: the mutations use the key of the latest render; the dialog closes at once.\<close>

definition onConfirm :: "DetailPage \<Rightarrow> DetailPage" where
  "onConfirm p =
     (case dt_confirm p of
        None \<Rightarrow> p
      | Some c \<Rightarrow>
          let key = appKey (cardApp (dt_app p));
              p = (case cf_run c of
                     Some act \<Rightarrow> p\<lparr>dt_action := Some c, dt_sent := dt_sent p @ [(Act key (cf_target c) act, cf_app c)]\<rparr>
                   | None \<Rightarrow> p\<lparr>dt_forget := True, dt_sent := dt_sent p @ [(Forget key, cf_app c)]\<rparr>)
          in p\<lparr>dt_confirm := None\<rparr>)"

definition onCancel :: "DetailPage \<Rightarrow> DetailPage" where
  "onCancel p = p\<lparr>dt_confirm := None\<rparr>"

text \<open>The two mutations settle; a stopped orphan has nothing left to show, so the page returns to the list.\<close>

definition actionSettled :: "AppResponse \<Rightarrow> DetailPage \<Rightarrow> DetailPage" where
  "actionSettled r p =
     (case dt_action p of
        None \<Rightarrow> p
      | Some c \<Rightarrow>
          let p = p\<lparr>dt_action := None\<rparr> in
          case throwIfNotOK r of
            Some msg \<Rightarrow> p\<lparr>dt_toast := Some msg\<rparr>
          | None \<Rightarrow> if ap_sidecarOrphaned (cf_app c) \<and> cf_run c = Some Stop then p\<lparr>dt_atList := True\<rparr> else p)"

definition forgetSettled :: "AppResponse \<Rightarrow> DetailPage \<Rightarrow> DetailPage" where
  "forgetSettled r p =
     (if \<not> dt_forget p then p
      else
        let p = p\<lparr>dt_forget := False\<rparr> in
        case throwIfNotOK r of
          Some msg \<Rightarrow> p\<lparr>dt_toast := Some msg\<rparr>
        | None \<Rightarrow> p\<lparr>dt_atList := True\<rparr>)"

datatype DetailEvent = Polled AppInfo | Pressed Button | Confirmed | Cancelled | ActionReply AppResponse | ForgetReply AppResponse

fun detailEvent :: "bool \<Rightarrow> DetailEvent \<Rightarrow> DetailPage \<Rightarrow> DetailPage" where
  "detailEvent lifecycle (Polled app) p = p\<lparr>dt_app := app\<rparr>"
| "detailEvent lifecycle (Pressed b) p =
     (if buttonShown lifecycle (dt_app p) b \<and> buttonEnabled p b then pressButton b p else p)"
| "detailEvent lifecycle Confirmed p = onConfirm p"
| "detailEvent lifecycle Cancelled p = onCancel p"
| "detailEvent lifecycle (ActionReply r) p = actionSettled r p"
| "detailEvent lifecycle (ForgetReply r) p = forgetSettled r p"

definition runDetail :: "bool \<Rightarrow> DetailEvent list \<Rightarrow> AppInfo \<Rightarrow> DetailPage" where
  "runDetail lifecycle events app = foldl (\<lambda>p e. detailEvent lifecycle e p) (openDetail app) events"

section \<open>The list\<close>

record ListPage =
  li_apps :: "AppInfo list"
  li_confirmClear :: bool
  li_pending :: bool
  li_toast :: "string option"
  li_cleared :: nat

definition inactiveApps :: "AppInfo list \<Rightarrow> AppInfo list" where
  "inactiveApps apps = filter removable apps"

definition clearTitle :: "ListPage \<Rightarrow> string" where
  "clearTitle p =
     (let n = length (inactiveApps (li_apps p)) in
      ''Remove '' @ showNat n @ '' stopped application'' @ (if n = 1 then [] else ''s'') @ '' from the dashboard?'')"

datatype ListEvent = ListPolled "AppInfo list" | ClickClear | ConfirmClear | CancelClear | ClearReply AppResponse

fun listEvent :: "bool \<Rightarrow> ListEvent \<Rightarrow> ListPage \<Rightarrow> ListPage" where
  "listEvent lifecycle (ListPolled apps) p = p\<lparr>li_apps := apps\<rparr>"
| "listEvent lifecycle ClickClear p =
     (if lifecycle \<and> inactiveApps (li_apps p) \<noteq> [] \<and> \<not> li_pending p then p\<lparr>li_confirmClear := True\<rparr> else p)"
| "listEvent lifecycle ConfirmClear p =
     (if li_confirmClear p then p\<lparr>li_pending := True, li_cleared := li_cleared p + 1, li_confirmClear := False\<rparr> else p)"
| "listEvent lifecycle CancelClear p = p\<lparr>li_confirmClear := False\<rparr>"
| "listEvent lifecycle (ClearReply r) p =
     (if \<not> li_pending p then p
      else let p = p\<lparr>li_pending := False\<rparr> in
        case throwIfNotOK r of None \<Rightarrow> p | Some msg \<Rightarrow> p\<lparr>li_toast := Some msg\<rparr>)"

text \<open>
  A row removes its application with a request of its own; a failure is not reported, unlike the failures
  of the detail page and of the button above the list.
\<close>

record RowPage =
  rw_app :: AppInfo
  rw_confirmRemove :: bool
  rw_pending :: bool
  rw_sent :: "(AppRequest \<times> AppInfo) list"

datatype RowEvent = RowPolled AppInfo | ClickRemove | ConfirmRemove | CancelRemove | RemoveReply AppResponse

fun rowEvent :: "bool \<Rightarrow> RowEvent \<Rightarrow> RowPage \<Rightarrow> RowPage" where
  "rowEvent lifecycle (RowPolled app) p = p\<lparr>rw_app := app\<rparr>"
| "rowEvent lifecycle ClickRemove p =
     (if lifecycle \<and> removable (rw_app p) \<and> \<not> rw_pending p then p\<lparr>rw_confirmRemove := True\<rparr> else p)"
| "rowEvent lifecycle ConfirmRemove p =
     (if rw_confirmRemove p then
        p\<lparr>rw_pending := True, rw_confirmRemove := False,
          rw_sent := rw_sent p @ [(Forget (appKey (cardApp (rw_app p))), rw_app p)]\<rparr>
      else p)"
| "rowEvent lifecycle CancelRemove p = p\<lparr>rw_confirmRemove := False\<rparr>"
| "rowEvent lifecycle (RemoveReply r) p = p\<lparr>rw_pending := False\<rparr>"

section \<open>Uptime texts\<close>

lemma roundHalfEven_error: "\<bar>of_int (roundHalfEven x) - x\<bar> \<le> 1 / 2"
proof (cases "x - of_int \<lfloor>x\<rfloor> < 1 / 2 \<or> x - of_int \<lfloor>x\<rfloor> = 1 / 2 \<and> even \<lfloor>x\<rfloor>")
  case True
  then have "roundHalfEven x = \<lfloor>x\<rfloor>" by (simp add: roundHalfEven_def)
  moreover have "x - of_int \<lfloor>x\<rfloor> \<le> 1 / 2" using True by auto
  moreover have "of_int \<lfloor>x\<rfloor> \<le> x" by simp
  ultimately show ?thesis by simp
next
  case False
  then have "roundHalfEven x = \<lfloor>x\<rfloor> + 1" unfolding roundHalfEven_def Let_def by (simp only: if_False)
  moreover have "1 / 2 \<le> x - of_int \<lfloor>x\<rfloor>" using False by linarith
  moreover have "x < of_int \<lfloor>x\<rfloor> + 1" by linarith
  ultimately show ?thesis by simp
qed

lemma rnd_error:
  assumes "0 < x"
  shows "\<bar>rnd x - x\<bar> * 2 ^ 53 \<le> x"
proof -
  let ?u = "ulp x"
  have e: "2 ^ 52 * ?u \<le> x"
    using ilog2_bounds(1)[OF assms] assms by (simp add: ulp_def power_int_diff)
  have "rnd x - x = (of_int (roundHalfEven (x / ?u)) - x / ?u) * ?u"
    using assms by (simp add: rnd_ulp left_diff_distrib)
  then have "\<bar>rnd x - x\<bar> = \<bar>of_int (roundHalfEven (x / ?u)) - x / ?u\<bar> * ?u" by (simp add: abs_mult)
  also have "\<dots> \<le> 1 / 2 * ?u" by (rule mult_right_mono[OF roundHalfEven_error]) simp
  finally have "\<bar>rnd x - x\<bar> * 2 ^ 53 \<le> 2 ^ 52 * ?u" by simp
  with e show ?thesis by linarith
qed

text \<open>Rounding the quotient of two whole numbers of at most 53 bits does not reach the next whole number.\<close>

lemma floor_fdiv:
  assumes "0 \<le> a" "a < 2 ^ 53" "0 < b"
  shows "mathFloor (fdiv (of_int a) (of_int b)) = a div b"
proof (cases "a = 0")
  case True
  then show ?thesis by (simp add: fdiv_def mathFloor_def)
next
  case False
  let ?x = "of_int a / of_int b :: rat"
  have x: "0 < ?x" using False assms by simp
  have "a div b \<le> a" using assms zdiv_mono2[of a 1 b] by simp
  then have k: "\<bar>a div b\<bar> \<le> 2 ^ 53" using assms by (simp add: pos_imp_zdiv_nonneg_iff)
  have "of_int (a div b) \<le> rnd ?x"
    by (rule rnd_ge_int[OF _ k]) (metis floor_divide_of_int_eq of_int_floor_le)
  moreover have "rnd ?x < of_int (a div b) + 1"
  proof -
    have "b * (a div b) + b - 1 \<ge> a" using assms(3) pos_mod_bound[of b a] mult_div_mod_eq[of b a] by linarith
    then have "a + 1 \<le> b * (a div b + 1)" by (simp add: distrib_left)
    then have "of_int (a + 1) \<le> (of_int (b * (a div b + 1)) :: rat)" by (simp only: of_int_le_iff)
    then have gap: "?x + 1 / of_int b \<le> of_int (a div b) + 1" using assms(3) by (simp add: field_simps)
    have "?x < 2 ^ 53 / of_int b"
      using assms(2,3) of_int_less_iff[where 'a=rat, THEN iffD2, OF assms(2)] by (simp add: divide_strict_right_mono)
    then have "\<bar>rnd ?x - ?x\<bar> * 2 ^ 53 < 1 / of_int b * 2 ^ 53" using rnd_error[OF x] by simp
    then have "\<bar>rnd ?x - ?x\<bar> < 1 / of_int b" by (simp only: mult_less_cancel_right_pos zero_less_power zero_less_numeral)
    with gap show ?thesis by linarith
  qed
  ultimately show ?thesis unfolding mathFloor_def fdiv_def by (intro floor_unique) simp_all
qed

text \<open>The text is the canonical mixed-radix writing of the whole seconds since the start.\<close>

lemma formatUptime_spec:
  assumes "dateParse startedAt = Some t" "0 \<le> now - t" "now - t < 2 ^ 53"
    and s: "s = (now - t) div 1000"
  shows "formatUptime dateParse startedAt now = Some
     (if 86400 \<le> s then showInt (s div 86400) @ ''d '' @ showInt (s mod 86400 div 3600) @ ''h '' @ showInt (s mod 3600 div 60) @ ''m''
      else if 3600 \<le> s then showInt (s div 3600) @ ''h '' @ showInt (s mod 3600 div 60) @ ''m '' @ pad2 (s mod 60) @ ''s''
      else if 60 \<le> s then showInt (s div 60) @ ''m '' @ pad2 (s mod 60) @ ''s''
      else showInt s @ ''s'')"
proof -
  have s0: "0 \<le> s" "s < 2 ^ 53" using assms(2,3) unfolding s by (simp_all add: pos_imp_zdiv_nonneg_iff)
  have q: "mathFloor (fdiv (of_int a) 1000) = a div 1000" "mathFloor (fdiv (of_int a) 86400) = a div 86400"
    "mathFloor (fdiv (of_int a) 3600) = a div 3600" "mathFloor (fdiv (of_int a) 60) = a div 60"
    if "0 \<le> a" "a < 2 ^ 53" for a :: int
    using floor_fdiv[OF that, of 1000] floor_fdiv[OF that, of 86400] floor_fdiv[OF that, of 3600] floor_fdiv[OF that, of 60]
    by simp_all
  have first: "max 0 (mathFloor (fdiv (of_int (now - t)) 1000)) = s" using q(1)[OF assms(2,3)] s0 s by simp
  have d: "mathFloor (fdiv (of_int s) 86400) = s div 86400" by (rule q(2)[OF s0])
  have md: "a - a div b * b = a mod b" for a b :: int by (simp add: minus_div_mult_eq_mod)
  have r: "0 \<le> s mod 86400" "s mod 86400 < 2 ^ 53" using pos_mod_bound[of 86400 s] by simp_all
  have r': "0 \<le> s mod 3600" "s mod 3600 < 2 ^ 53" using pos_mod_bound[of 3600 s] by simp_all
  have m: "s mod 86400 mod 3600 = s mod 3600" "s mod 3600 mod 60 = s mod 60" by (simp_all add: mod_mod_cancel)
  have small: "s < 86400 \<Longrightarrow> s mod 86400 = s" "s < 3600 \<Longrightarrow> s mod 3600 = s" "s < 60 \<Longrightarrow> s mod 60 = s"
    using s0 by simp_all
  have cmp: "0 < s div 86400 \<longleftrightarrow> 86400 \<le> s" "0 < s mod 86400 div 3600 \<longleftrightarrow> 3600 \<le> s mod 86400"
     "0 < s mod 3600 div 60 \<longleftrightarrow> 60 \<le> s mod 3600"
    by (simp_all add: pos_imp_zdiv_pos_iff)
  show ?thesis
    unfolding formatUptime_def assms(1) option.case first Let_def d md q(3)[OF r] q(4)[OF r'] m cmp
    using small by (auto simp: pad2_def)
qed

section \<open>What is sent\<close>

text \<open>The half of an application an action is about, and what makes it possible there.\<close>

definition halfRunning :: "LifecycleTarget \<Rightarrow> AppInfo \<Rightarrow> bool" where
  "halfRunning t app \<longleftrightarrow> (case t of TheApp \<Rightarrow> appRunning app | Daprd \<Rightarrow> daprdRunning app | All \<Rightarrow> anyRunning app)"

definition halfStopped :: "LifecycleTarget \<Rightarrow> AppInfo \<Rightarrow> bool" where
  "halfStopped t app \<longleftrightarrow> (case t of TheApp \<Rightarrow> appStopped app | Daprd \<Rightarrow> daprdStopped app | All \<Rightarrow> allStopped app)"

fun allowed :: "bool \<Rightarrow> AppInfo \<Rightarrow> AppRequest \<Rightarrow> bool" where
  "allowed lifecycle app (Act _ t act) \<longleftrightarrow>
     lifecycle \<and> \<not> isTestcontainers app \<and> (act \<noteq> Stop \<longrightarrow> isCompose app) \<and>
     (if act = Start then halfStopped t app else halfRunning t app) \<and> (t = Daprd \<longrightarrow> isCompose app \<or> ap_isAspire app)"
| "allowed lifecycle app (Forget _) \<longleftrightarrow> lifecycle \<and> removable app"

definition confirmRequest :: "string \<Rightarrow> Confirm \<Rightarrow> AppRequest" where
  "confirmRequest key c = (case cf_run c of Some act \<Rightarrow> Act key (cf_target c) act | None \<Rightarrow> Forget key)"

lemma allowed_key: "allowed lc app (confirmRequest k c) \<longleftrightarrow> allowed lc app (confirmRequest k' c)"
  by (simp add: confirmRequest_def split: option.split)

lemma pressButton_confirm:
  assumes "buttonShown lc (dt_app p) b"
  obtains c where "pressButton b p = p\<lparr>dt_confirm := Some c\<rparr>" "cf_app c = dt_app p"
    "allowed lc (dt_app p) (confirmRequest k c)" "cf_run c = None \<longleftrightarrow> b = RemoveButton"
proof (cases b)
  case (HeaderButton act)
  then show ?thesis using assms that[of "the (dt_confirm (pressButton b p))"]
    by (cases act) (auto simp: runAction_def confirmRequest_def halfRunning_def halfStopped_def app_status_defs)
next
  case RemoveButton
  then show ?thesis using assms that[of "the (dt_confirm (pressButton b p))"]
    by (auto simp: removeFromList_def confirmRequest_def)
next
  case (AppButton act)
  then show ?thesis using assms that[of "the (dt_confirm (pressButton b p))"]
    by (cases act) (auto simp: runAction_def confirmRequest_def panelShows_def halfRunning_def halfStopped_def app_status_defs)
next
  case (SidecarButton act)
  then show ?thesis using assms that[of "the (dt_confirm (pressButton b p))"]
    by (cases act) (auto simp: runAction_def confirmRequest_def panelShows_def halfRunning_def halfStopped_def
        daprdTarget_def perTarget_def app_status_defs)
qed

text \<open>
  The invariant: the application shown, those behind the confirmation and behind every request have been
  delivered; what waits and what was sent is allowed; an open confirmation has no competing request.
\<close>

definition detailInv :: "bool \<Rightarrow> AppInfo set \<Rightarrow> nat \<Rightarrow> DetailPage \<Rightarrow> bool" where
  "detailInv lc apps n p \<longleftrightarrow>
     dt_app p \<in> apps \<and> length (dt_sent p) \<le> n \<and>
     (\<forall>(r, a) \<in> set (dt_sent p). a \<in> apps \<and> allowed lc a r) \<and>
     (case dt_confirm p of
        None \<Rightarrow> True
      | Some c \<Rightarrow> cf_app c \<in> apps \<and> allowed lc (cf_app c) (confirmRequest [] c) \<and> \<not> busy p \<and> (cf_run c = None \<longrightarrow> \<not> dt_forget p))"

lemma detailInv_mono: "detailInv lc apps n p \<Longrightarrow> apps \<subseteq> apps' \<Longrightarrow> n \<le> n' \<Longrightarrow> detailInv lc apps' n' p"
  by (auto simp: detailInv_def split: option.splits)

lemma onConfirm_inv:
  assumes "detailInv lc apps n p"
  shows "detailInv lc apps (Suc n) (onConfirm p)"
proof (cases "dt_confirm p")
  case None
  then show ?thesis using detailInv_mono[OF assms, of apps "Suc n"] by (simp add: onConfirm_def)
next
  case (Some c)
  define k where "k = appKey (cardApp (dt_app p))"
  have "dt_sent (onConfirm p) = dt_sent p @ [(confirmRequest k c, cf_app c)]" "dt_confirm (onConfirm p) = None"
    "dt_app (onConfirm p) = dt_app p"
    by (simp_all add: onConfirm_def Some Let_def confirmRequest_def k_def split: option.split)
  moreover have "allowed lc (cf_app c) (confirmRequest k c)" "cf_app c \<in> apps"
    using assms allowed_key[of lc "cf_app c" k c "[]"] by (simp_all add: detailInv_def Some)
  ultimately show ?thesis using assms by (auto simp: detailInv_def)
qed

fun polledApps :: "DetailEvent \<Rightarrow> AppInfo set" where
  "polledApps (Polled app) = {app}"
| "polledApps _ = {}"

lemma detailEvent_inv:
  assumes inv: "detailInv lc apps n p"
  shows "detailInv lc (apps \<union> polledApps e) (if e = Confirmed then Suc n else n) (detailEvent lc e p)"
proof (cases e)
  case (Polled app)
  with inv show ?thesis by (auto simp: detailInv_def busy_def split: option.splits)
next
  case (Pressed b)
  show ?thesis
  proof (cases "buttonShown lc (dt_app p) b \<and> buttonEnabled p b")
    case True
    then obtain c where c: "pressButton b p = p\<lparr>dt_confirm := Some c\<rparr>" "cf_app c = dt_app p"
      "allowed lc (dt_app p) (confirmRequest [] c)" "cf_run c = None \<longleftrightarrow> b = RemoveButton"
      using pressButton_confirm by blast
    moreover have "\<not> busy p" "b = RemoveButton \<longrightarrow> \<not> dt_forget p" using True by (cases b; simp)+
    ultimately show ?thesis using inv True Pressed by (auto simp: detailInv_def busy_def)
  qed (use inv Pressed in auto)
next
  case Confirmed
  with onConfirm_inv[OF inv] show ?thesis by simp
next
  case Cancelled
  with inv show ?thesis by (simp add: detailInv_def onCancel_def)
next
  case (ActionReply r)
  with inv show ?thesis by (auto simp: detailInv_def actionSettled_def busy_def Let_def split: option.splits)
next
  case (ForgetReply r)
  with inv show ?thesis by (auto simp: detailInv_def forgetSettled_def busy_def Let_def split: option.splits)
qed

lemma runDetail_inv:
  "detailInv lc ({app} \<union> \<Union> (polledApps ` set events)) (count_list events Confirmed) (runDetail lc events app)"
proof (induction events rule: rev_induct)
  case Nil
  show ?case by (simp add: runDetail_def openDetail_def detailInv_def)
next
  case (snoc e events)
  have "runDetail lc (events @ [e]) app = detailEvent lc e (runDetail lc events app)" by (simp add: runDetail_def)
  then show ?case using detailEvent_inv[OF snoc.IH, of e] by (auto simp: Un_commute Un_left_commute elim: detailInv_mono)
qed

lemma polled_member: "a \<in> \<Union> (polledApps ` S) \<Longrightarrow> Polled a \<in> S"
proof -
  assume "a \<in> \<Union> (polledApps ` S)"
  then obtain e where "e \<in> S" "a \<in> polledApps e" by blast
  then show ?thesis by (cases e) auto
qed

text \<open>
  C19. Whatever is polled, clicked, confirmed, cancelled or answered on the page of an application: every
  request it has sent was allowed for an application the server had delivered (with the lifecycle
  capability, not under Testcontainers, starting and restarting under Compose only, stopping only
  what runs, starting only what is stopped, the sidecar alone only where it is managed alone,
  forgetting only what is fully stopped), there are no more requests than confirmations, and while a
  lifecycle request is on its way no other can be confirmed.
\<close>

theorem lifecycle_guarded:
  assumes "p = runDetail lifecycle events app"
  shows "(\<forall>(r, a) \<in> set (dt_sent p). (a = app \<or> Polled a \<in> set events) \<and> allowed lifecycle a r) \<and>
    length (dt_sent p) \<le> count_list events Confirmed \<and> (busy p \<longrightarrow> dt_confirm p = None)"
proof -
  have inv: "detailInv lifecycle ({app} \<union> \<Union> (polledApps ` set events)) (count_list events Confirmed) p"
    unfolding assms by (rule runDetail_inv)
  have "(a = app \<or> Polled a \<in> set events) \<and> allowed lifecycle a r" if r: "(r, a) \<in> set (dt_sent p)" for r a
  proof -
    have "\<forall>(r, a) \<in> set (dt_sent p). a \<in> {app} \<union> \<Union> (polledApps ` set events) \<and> allowed lifecycle a r"
      using inv by (simp add: detailInv_def)
    from bspec[OF this r] have "a = app \<or> a \<in> \<Union> (polledApps ` set events)" "allowed lifecycle a r" by auto
    then show ?thesis using polled_member[of a "set events"] by blast
  qed
  moreover have "busy p \<longrightarrow> dt_confirm p = None" using inv by (auto simp: detailInv_def split: option.splits)
  ultimately show ?thesis using inv by (auto simp: detailInv_def)
qed

definition demoApp :: AppInfo where
  "demoApp = \<lparr>ap_appId = ''orders'', ap_instanceKey = Some ''shop-orders-1'', ap_runtime = ''Go'', ap_label = None,
     ap_isAspire = False, ap_source = Some Compose, ap_sidecarReachable = None, ap_appStatus = Some RunningProc,
     ap_daprdStatus = Some StoppedProc, ap_sidecarOrphaned = False, ap_metadataOk = True, ap_appPid = 7\<rparr>"

definition demoDetailEvents :: "DetailEvent list" where
  "demoDetailEvents = [Pressed (AppButton Stop), Confirmed, Pressed (SidecarButton Start),
     ActionReply \<lparr>ar_status = 204, ar_error = None\<rparr>, Pressed (SidecarButton Start), Confirmed]"

theorem lifecycle_guarded_witness:
  "dt_sent (runDetail True demoDetailEvents demoApp) =
     [(Act ''shop-orders-1'' TheApp Stop, demoApp), (Act ''shop-orders-1'' Daprd Start, demoApp)] \<and>
   list_all (\<lambda>(r, a). allowed True a r) (dt_sent (runDetail True demoDetailEvents demoApp))"
proof -
  have "dt_sent (runDetail True demoDetailEvents demoApp) =
     [(Act ''shop-orders-1'' TheApp Stop, demoApp), (Act ''shop-orders-1'' Daprd Start, demoApp)]"
    by code_simp
  with lifecycle_guarded[OF refl, of True demoDetailEvents demoApp] show ?thesis by auto
qed

end
