(* ===== verification/Content.thy ===== *)
theory Content
  imports Lifecycle "HOL-Library.List_Lexorder" "HOL-Library.Char_ord"
begin

text \<open>
  What the dashboard tells and quotes: telemetry (\<open>lib/telemetry.ts\<close>, \<open>hooks/useAppTelemetry.ts\<close>,
  \<open>hooks/useDiscoveryTelemetry.ts\<close>), the placeholders of command lines (\<open>lib/cli.ts\<close>), links in editable texts
  (\<open>lib/copy-links.tsx\<close>) and the addresses for sharing (\<open>lib/share.ts\<close>). The telemetry SDK is a third-party
  package: what is modelled is the sequence of calls it receives. The texts come from YAML files and are
  arguments.
\<close>

section \<open>Telemetry\<close>

datatype 'v RumCall =
    AddAction string "(string \<times> 'v) list"
  | AddError string "(string \<times> 'v) list"
  | StartView string
  | SetContext string 'v
  | RemoveContext string

record 'v Telemetry =
  tm_rum :: bool
  tm_buffered :: "'v RumCall list"
  tm_received :: "'v RumCall list"
  tm_importing :: nat
  tm_inits :: nat

definition newTelemetry :: "'v Telemetry" where
  "newTelemetry = \<lparr>tm_rum = False, tm_buffered = [], tm_received = [], tm_importing = 0, tm_inits = 0\<rparr>"

definition runOrBuffer :: "bool \<Rightarrow> 'v RumCall \<Rightarrow> 'v Telemetry \<Rightarrow> 'v Telemetry" where
  "runOrBuffer enabled c t =
     (if tm_rum t then t\<lparr>tm_received := tm_received t @ [c]\<rparr>
      else if enabled then t\<lparr>tm_buffered := tm_buffered t @ [c]\<rparr>
      else t)"

text \<open>\<open>initTelemetry\<close> up to its \<open>await\<close>, and what follows when the import has resolved.\<close>

definition initTelemetry :: "bool \<Rightarrow> 'v Telemetry \<Rightarrow> 'v Telemetry" where
  "initTelemetry enabled t = (if \<not> enabled then t else t\<lparr>tm_importing := tm_importing t + 1\<rparr>)"

definition importResolved :: "'v Telemetry \<Rightarrow> 'v Telemetry" where
  "importResolved t =
     (if tm_importing t = 0 then t
      else t\<lparr>tm_importing := tm_importing t - 1, tm_inits := tm_inits t + 1, tm_rum := True,
             tm_received := tm_received t @ tm_buffered t, tm_buffered := []\<rparr>)"

text \<open>The version tag of \<open>init\<close>: development builds have none.\<close>

definition versionTag :: "string option \<Rightarrow> string option" where
  "versionTag version = (case version of Some v \<Rightarrow> if v \<noteq> [] \<and> v \<noteq> ''dev'' then Some v else None | None \<Rightarrow> None)"

datatype 'v TelemetryEvent = Track "'v RumCall" | InitCalled | ImportResolved

fun telemetryStep :: "bool \<Rightarrow> 'v TelemetryEvent \<Rightarrow> 'v Telemetry \<Rightarrow> 'v Telemetry" where
  "telemetryStep enabled (Track c) t = runOrBuffer enabled c t"
| "telemetryStep enabled InitCalled t = initTelemetry enabled t"
| "telemetryStep enabled ImportResolved t = importResolved t"

definition runTelemetry :: "bool \<Rightarrow> 'v TelemetryEvent list \<Rightarrow> 'v Telemetry" where
  "runTelemetry enabled events = foldl (\<lambda>t e. telemetryStep enabled e t) newTelemetry events"

fun tracked :: "'v TelemetryEvent list \<Rightarrow> 'v RumCall list" where
  "tracked [] = []"
| "tracked (Track c # es) = c # tracked es"
| "tracked (_ # es) = tracked es"

lemma tracked_append: "tracked (xs @ ys) = tracked xs @ tracked ys"
  by (induction xs rule: tracked.induct) simp_all

lemma telemetry_inv:
  "if enabled
   then tm_received (runTelemetry enabled es) @ tm_buffered (runTelemetry enabled es) = tracked es \<and>
     (tm_rum (runTelemetry enabled es) \<longrightarrow> tm_buffered (runTelemetry enabled es) = []) \<and>
     (\<not> tm_rum (runTelemetry enabled es) \<longrightarrow> tm_received (runTelemetry enabled es) = [])
   else runTelemetry enabled es = newTelemetry"
proof (induction es rule: rev_induct)
  case Nil
  show ?case by (simp add: runTelemetry_def newTelemetry_def)
next
  case (snoc e es)
  have step: "runTelemetry enabled (es @ [e]) = telemetryStep enabled e (runTelemetry enabled es)" by (simp add: runTelemetry_def)
  show ?case
  proof (cases e)
    case (Track c)
    with snoc.IH show ?thesis unfolding step tracked_append by (auto simp: runOrBuffer_def newTelemetry_def split: if_splits)
  next
    case InitCalled
    with snoc.IH show ?thesis unfolding step tracked_append by (auto simp: initTelemetry_def split: if_splits)
  next
    case ImportResolved
    with snoc.IH show ?thesis unfolding step tracked_append by (auto simp: importResolved_def newTelemetry_def split: if_splits)
  qed
qed

text \<open>
  C35. The SDK sees the specification's log. With telemetry enabled, what it has received followed by what
  is buffered is exactly the sequence of calls the dashboard made, in order, whenever and however often
  the SDK was initialised: nothing is lost, repeated or reordered, and once it is ready nothing waits.
  Disabled, the SDK is never loaded, receives nothing and nothing is kept.
\<close>

theorem telemetry_delivered:
  assumes "t = runTelemetry enabled events"
  shows "if enabled
    then tm_received t @ tm_buffered t = tracked events \<and> (tm_rum t \<longrightarrow> tm_received t = tracked events)
    else tm_received t = [] \<and> tm_buffered t = [] \<and> tm_inits t = 0 \<and> tm_importing t = 0"
  using telemetry_inv[of enabled events] unfolding assms
  by (auto simp: newTelemetry_def split: if_splits)

definition demoTracking :: "nat TelemetryEvent list" where
  "demoTracking = [Track (StartView ''apps''), InitCalled, Track (AddAction ''open'' [(''n'', 1)]), ImportResolved, Track (StartView ''logs'')]"

theorem telemetry_delivered_witness:
  "tm_received (runTelemetry True demoTracking) = [StartView ''apps'', AddAction ''open'' [(''n'', 1)], StartView ''logs''] \<and>
   tm_received (runTelemetry False demoTracking) = []"
proof -
  have "tm_rum (runTelemetry True demoTracking)" by code_simp
  with telemetry_delivered[OF refl, of True demoTracking] telemetry_delivered[OF refl, of False demoTracking]
  show ?thesis by (simp add: demoTracking_def)
qed

section \<open>The context of an application\<close>

text \<open>
  The effect of \<open>useAppTelemetry\<close> on a value: set when there is one, removed when it changes or the page goes.
  \<open>prev\<close> is the value of the last run, if it ran.
\<close>

definition appContextEffect :: "string \<Rightarrow> string option option \<Rightarrow> string option \<Rightarrow> string RumCall list" where
  "appContextEffect property prev v =
     (if prev = Some v then []
      else (if prev = None then [] else [RemoveContext property]) @
           (case v of Some x \<Rightarrow> if x = [] then [] else [SetContext property x] | None \<Rightarrow> []))"

fun appContextRun :: "string \<Rightarrow> string option option \<Rightarrow> string option list \<Rightarrow> string RumCall list" where
  "appContextRun property prev [] = []"
| "appContextRun property prev (v # vs) = appContextEffect property prev v @ appContextRun property (Some v) vs"

definition appContextUnmount :: "string \<Rightarrow> string RumCall list" where
  "appContextUnmount property = [RemoveContext property]"

fun rumContext :: "'v RumCall \<Rightarrow> (string \<rightharpoonup> 'v) \<Rightarrow> (string \<rightharpoonup> 'v)" where
  "rumContext (SetContext k v) m = m(k \<mapsto> v)"
| "rumContext (RemoveContext k) m = m(k := None)"
| "rumContext _ m = m"

lemma appContext_current:
  assumes "vs \<noteq> []" "\<forall>v \<in> set vs. v \<noteq> Some []" "case prev of None \<Rightarrow> m property = None | Some p \<Rightarrow> m property = p"
  shows "fold rumContext (appContextRun property prev vs) m property = last vs"
  using assms
proof (induction vs arbitrary: prev m)
  case (Cons v vs)
  have now: "fold rumContext (appContextEffect property prev v) m property = v"
    using Cons.prems(2,3) by (cases v) (auto simp: appContextEffect_def split: option.splits if_splits)
  show ?case
  proof (cases "vs = []")
    case True
    then show ?thesis using now by simp
  next
    case False
    have "fold rumContext (appContextRun property (Some v) vs) (fold rumContext (appContextEffect property prev v) m) property = last vs"
      by (rule Cons.IH[OF False]) (use Cons.prems(2) now in auto)
    then show ?thesis using False by simp
  qed
qed simp

text \<open>Nothing of a page that is gone is left in the context.\<close>

lemma appContext_removed:
  "fold rumContext (appContextRun property None vs @ appContextUnmount property) m property = None"
  by (simp add: appContextUnmount_def)

definition normalizeModeFilter :: "string option \<Rightarrow> string" where
  "normalizeModeFilter mode = (case mode of Some m \<Rightarrow> if m = [] then ''all'' else m | None \<Rightarrow> ''all'')"

definition distinctTokens :: "'a list option \<Rightarrow> ('a \<Rightarrow> string option) \<Rightarrow> string list" where
  "distinctTokens data fn =
     sort (remdups (filter (\<lambda>t. t \<noteq> []) (List.map_filter fn (case data of None \<Rightarrow> [] | Some apps \<Rightarrow> apps))))"

text \<open>The effect on the joined tokens; it does nothing until the applications have loaded.\<close>

definition distinctSetContext ::
  "string \<Rightarrow> string option option \<Rightarrow> 'a list option \<Rightarrow> string list \<Rightarrow> string list RumCall list \<times> string option option" where
  "distinctSetContext property prev data tokens =
     (let key = (case data of None \<Rightarrow> None | Some _ \<Rightarrow> Some (joinWith '','' tokens)) in
      if prev = Some key then ([], prev)
      else (case key of None \<Rightarrow> [] | Some _ \<Rightarrow> [SetContext property tokens], Some key))"

lemma distinctTokens_set:
  "set (distinctTokens (Some apps) fn) = {t. t \<noteq> [] \<and> (\<exists>a \<in> set apps. fn a = Some t)}" "distinct (distinctTokens data fn)"
  "sorted (distinctTokens data fn)"
  by (auto simp: distinctTokens_def List.map_filter_def) force

text \<open>A poll with the same set of tokens, in whatever order the applications come, calls nothing.\<close>

lemma same_tokens_silent:
  assumes "set (distinctTokens (Some apps) fn) = set (distinctTokens (Some apps') fn)"
    and "snd (distinctSetContext property prev (Some apps) (distinctTokens (Some apps) fn)) = prev'"
  shows "fst (distinctSetContext property prev' (Some apps') (distinctTokens (Some apps') fn)) = []"
proof -
  have "distinctTokens (Some apps) fn = distinctTokens (Some apps') fn"
    by (rule sorted_distinct_set_unique[OF distinctTokens_set(3,2) distinctTokens_set(3,2) assms(1)])
  then show ?thesis using assms(2) by (auto simp: distinctSetContext_def Let_def split: if_splits)
qed

section \<open>Links in copy\<close>

text \<open>
  A match of \<open>LINK\<close> at the start of a text: the label, the target and what follows. The classes of the
  expression do not contain the character after them, so there is one way to match.
\<close>

definition schemeLength :: "string \<Rightarrow> nat option" where
  "schemeLength s = (if startsWith s ''http://'' then Some 7 else if startsWith s ''https://'' then Some 8 else None)"

definition hrefChar :: "char \<Rightarrow> bool" where
  "hrefChar c \<longleftrightarrow> \<not> isSpace c \<and> c \<noteq> CHR '')''"

definition matchLink :: "string \<Rightarrow> (string \<times> string \<times> string) option" where
  "matchLink s =
     (if \<not> startsWith s ''['' then None
      else
        let label = takeWhile (\<lambda>c. c \<noteq> CHR '']'') (tl s); r = dropWhile (\<lambda>c. c \<noteq> CHR '']'') (tl s) in
        if label = [] \<or> \<not> startsWith r ''](''  then None
        else
          case schemeLength (drop 2 r) of
            None \<Rightarrow> None
          | Some n \<Rightarrow>
              let href = takeWhile hrefChar (drop 2 r); r = dropWhile hrefChar (drop 2 r) in
              if length href \<le> n \<or> \<not> startsWith r '')'' then None
              else Some (label, href, tl r))"

lemma matchLink_split:
  assumes "matchLink s = Some (label, href, rest)"
  shows "s = ''['' @ label @ '']('' @ href @ '')'' @ rest \<and> label \<noteq> [] \<and>
    (startsWith href ''http://'' \<or> startsWith href ''https://'')"
proof -
  define r where "r = dropWhile (\<lambda>c. c \<noteq> CHR '']'') (tl s)"
  define q where "q = dropWhile hrefChar (drop 2 r)"
  have m: "startsWith s ''[''" "label = takeWhile (\<lambda>c. c \<noteq> CHR '']'') (tl s)" "label \<noteq> []" "startsWith r ''](''"
    "href = takeWhile hrefChar (drop 2 r)" "startsWith q '')''" "rest = tl q" "schemeLength (drop 2 r) \<noteq> None"
    "\<And>n. schemeLength (drop 2 r) = Some n \<Longrightarrow> n < length href"
    using assms unfolding matchLink_def Let_def r_def[symmetric] q_def[symmetric]
    by (auto split: if_splits option.splits)
  have "s = ''['' @ tl s" using m(1) by (cases s) simp_all
  moreover have "tl s = label @ r" by (simp add: m(2) r_def)
  moreover have "r = ''](''  @ drop 2 r" using startsWith_drop[OF m(4)] by (simp add: eval_nat_numeral)
  moreover have dr: "drop 2 r = href @ q" by (simp add: m(5) q_def)
  moreover have "q = '')'' @ rest" using m(6,7) by (cases q) simp_all
  ultimately have "s = ''['' @ label @ ''](''  @ href @ '')'' @ rest" by (metis append.assoc)
  moreover have "startsWith href p" if p: "startsWith (drop 2 r) p" "length p < length href" for p
  proof -
    obtain t where "drop 2 r = p @ t" using p(1) by (auto simp: startsWith_append)
    then have "take (length p) (href @ q) = p" using dr by (metis append_eq_conv_conj)
    then have "href = p @ drop (length p) href" using p(2) by (metis append_take_drop_id less_imp_le take_append take_all_iff diff_is_0_eq take0 append_Nil2)
    then show ?thesis by (metis startsWith_append)
  qed
  ultimately show ?thesis using m(3,8,9) unfolding schemeLength_def
    by (auto split: if_splits)
qed

datatype CopyNode = CopyText string | CopyLink string string

text \<open>The loop over the matches: the text before a match, the link, and on behind it.\<close>

function copyNodes :: "string \<Rightarrow> string \<Rightarrow> CopyNode list" where
  "copyNodes before [] = (if before = [] then [] else [CopyText before])"
| "copyNodes before (c # s) =
     (case matchLink (c # s) of
        None \<Rightarrow> copyNodes (before @ [c]) s
      | Some (label, href, rest) \<Rightarrow>
          (if before = [] then [] else [CopyText before]) @ CopyLink label href # copyNodes [] rest)"
  by pat_completeness auto
termination
proof (relation "measure (\<lambda>(b, s). length s)")
  show "((before @ [c], s), before, c # s) \<in> measure (\<lambda>(b, s). length s)" for before c and s :: string by simp
next
  fix before c s x y label href rest
  assume m: "matchLink (c # s) = Some x" "(label, y) = x" "(href, rest) = y"
  then have "c # s = ''['' @ label @ ''](''  @ href @ '')'' @ rest" using matchLink_split by blast
  then have "length (c # s) = length (''['' @ label @ ''](''  @ href @ '')'' @ rest)" by simp
  then show "(([], rest), before, c # s) \<in> measure (\<lambda>(b, s). length s)" by simp
qed simp

definition renderCopyLinks :: "string \<Rightarrow> CopyNode list" where
  "renderCopyLinks text = copyNodes [] text"

fun nodeSource :: "CopyNode \<Rightarrow> string" where
  "nodeSource (CopyText s) = s"
| "nodeSource (CopyLink label href) = ''['' @ label @ ''](''  @ href @ '')''"

definition safeNode :: "CopyNode \<Rightarrow> bool" where
  "safeNode n \<longleftrightarrow> (case n of CopyText s \<Rightarrow> s \<noteq> [] | CopyLink _ href \<Rightarrow> startsWith href ''http://'' \<or> startsWith href ''https://'')"

lemma copyNodes_ok: "concat (map nodeSource (copyNodes b s)) = b @ s \<and> list_all safeNode (copyNodes b s)"
proof (induction b s rule: copyNodes.induct)
  case (2 b c s)
  show ?case
  proof (cases "matchLink (c # s)")
    case None
    then show ?thesis using 2(1) by simp
  next
    case (Some m)
    obtain label href rest where m: "m = (label, href, rest)" by (cases m)
    have "c # s = ''['' @ label @ ''](''  @ href @ '')'' @ rest" "startsWith href ''http://'' \<or> startsWith href ''https://''"
      using matchLink_split[of "c # s" label href rest] Some m by auto
    then show ?thesis using 2(2)[OF Some, of label "(href, rest)" href rest] Some m by (auto simp: safeNode_def)
  qed
qed (simp add: safeNode_def)

text \<open>
  The renderer of editable texts loses nothing and links nothing but web pages: putting the nodes back
  into the notation they came from gives the text exactly, no text node is empty, and every link leads to
  an \<open>http\<close> or \<open>https\<close> address, whatever the text says.
\<close>

theorem copy_links_safe:
  "concat (map nodeSource (renderCopyLinks text)) = text \<and> list_all safeNode (renderCopyLinks text)"
  using copyNodes_ok[of "[]" "text"] by (simp add: renderCopyLinks_def)

section \<open>Placeholders of command lines\<close>

definition tokenChar :: "char \<Rightarrow> bool" where
  "tokenChar c \<longleftrightarrow> isLetter c \<or> isDigit c \<or> c = CHR ''_''"

definition tokenToLiteral :: "string \<Rightarrow> string" where
  "tokenToLiteral token =
     ''<'' @ toLowerCase (concat (map (\<lambda>c. if isUpper c then [CHR ''-'', c] else [c]) token)) @ ''>''"

definition matchToken :: "string \<Rightarrow> (string \<times> string) option" where
  "matchToken s =
     (if \<not> startsWith s ''{{'' then None
      else
        let token = takeWhile tokenChar (drop 2 s); r = dropWhile tokenChar (drop 2 s) in
        if token = [] \<or> \<not> startsWith r ''}}'' then None else Some (token, drop 2 r))"

lemma matchToken_shorter: "matchToken s = Some (token, rest) \<Longrightarrow> length rest < length s"
proof -
  assume m: "matchToken s = Some (token, rest)"
  then have "s \<noteq> []" by (auto simp: matchToken_def)
  moreover have "length (dropWhile tokenChar (drop 2 s)) \<le> length (drop 2 s)" by (rule length_dropWhile_le)
  ultimately show ?thesis using m by (cases s) (auto simp: matchToken_def Let_def split: if_splits)
qed

function resolvePlaceholders :: "(string \<rightharpoonup> string) \<Rightarrow> string \<Rightarrow> string" where
  "resolvePlaceholders values [] = []"
| "resolvePlaceholders values (c # s) =
     (case matchToken (c # s) of
        None \<Rightarrow> c # resolvePlaceholders values s
      | Some (token, rest) \<Rightarrow>
          (case values token of Some v \<Rightarrow> if v \<noteq> [] then v else tokenToLiteral token | None \<Rightarrow> tokenToLiteral token) @
          resolvePlaceholders values rest)"
  by pat_completeness auto
termination
proof (relation "measure (\<lambda>(m, s). length s)")
  fix "values" :: "string \<rightharpoonup> string" and c s x token rest
  assume "matchToken (c # s) = Some x" "(token, rest) = x"
  then show "((values, rest), values, c # s) \<in> measure (\<lambda>(m, s). length s)" using matchToken_shorter[of "c # s" token rest] by auto
qed simp_all

text \<open>A placeholder is replaced by its value, and what is inserted is not looked at again.\<close>

lemma resolve_token:
  assumes "list_all tokenChar token" "token \<noteq> []" "values token = Some v" "v \<noteq> []"
  shows "resolvePlaceholders values (''{{'' @ token @ ''}}'' @ rest) = v @ resolvePlaceholders values rest"
proof -
  have c: "\<not> tokenChar CHR ''}''" by (simp add: tokenChar_def isLower_def isUpper_def isDigit_def)
  have "takeWhile tokenChar (token @ ''}}'' @ rest) = token" "dropWhile tokenChar (token @ ''}}'' @ rest) = ''}}'' @ rest"
    using assms(1) c by (induction token) simp_all
  then have "matchToken (''{{'' @ token @ ''}}'' @ rest) = Some (token, rest)"
    using assms(2) by (simp add: matchToken_def)
  then show ?thesis using assms(3,4) by simp
qed

section \<open>Sharing\<close>

definition REPO_URL :: string where "REPO_URL = ''https://github.com/diagridio/dev-dashboard''"

record ShareContent =
  sc_emailSubject :: string
  sc_fullMessage :: string
  sc_shortSocial :: string

definition emailUrl :: "ShareContent \<Rightarrow> string" where
  "emailUrl c = ''mailto:?subject='' @ encodeURIComponent (sc_emailSubject c) @ ''&body='' @ encodeURIComponent (sc_fullMessage c)"

definition xUrl :: "ShareContent \<Rightarrow> string" where
  "xUrl c = ''https://x.com/intent/tweet?text='' @ encodeURIComponent (sc_shortSocial c) @ ''&url='' @ encodeURIComponent REPO_URL"

definition blueskyUrl :: "ShareContent \<Rightarrow> string" where
  "blueskyUrl c = ''https://bsky.app/intent/compose?text='' @ encodeURIComponent (sc_shortSocial c @ [CHR 0x0A] @ REPO_URL)"

definition linkedinUrl :: "ShareContent \<Rightarrow> string" where
  "linkedinUrl c =
     ''https://www.linkedin.com/feed/?shareActive=true&text='' @ encodeURIComponent (sc_shortSocial c @ [CHR 0x0A] @ REPO_URL)"

end
