(* ===== verification/Connections.thy ===== *)
theory Connections
  imports ComponentBuilder Lifecycle
begin

text \<open>
  Connections of the dashboard to state stores: the types it supports (\<open>lib/storeTypes.ts\<close>), the fields of
  a type from the component catalog (\<open>hooks/useComponentCatalog.ts\<close>), the dialog that adds a connection
  (\<open>components/StateStoreConnectionDialog.tsx\<close>), the panel that owns it and disconnects stores
  (\<open>components/StateStoreConnectionsPanel.tsx\<close>) with their requests (\<open>hooks/useStoreMutations.ts\<close>), and the
  dialog that publishes a message (\<open>components/PublishMessageDialog.tsx\<close>).

  The panel is a state machine. A dialog is mounted while it is open, so each opening is a new instance
  with a number of its own; requests on their way remember the instance they belong to. The catalog
  arrives at some point, or never does, and is then fixed, as its cache entry is.
\<close>

section \<open>Types and fields\<close>

definition SUPPORTED_STORE_TYPES :: "string list" where
  "SUPPORTED_STORE_TYPES = [''state.redis'', ''state.sqlite'', ''state.postgresql'', ''state.mongodb'']"

definition storeTypeLabel :: "string \<Rightarrow> string" where
  "storeTypeLabel t =
     (if t = ''state.redis'' then ''Redis'' else if t = ''state.sqlite'' then ''SQLite''
      else if t = ''state.postgresql'' then ''PostgreSQL'' else if t = ''state.mongodb'' then ''MongoDB'' else t)"

definition implFor :: "string \<Rightarrow> string" where
  "implFor t = (if startsWith t ''state.'' then drop (length ''state.'') t else t)"

definition SUPPORTED_NAMES :: "string list" where
  "SUPPORTED_NAMES = map implFor SUPPORTED_STORE_TYPES"

record CatalogSchema = ComponentMetadataSchema +
  cs_status :: string

definition requiredText :: "string \<Rightarrow> MetadataField" where
  "requiredText name = \<lparr>mf_name = name, mf_type = Some StringField, mf_required = True\<rparr>"

definition SYNTHETIC_REQUIRED :: "string \<Rightarrow> MetadataField option" where
  "SYNTHETIC_REQUIRED t =
     (if t = ''state.postgresql'' \<or> t = ''state.sqlite'' then Some (requiredText ''connectionString'')
      else if t = ''state.mongodb'' then Some (requiredText ''host'') else None)"

definition REQUIRED_OVERRIDES :: "string \<Rightarrow> string list" where
  "REQUIRED_OVERRIDES t = (if t = ''state.mongodb'' then [''databaseName''] else [])"

definition versionNum :: "string \<Rightarrow> int" where
  "versionNum v =
     (case v of
        c # r \<Rightarrow> if c = CHR ''v'' \<and> takeWhile isDigit r \<noteq> [] then int (readNat (takeWhile isDigit r)) else -1
      | [] \<Rightarrow> -1)"

definition storeSchemas :: "CatalogSchema list option \<Rightarrow> CatalogSchema list" where
  "storeSchemas bundle =
     filter (\<lambda>c. cs_type c = ''state'' \<and> cs_name c \<in> set SUPPORTED_NAMES) (case bundle of None \<Rightarrow> [] | Some cs \<Rightarrow> cs)"

definition compareSchemas :: "CatalogSchema \<Rightarrow> CatalogSchema \<Rightarrow> int" where
  "compareSchemas a b =
     (let stable = (\<lambda>s. if cs_status s = ''stable'' then 1 else 0); d = stable b - stable a
      in if d \<noteq> 0 then d else versionNum (cs_version b) - versionNum (cs_version a))"

definition sortSchemas :: "CatalogSchema list \<Rightarrow> CatalogSchema list" where
  "sortSchemas cs = sortBy compareSchemas cs"

definition fieldsFor :: "CatalogSchema list option \<Rightarrow> string \<Rightarrow> MetadataField list" where
  "fieldsFor bundle t =
     (let chosen = sortSchemas (filter (\<lambda>s. cs_name s = implFor t) (storeSchemas bundle));
          fields = (case chosen of [] \<Rightarrow> [] | s # _ \<Rightarrow> (case cs_metadata s of None \<Rightarrow> [] | Some fs \<Rightarrow> fs));
          base = map (\<lambda>f. if mf_name f \<in> set (REQUIRED_OVERRIDES t) then f\<lparr>mf_required := True\<rparr> else f) fields
      in case SYNTHETIC_REQUIRED t of
           Some s \<Rightarrow> if mf_name s \<notin> mf_name ` set base then s # base else base
         | None \<Rightarrow> base)"

section \<open>The dialog\<close>

record ConnectionForm =
  cn_name :: string
  cn_type :: string
  cn_values :: "(string \<times> string) list"
  cn_optional :: "string list"
  cn_actorStateStore :: bool
  cn_error :: "string option"

definition newForm :: ConnectionForm where
  "newForm = \<lparr>cn_name = [], cn_type = hd SUPPORTED_STORE_TYPES, cn_values = [], cn_optional = [],
     cn_actorStateStore = True, cn_error = None\<rparr>"

definition requiredFields :: "CatalogSchema list option \<Rightarrow> ConnectionForm \<Rightarrow> MetadataField list" where
  "requiredFields bundle c = filter mf_required (fieldsFor bundle (cn_type c))"

definition optionalPool :: "CatalogSchema list option \<Rightarrow> ConnectionForm \<Rightarrow> MetadataField list" where
  "optionalPool bundle c =
     filter (\<lambda>f. \<not> mf_required f \<and> mf_name f \<notin> set (cn_optional c)) (fieldsFor bundle (cn_type c))"

definition valueOf :: "ConnectionForm \<Rightarrow> string \<Rightarrow> string" where
  "valueOf c k = (case map_of (cn_values c) k of Some v \<Rightarrow> v | None \<Rightarrow> [])"

definition numberInvalid :: "CatalogSchema list option \<Rightarrow> ConnectionForm \<Rightarrow> bool" where
  "numberInvalid bundle c \<longleftrightarrow>
     list_ex (\<lambda>f. mf_type f = Some NumberField \<and> valueOf c (mf_name f) \<noteq> [] \<and> numberOfString (valueOf c (mf_name f)) = NaN)
       (fieldsFor bundle (cn_type c))"

definition canSave :: "CatalogSchema list option \<Rightarrow> ConnectionForm \<Rightarrow> bool" where
  "canSave bundle c \<longleftrightarrow>
     trim (cn_name c) \<noteq> [] \<and> list_all (\<lambda>f. trim (valueOf c (mf_name f)) \<noteq> []) (requiredFields bundle c) \<and>
     \<not> numberInvalid bundle c"

record StorePayload =
  sy_name :: string
  sy_type :: string
  sy_metadata :: "(string \<times> string) list"

definition savePayload :: "CatalogSchema list option \<Rightarrow> ConnectionForm \<Rightarrow> StorePayload" where
  "savePayload bundle c =
     (let metadata = foldl (\<lambda>m f. putKey (mf_name f) (valueOf c (mf_name f)) m) [] (requiredFields bundle c);
          metadata = foldl (\<lambda>m n. if valueOf c n \<noteq> [] then putKey n (valueOf c n) m else m) metadata (cn_optional c);
          metadata = (if cn_actorStateStore c then putKey ''actorStateStore'' ''true'' metadata else metadata)
      in \<lparr>sy_name = trim (cn_name c), sy_type = cn_type c, sy_metadata = metadata\<rparr>)"

datatype FormEdit =
    EditName string
  | EditType string
  | EditValue string string
  | AddOptional string
  | RemoveOptional string
  | EditActor bool

definition setValue :: "string \<Rightarrow> string \<Rightarrow> ConnectionForm \<Rightarrow> ConnectionForm" where
  "setValue k v c = c\<lparr>cn_values := putKey k v (cn_values c)\<rparr>"

definition changeType :: "string \<Rightarrow> ConnectionForm \<Rightarrow> ConnectionForm" where
  "changeType t c = c\<lparr>cn_type := t, cn_values := [], cn_optional := []\<rparr>"

definition addOptional :: "string \<Rightarrow> ConnectionForm \<Rightarrow> ConnectionForm" where
  "addOptional n c = (if n \<noteq> [] then c\<lparr>cn_optional := cn_optional c @ [n]\<rparr> else c)"

definition removeOptional :: "string \<Rightarrow> ConnectionForm \<Rightarrow> ConnectionForm" where
  "removeOptional n c = c\<lparr>cn_optional := filter (\<lambda>x. x \<noteq> n) (cn_optional c), cn_values := dropKey n (cn_values c)\<rparr>"

lemmas edit_defs = setValue_def changeType_def addOptional_def removeOptional_def

text \<open>An edit reaches only the inputs that are shown; \<open>select\<close> elements offer the listed values.\<close>

fun editForm :: "CatalogSchema list option \<Rightarrow> FormEdit \<Rightarrow> ConnectionForm \<Rightarrow> ConnectionForm" where
  "editForm bundle (EditName n) c = c\<lparr>cn_name := n\<rparr>"
| "editForm bundle (EditType t) c =
     (if t \<in> set SUPPORTED_STORE_TYPES then changeType t c else c)"
| "editForm bundle (EditValue k v) c =
     (if k \<in> mf_name ` set (requiredFields bundle c) \<or>
         (k \<in> set (cn_optional c) \<and> k \<in> mf_name ` set (fieldsFor bundle (cn_type c)))
      then setValue k v c else c)"
| "editForm bundle (AddOptional n) c =
     (if n \<in> mf_name ` set (optionalPool bundle c) then addOptional n c else c)"
| "editForm bundle (RemoveOptional n) c = removeOptional n c"
| "editForm bundle (EditActor b) c = c\<lparr>cn_actorStateStore := b\<rparr>"

section \<open>The panel\<close>

record ConnectedStore =
  so_id :: string
  so_name :: string
  so_type :: string
  so_source :: string
  so_active :: bool

datatype StoreRequest = PostStore StorePayload | DeleteStore string

fun storeRequestLine :: "StoreRequest \<Rightarrow> string \<times> string" where
  "storeRequestLine (PostStore p) = (''POST'', ''/statestores'')"
| "storeRequestLine (DeleteStore i) = (''DELETE'', ''/statestores/'' @ encodeURIComponent i)"

record ConnectionsPanel =
  cp_bundle :: "CatalogSchema list option"
  cp_stores :: "ConnectedStore list"
  cp_form :: "ConnectionForm option"
  cp_instance :: nat
  cp_saves :: "(nat \<times> string) list"
  cp_pendingDelete :: "ConnectedStore option"
  cp_deleteError :: "string option"
  cp_deletes :: "ConnectedStore list"
  cp_toast :: "string option"
  cp_sent :: "StoreRequest list"

definition newPanel :: ConnectionsPanel where
  "newPanel = \<lparr>cp_bundle = None, cp_stores = [], cp_form = None, cp_instance = 0, cp_saves = [], cp_pendingDelete = None,
     cp_deleteError = None, cp_deletes = [], cp_toast = None, cp_sent = []\<rparr>"

definition handleSave :: "ConnectionsPanel \<Rightarrow> ConnectionsPanel" where
  "handleSave p =
     (case cp_form p of
        None \<Rightarrow> p
      | Some c \<Rightarrow>
          if \<not> canSave (cp_bundle p) c then p
          else p\<lparr>cp_form := Some (c\<lparr>cn_error := None\<rparr>), cp_saves := cp_saves p @ [(cp_instance p, trim (cn_name c))],
                 cp_sent := cp_sent p @ [PostStore (savePayload (cp_bundle p) c)]\<rparr>)"

text \<open>The rest of \<open>handleSave\<close>: an error is shown by the dialog it belongs to, while success closes what is open.\<close>

definition saveSettled :: "nat \<Rightarrow> AppResponse \<Rightarrow> ConnectionsPanel \<Rightarrow> ConnectionsPanel" where
  "saveSettled i r p =
     (if length (cp_saves p) \<le> i then p
      else
        let (inst, name) = cp_saves p ! i;
            p = p\<lparr>cp_saves := take i (cp_saves p) @ drop (Suc i) (cp_saves p)\<rparr>
        in case throwIfNotOK r of
             None \<Rightarrow> p\<lparr>cp_form := None, cp_toast := Some (''Added '' @ name)\<rparr>
           | Some msg \<Rightarrow>
               if inst = cp_instance p then p\<lparr>cp_form := map_option (\<lambda>c. c\<lparr>cn_error := Some msg\<rparr>) (cp_form p)\<rparr> else p)"

definition handleConfirmDelete :: "ConnectionsPanel \<Rightarrow> ConnectionsPanel" where
  "handleConfirmDelete p =
     (case cp_pendingDelete p of
        None \<Rightarrow> p
      | Some s \<Rightarrow> p\<lparr>cp_deleteError := None, cp_deletes := cp_deletes p @ [s], cp_sent := cp_sent p @ [DeleteStore (so_id s)]\<rparr>)"

definition deleteSettled :: "nat \<Rightarrow> AppResponse \<Rightarrow> ConnectionsPanel \<Rightarrow> ConnectionsPanel" where
  "deleteSettled i r p =
     (if length (cp_deletes p) \<le> i then p
      else
        let s = cp_deletes p ! i;
            p = p\<lparr>cp_deletes := take i (cp_deletes p) @ drop (Suc i) (cp_deletes p)\<rparr>
        in case throwIfNotOK r of
             None \<Rightarrow> p\<lparr>cp_toast := Some (''Disconnected '' @ so_name s), cp_deleteError := None, cp_pendingDelete := None\<rparr>
           | Some msg \<Rightarrow> p\<lparr>cp_deleteError := Some msg\<rparr>)"

datatype PanelEvent =
    CatalogArrived "CatalogSchema list"
  | StoresPolled "ConnectedStore list"
  | OpenAdd
  | CloseAdd
  | EditAdd FormEdit
  | SaveAdd
  | SaveReplied nat AppResponse
  | OpenDelete ConnectedStore
  | CloseDelete
  | ConfirmDelete
  | DeleteReplied nat AppResponse

fun panelStep :: "PanelEvent \<Rightarrow> ConnectionsPanel \<Rightarrow> ConnectionsPanel" where
  "panelStep (CatalogArrived cs) p = (if cp_bundle p = None then p\<lparr>cp_bundle := Some cs\<rparr> else p)"
| "panelStep (StoresPolled ss) p = p\<lparr>cp_stores := ss\<rparr>"
| "panelStep OpenAdd p = (if cp_form p = None then p\<lparr>cp_form := Some newForm, cp_instance := cp_instance p + 1\<rparr> else p)"
| "panelStep CloseAdd p = p\<lparr>cp_form := None\<rparr>"
| "panelStep (EditAdd e) p = p\<lparr>cp_form := map_option (editForm (cp_bundle p) e) (cp_form p)\<rparr>"
| "panelStep SaveAdd p = handleSave p"
| "panelStep (SaveReplied i r) p = saveSettled i r p"
| "panelStep (OpenDelete s) p =
     (if s \<in> set (cp_stores p) \<and> \<not> so_active s then p\<lparr>cp_deleteError := None, cp_pendingDelete := Some s\<rparr> else p)"
| "panelStep CloseDelete p = p\<lparr>cp_deleteError := None, cp_pendingDelete := None\<rparr>"
| "panelStep ConfirmDelete p = handleConfirmDelete p"
| "panelStep (DeleteReplied i r) p = deleteSettled i r p"

definition runPanel :: "PanelEvent list \<Rightarrow> ConnectionsPanel" where
  "runPanel events = foldl (\<lambda>p e. panelStep e p) newPanel events"

section \<open>Publishing\<close>

definition CONTENT_TYPES :: "string list" where
  "CONTENT_TYPES = [''application/json'', ''text/plain'', ''application/octet-stream'']"

definition isJSONType :: "string \<Rightarrow> bool" where
  "isJSONType ct = includesText ct ''json''"

record PublishForm =
  pb_data :: string
  pb_contentType :: string
  pb_ttl :: string
  pb_rawPayload :: bool
  pb_jsonError :: string
  pb_isPending :: bool

record PublishPayload =
  pp_pubsubName :: string
  pp_topic :: string
  pp_data :: string
  pp_contentType :: string
  pp_metadata :: "(string \<times> string) list option"

definition newPublish :: PublishForm where
  "newPublish = \<lparr>pb_data = ''{}'', pb_contentType = ''application/json'', pb_ttl = [], pb_rawPayload = False,
     pb_jsonError = [], pb_isPending = False\<rparr>"

text \<open>\<open>submit\<close>; \<open>jsonParses\<close> is whether \<open>JSON.parse\<close> accepts a text. The button is disabled while a message is on its way.\<close>

definition submitPublish ::
  "(string \<Rightarrow> bool) \<Rightarrow> string \<Rightarrow> string \<Rightarrow> PublishForm \<Rightarrow> PublishPayload option \<times> PublishForm" where
  "submitPublish jsonParses pubsub topic f =
     (if pb_isPending f then (None, f)
      else
        let f = f\<lparr>pb_jsonError := []\<rparr> in
        if isJSONType (pb_contentType f) \<and> trim (pb_data f) \<noteq> [] \<and> \<not> jsonParses (pb_data f)
        then (None, f\<lparr>pb_jsonError := ''Invalid JSON payload''\<rparr>)
        else
          let metadata = (if trim (pb_ttl f) \<noteq> [] then [(''ttlInSeconds'', trim (pb_ttl f))] else []) @
                         (if pb_rawPayload f then [(''rawPayload'', ''true'')] else [])
          in (Some \<lparr>pp_pubsubName = pubsub, pp_topic = topic, pp_data = pb_data f, pp_contentType = pb_contentType f,
                    pp_metadata = (if metadata = [] then None else Some metadata)\<rparr>,
              f\<lparr>pb_isPending := True\<rparr>))"

lemma published_parses:
  "submitPublish jsonParses pubsub topic f = (Some p, f') \<Longrightarrow> isJSONType (pp_contentType p) \<Longrightarrow> trim (pp_data p) \<noteq> [] \<Longrightarrow>
   jsonParses (pp_data p)"
  by (auto simp: submitPublish_def Let_def split: if_splits)

section \<open>What is saved\<close>

text \<open>A connection of its type, for the fields of a catalog.\<close>

definition connectionOk :: "CatalogSchema list option \<Rightarrow> StorePayload \<Rightarrow> bool" where
  "connectionOk bundle c \<longleftrightarrow>
     sy_name c \<noteq> [] \<and> sy_type c \<in> set SUPPORTED_STORE_TYPES \<and>
     (\<forall>f \<in> set (fieldsFor bundle (sy_type c)). mf_required f \<longrightarrow>
        (\<exists>v. map_of (sy_metadata c) (mf_name f) = Some v \<and> trim v \<noteq> [])) \<and>
     (\<forall>(k, v) \<in> set (sy_metadata c). k = ''actorStateStore'' \<or> k \<in> mf_name ` set (fieldsFor bundle (sy_type c))) \<and>
     (\<forall>f \<in> set (fieldsFor bundle (sy_type c)). mf_type f = Some NumberField \<longrightarrow> mf_name f \<noteq> ''actorStateStore'' \<longrightarrow>
        (\<forall>v. map_of (sy_metadata c) (mf_name f) = Some v \<longrightarrow> numberOfString v \<noteq> NaN))"

definition formInv :: "CatalogSchema list option \<Rightarrow> ConnectionForm \<Rightarrow> bool" where
  "formInv bundle c \<longleftrightarrow>
     cn_type c \<in> set SUPPORTED_STORE_TYPES \<and> set (cn_optional c) \<subseteq> mf_name ` set (fieldsFor bundle (cn_type c)) \<and>
     (bundle = None \<longrightarrow> cn_optional c = [])"

lemma map_of_put_fields:
  "map_of (foldl (\<lambda>m f. putKey (g f) (h (g f)) m) ps fs) k = (if k \<in> g ` set fs then Some (h k) else map_of ps k)"
  by (induction fs arbitrary: ps) (auto simp: map_of_putKey)

lemma map_of_put_filled:
  "map_of (foldl (\<lambda>m n. if h n \<noteq> [] then putKey n (h n) m else m) ps ns) k =
     (if k \<in> set ns \<and> h k \<noteq> [] then Some (h k) else map_of ps k)"
  by (induction ns arbitrary: ps) (auto simp: map_of_putKey)

lemma map_of_payload:
  "map_of (sy_metadata (savePayload bundle c)) k =
     (if cn_actorStateStore c \<and> k = ''actorStateStore'' then Some ''true''
      else if (k \<in> set (cn_optional c) \<and> valueOf c k \<noteq> []) \<or> k \<in> mf_name ` set (requiredFields bundle c) then Some (valueOf c k)
      else None)"
proof -
  let ?r = "foldl (\<lambda>m f. putKey (mf_name f) (valueOf c (mf_name f)) m) [] (requiredFields bundle c)"
  let ?o = "foldl (\<lambda>m n. if valueOf c n \<noteq> [] then putKey n (valueOf c n) m else m) ?r (cn_optional c)"
  have "sy_metadata (savePayload bundle c) = (if cn_actorStateStore c then putKey ''actorStateStore'' ''true'' ?o else ?o)"
    by (simp add: savePayload_def Let_def)
  then show ?thesis
    by (simp add: map_of_putKey map_of_put_filled[of "valueOf c"] map_of_put_fields[of mf_name "valueOf c"])
qed

lemma fieldsFor_none: "f \<in> set (fieldsFor None t) \<Longrightarrow> mf_required f"
  by (auto simp: fieldsFor_def storeSchemas_def sortSchemas_def sortBy_def SYNTHETIC_REQUIRED_def requiredText_def Let_def split: if_splits)

lemma formInv_new: "formInv bundle newForm"
  by (simp add: formInv_def newForm_def SUPPORTED_STORE_TYPES_def)

lemma formInv_edit:
  assumes "formInv bundle c"
  shows "formInv bundle (editForm bundle e c)"
proof (cases e)
  case (AddOptional n)
  have "optionalPool None c = []" using fieldsFor_none by (auto simp: optionalPool_def filter_empty_conv)
  moreover have "mf_name ` set (optionalPool bundle c) \<subseteq> mf_name ` set (fieldsFor bundle (cn_type c))"
    by (auto simp: optionalPool_def)
  ultimately show ?thesis using assms AddOptional by (auto simp: formInv_def edit_defs)
qed (use assms in \<open>auto simp: formInv_def edit_defs\<close>)

lemma formInv_arrived: "formInv None c \<Longrightarrow> formInv (Some cs) c"
  by (simp add: formInv_def)

lemma savePayload_ok:
  assumes inv: "formInv bundle c" and can: "canSave bundle c"
  shows "connectionOk bundle (savePayload bundle c)"
proof -
  let ?p = "savePayload bundle c" and ?fs = "fieldsFor bundle (cn_type c)"
  have p: "sy_name ?p = trim (cn_name c)" "sy_type ?p = cn_type c" by (simp_all add: savePayload_def Let_def)
  have blank: "trim ''true'' \<noteq> []" by (simp add: trim_def trimStart_def isSpace_def)
  have req: "\<exists>v. map_of (sy_metadata ?p) (mf_name f) = Some v \<and> trim v \<noteq> []" if "f \<in> set ?fs" "mf_required f" for f
  proof -
    have "f \<in> set (requiredFields bundle c)" using that by (simp add: requiredFields_def)
    then have "trim (valueOf c (mf_name f)) \<noteq> []" "mf_name f \<in> mf_name ` set (requiredFields bundle c)"
      using can by (auto simp: canSave_def list_all_iff)
    then show ?thesis using blank by (auto simp: map_of_payload)
  qed
  have keys: "k = ''actorStateStore'' \<or> k \<in> mf_name ` set ?fs" if "(k, v) \<in> set (sy_metadata ?p)" for k v
  proof -
    have "map_of (sy_metadata ?p) k \<noteq> None" using that by (auto simp: map_of_eq_None_iff rev_image_eqI)
    then have "k = ''actorStateStore'' \<or> k \<in> set (cn_optional c) \<or> k \<in> mf_name ` set (requiredFields bundle c)"
      by (auto simp: map_of_payload split: if_splits)
    then show ?thesis using inv by (auto simp: formInv_def requiredFields_def)
  qed
  have num: "numberOfString v \<noteq> NaN"
    if f: "f \<in> set ?fs" "mf_type f = Some NumberField" "mf_name f \<noteq> ''actorStateStore''"
      and v: "map_of (sy_metadata ?p) (mf_name f) = Some v" for f v
  proof -
    from v f(3) have "v = valueOf c (mf_name f)" "v \<noteq> [] \<or> mf_name f \<in> mf_name ` set (requiredFields bundle c)"
      by (auto simp: map_of_payload split: if_splits)
    moreover have "valueOf c k \<noteq> []" if "k \<in> mf_name ` set (requiredFields bundle c)" for k
      using that can by (auto simp: canSave_def list_all_iff trim_def trimStart_def)
    ultimately show ?thesis using f can by (auto simp: canSave_def numberInvalid_def list_ex_iff)
  qed
  show ?thesis using req keys num inv can unfolding connectionOk_def p
    by (auto simp: canSave_def formInv_def)
qed

fun storeSentOk :: "ConnectedStore set \<Rightarrow> CatalogSchema list option \<Rightarrow> StoreRequest \<Rightarrow> bool" where
  "storeSentOk seen bundle (PostStore c) \<longleftrightarrow> connectionOk bundle c \<or> connectionOk None c"
| "storeSentOk seen bundle (DeleteStore i) \<longleftrightarrow> (\<exists>s \<in> seen. so_id s = i \<and> \<not> so_active s)"

lemma storeSentOk_mono: "storeSentOk seen b r \<Longrightarrow> seen \<subseteq> seen' \<Longrightarrow> b = b' \<or> b = None \<Longrightarrow> storeSentOk seen' b' r"
  by (cases r) auto

definition panelInv :: "ConnectedStore set \<Rightarrow> ConnectionsPanel \<Rightarrow> bool" where
  "panelInv seen p \<longleftrightarrow>
     set (cp_stores p) \<subseteq> seen \<and>
     (case cp_form p of None \<Rightarrow> True | Some c \<Rightarrow> formInv (cp_bundle p) c) \<and>
     (case cp_pendingDelete p of None \<Rightarrow> True | Some s \<Rightarrow> s \<in> seen \<and> \<not> so_active s) \<and>
     (\<forall>r \<in> set (cp_sent p). storeSentOk seen (cp_bundle p) r)"

fun polledStores :: "PanelEvent \<Rightarrow> ConnectedStore set" where
  "polledStores (StoresPolled ss) = set ss"
| "polledStores _ = {}"

lemma panelInv_mono: "panelInv seen p \<Longrightarrow> seen \<subseteq> seen' \<Longrightarrow> panelInv seen' p"
  unfolding panelInv_def using storeSentOk_mono by (auto split: option.splits)

lemma panelInv_same:
  assumes "panelInv seen p" "cp_bundle p' = cp_bundle p" "cp_stores p' = cp_stores p" "cp_sent p' = cp_sent p"
    and "\<And>c. cp_form p' = Some c \<Longrightarrow> formInv (cp_bundle p) c"
    and "\<And>s. cp_pendingDelete p' = Some s \<Longrightarrow> s \<in> seen \<and> \<not> so_active s"
  shows "panelInv seen p'"
  using assms by (simp add: panelInv_def split: option.split)

lemma panelInv_form: "panelInv seen p \<Longrightarrow> cp_form p = Some c \<Longrightarrow> formInv (cp_bundle p) c"
  by (simp add: panelInv_def)

lemma panelInv_delete: "panelInv seen p \<Longrightarrow> cp_pendingDelete p = Some s \<Longrightarrow> s \<in> seen \<and> \<not> so_active s"
  by (simp add: panelInv_def)

lemma saveSettled_same:
  "cp_bundle (saveSettled i r p) = cp_bundle p" "cp_stores (saveSettled i r p) = cp_stores p"
  "cp_sent (saveSettled i r p) = cp_sent p" "cp_pendingDelete (saveSettled i r p) = cp_pendingDelete p"
  by (simp_all add: saveSettled_def Let_def case_prod_beta split: option.split)

lemma saveSettled_form: "cp_form (saveSettled i r p) = Some c \<Longrightarrow> \<exists>e c'. cp_form p = Some c' \<and> c = c'\<lparr>cn_error := e\<rparr>"
  by (auto simp: saveSettled_def Let_def split: option.splits if_splits prod.splits)
    (metis ConnectionForm.surjective ConnectionForm.update_convs(6) old.unit.exhaust)+

lemma deleteSettled_same:
  "cp_bundle (deleteSettled i r p) = cp_bundle p" "cp_stores (deleteSettled i r p) = cp_stores p"
  "cp_sent (deleteSettled i r p) = cp_sent p" "cp_form (deleteSettled i r p) = cp_form p"
  "cp_pendingDelete (deleteSettled i r p) = Some s \<Longrightarrow> cp_pendingDelete p = Some s"
  by (auto simp: deleteSettled_def Let_def split: option.splits if_splits)

lemma formInv_error: "formInv bundle (c\<lparr>cn_error := e\<rparr>) = formInv bundle c"
  by (simp add: formInv_def)

lemma panelStep_inv:
  assumes inv: "panelInv seen p"
  shows "panelInv (seen \<union> polledStores e) (panelStep e p)"
proof -
  note pf = panelInv_form[OF inv] and pd = panelInv_delete[OF inv]
  have same: "panelInv seen (panelStep e p)" if "polledStores e = {}" "\<forall>cs. e \<noteq> CatalogArrived cs" "\<forall>ss. e \<noteq> StoresPolled ss"
  proof (cases e)
    case SaveAdd
    show ?thesis
    proof (cases "\<exists>c. cp_form p = Some c \<and> canSave (cp_bundle p) c")
      case True
      then obtain c where c: "cp_form p = Some c" "canSave (cp_bundle p) c" by blast
      from savePayload_ok[OF pf[OF c(1)] c(2)] pf[OF c(1)] show ?thesis
        using inv c SaveAdd by (auto simp: panelInv_def handleSave_def formInv_error)
    next
      case False
      then have "handleSave p = p" by (auto simp: handleSave_def split: option.split)
      then show ?thesis using inv SaveAdd by simp
    qed
  next
    case (SaveReplied i r)
    show ?thesis unfolding SaveReplied panelStep.simps
      by (rule panelInv_same[OF inv]) (auto simp: saveSettled_same formInv_error pf pd dest!: saveSettled_form)
  next
    case (DeleteReplied i r)
    show ?thesis unfolding DeleteReplied panelStep.simps
      by (rule panelInv_same[OF inv]) (auto simp: deleteSettled_same(1-4) pf dest!: deleteSettled_same(5) pd)
  next
    case ConfirmDelete
    show ?thesis
    proof (cases "cp_pendingDelete p")
      case None
      then show ?thesis using inv ConfirmDelete by (simp add: handleConfirmDelete_def)
    next
      case (Some s)
      then show ?thesis using inv pd[OF Some] ConfirmDelete by (auto simp: panelInv_def handleConfirmDelete_def split: option.splits)
    qed
  next
    case OpenAdd
    then show ?thesis using inv formInv_new by (auto simp: panelInv_def)
  next
    case (EditAdd ed)
    show ?thesis unfolding EditAdd panelStep.simps
      by (rule panelInv_same[OF inv]) (auto simp: pf pd intro: formInv_edit)
  next
    case (OpenDelete s)
    have "set (cp_stores p) \<subseteq> seen" using inv by (simp add: panelInv_def)
    then show ?thesis unfolding OpenDelete panelStep.simps
      by (intro panelInv_same[OF inv]) (auto simp: pf pd split: if_splits)
  next
    case CloseAdd
    show ?thesis unfolding CloseAdd panelStep.simps by (rule panelInv_same[OF inv]) (auto simp: pd)
  next
    case CloseDelete
    show ?thesis unfolding CloseDelete panelStep.simps by (rule panelInv_same[OF inv]) (auto simp: pf)
  qed (use that in auto)
  show ?thesis
  proof (cases e)
    case (CatalogArrived cs)
    have "formInv (Some cs) c" if "cp_bundle p = None" "cp_form p = Some c" for c
      using pf[OF that(2)] that(1) formInv_arrived by simp
    then show ?thesis using inv CatalogArrived storeSentOk_mono[of seen None _ seen "Some cs"]
      by (auto simp: panelInv_def split: option.splits)
  next
    case (StoresPolled ss)
    have "panelInv (seen \<union> set ss) p" by (rule panelInv_mono[OF inv]) simp
    then show ?thesis unfolding StoresPolled by (simp add: panelInv_def split: option.splits)
  qed (use same in auto)
qed

lemma runPanel_inv: "panelInv (\<Union> (polledStores ` set events)) (runPanel events)"
proof (induction events rule: rev_induct)
  case Nil
  show ?case by (simp add: runPanel_def newPanel_def panelInv_def)
next
  case (snoc e events)
  have "runPanel (events @ [e]) = panelStep e (runPanel events)" by (simp add: runPanel_def)
  then show ?case using panelStep_inv[OF snoc.IH, of e] by (simp add: Un_commute)
qed


text \<open>For the witness: a catalog with one schema of the Redis store.\<close>

definition demoBundle :: "CatalogSchema list" where
  "demoBundle = [\<lparr>cs_type = ''state'', cs_name = ''redis'', cs_version = ''v1'', cs_title = ''Redis'',
     cs_metadata = Some [requiredText ''redisHost'', \<lparr>mf_name = ''redisDB'', mf_type = Some NumberField, mf_required = False\<rparr>],
     cs_authenticationProfiles = None, cs_status = ''stable''\<rparr>]"

definition demoPanelEvents :: "PanelEvent list" where
  "demoPanelEvents = [OpenAdd, CatalogArrived demoBundle, EditAdd (EditName '' orders''), SaveAdd,
     EditAdd (EditValue ''redisHost'' ''h:6379''), SaveAdd]"

lemma demo_sent:
  "cp_sent (runPanel demoPanelEvents) = [PostStore \<lparr>sy_name = ''orders'', sy_type = ''state.redis'',
     sy_metadata = [(''redisHost'', ''h:6379''), (''actorStateStore'', ''true'')]\<rparr>]"
  by code_simp


section \<open>Replies that arrive late\<close>

text \<open>
  A save that succeeds after its dialog was cancelled closes the dialog that has been opened since and drops what
  was typed there; until the catalog has arrived a Redis connection without a host can be saved; and
  nothing disables the button while a save is on its way.
\<close>

lemma late_save_closes:
  "cp_form (runPanel [CatalogArrived demoBundle, OpenAdd, EditAdd (EditName ''a''), EditAdd (EditValue ''redisHost'' ''h''), SaveAdd,
     CloseAdd, OpenAdd, EditAdd (EditName ''b''), SaveReplied 0 \<lparr>ar_status = 201, ar_error = None\<rparr>]) = None"
  by code_simp

lemma redis_without_host:
  "cp_sent (runPanel [OpenAdd, EditAdd (EditName ''a''), SaveAdd]) =
     [PostStore \<lparr>sy_name = ''a'', sy_type = ''state.redis'', sy_metadata = [(''actorStateStore'', ''true'')]\<rparr>]"
  by code_simp

lemma saved_twice:
  "length (cp_sent (runPanel [OpenAdd, EditAdd (EditName ''a''), SaveAdd, SaveAdd])) = 2"
  by code_simp

end
