(* ===== verification/Shell.thy ===== *)
theory Shell
  imports Connections Resources "HOL-Library.Multiset"
begin

text \<open>
  The shell of the dashboard and its smaller pages: capabilities and navigation (\<open>lib/capabilities.ts\<close>,
  \<open>components/TopNav.tsx\<close>, \<open>App.tsx\<close>), the errors of the API (\<open>lib/api.ts\<close>), toasts (\<open>lib/toast.tsx\<close>), the focus
  of dialogs (\<open>hooks/useModalFocus.ts\<close>, \<open>components/Modal.tsx\<close>), the refresh control, the wizard's buttons, and
  the pages of the control plane, the actors and the subscriptions.

  The lemmas show that the focus stays in an open dialog, with the one key for which it does not, that
  a toast is shown for its time after the last message, and that the control plane page shows every
  service once.
\<close>

section \<open>Capabilities and navigation\<close>

datatype Capability = LifecycleCap | ControlPlaneCap | LogsCap | WorkflowsCap | StateCap | SecretRevealCap

text \<open>Flags that may be missing read as false where the navigation asks for them.\<close>

record Capabilities =
  ck_flags :: "Capability \<Rightarrow> bool option"
  ck_mode :: "string option"

definition FULL :: Capabilities where
  "FULL = \<lparr>ck_flags = (\<lambda>_. Some True), ck_mode = Some []\<rparr>"

definition getCapabilities :: "Capabilities option \<Rightarrow> Capabilities" where
  "getCapabilities injected = (case injected of Some c \<Rightarrow> c | None \<Rightarrow> FULL)"

definition NAV_ITEMS :: "(string \<times> string \<times> Capability option) list" where
  "NAV_ITEMS =
     [(''Applications'', ''/'', None), (''Components'', ''/components'', None), (''Workflows'', ''/workflows'', Some WorkflowsCap),
      (''State'', ''/state'', Some StateCap), (''Actors'', ''/actors'', None), (''Subscriptions'', ''/subscriptions'', None),
      (''Resiliency'', ''/resiliency'', None), (''HTTP Endpoints'', ''/http-endpoints'', None),
      (''Configurations'', ''/configurations'', None), (''Control Plane'', ''/control-plane'', Some ControlPlaneCap),
      (''Logs'', ''/logs'', Some LogsCap)]"

definition navItems :: "Capabilities \<Rightarrow> (string \<times> string \<times> Capability option) list" where
  "navItems caps = filter (\<lambda>(_, _, cap). case cap of None \<Rightarrow> True | Some c \<Rightarrow> ck_flags caps c = Some True) NAV_ITEMS"

text \<open>The telemetry view of a route: that of its innermost match that names one.\<close>

definition rumView :: "string option list \<Rightarrow> string option" where
  "rumView handles = Option.bind (List.find filled (rev handles)) (\<lambda>x. x)"

definition appClass :: "bool \<Rightarrow> bool \<Rightarrow> bool \<Rightarrow> string" where
  "appClass collapsed hasNew updateAvailable =
     joinWith '' '' (filter (\<lambda>s. s \<noteq> [])
       [''app'', if collapsed then ''collapsed'' else [], if hasNew then ''has-new'' else [],
        if updateAvailable then ''update-available'' else []])"

definition getInitialCollapsed :: "BrowserStorage \<Rightarrow> bool" where
  "getInitialCollapsed st \<longleftrightarrow> safeGet COLLAPSED_KEY st = Some ''true''"

lemma collapsed_remembered:
  "\<not> bs_off (sd_storage s) \<Longrightarrow> \<not> bs_full (sd_storage s) \<Longrightarrow>
   getInitialCollapsed (sd_storage (toggleSidebar s)) = sd_collapsed (toggleSidebar s)"
  by (simp add: getInitialCollapsed_def toggleSidebar_def safeGet_def safeSet_def boolText_def Let_def)

text \<open>\<open>fetchJSON\<close>: the error of a response that is not a success.\<close>

definition fetchError :: "string \<Rightarrow> AppResponse \<Rightarrow> string option" where
  "fetchError path r =
     (if responseOk r then None
      else Some (''API error '' @ showNat (ar_status r) @ (case ar_error r of Some e \<Rightarrow> '': '' @ e | None \<Rightarrow> []) @ '' for '' @ path))"

lemma includes_append: "includesText (a @ s @ b) s"
proof (induction a)
  case Nil
  have "startsWith (s @ b) s" by (auto simp: startsWith_append)
  then show ?case by (cases "s @ b") auto
qed simp

text \<open>Callers look for the status in the message; it is there whatever the server says.\<close>

lemma status_in_error: "fetchError path r = Some msg \<Longrightarrow> includesText msg (showNat (ar_status r))"
  unfolding fetchError_def using includes_append[of "''API error ''" "showNat (ar_status r)"]
  by (auto split: if_splits)

section \<open>Toasts\<close>

record Toast =
  to_msg :: "string option"
  to_timer :: "int option"

definition TOAST_MS :: int where "TOAST_MS = 1400"

definition toastShow :: "string \<Rightarrow> int \<Rightarrow> Toast \<Rightarrow> Toast" where
  "toastShow s now t = \<lparr>to_msg = Some s, to_timer = Some (now + TOAST_MS)\<rparr>"

definition toastAdvance :: "int \<Rightarrow> Toast \<Rightarrow> Toast" where
  "toastAdvance now t =
     (case to_timer t of
        Some expiry \<Rightarrow> if expiry \<le> now then \<lparr>to_msg = None, to_timer = None\<rparr> else t
      | None \<Rightarrow> t)"

text \<open>A message replaces an earlier one and is shown for its own time, not for what was left of the other's.\<close>

lemma toast_time: "to_msg (toastAdvance later (toastShow s now t)) = (if later < now + TOAST_MS then Some s else None)"
  by (simp add: toastAdvance_def toastShow_def)

section \<open>The focus of a dialog\<close>

text \<open>
  Where the focus is: on the dialog itself, on one of its elements that can be reached by Tab, or anywhere
  else. \<open>move\<close> is what the browser does by default, with Shift or without.
\<close>

datatype Focus = OnDialog | Inside nat | Elsewhere nat

definition inDialog :: "Focus \<Rightarrow> bool" where
  "inDialog f \<longleftrightarrow> (case f of Elsewhere _ \<Rightarrow> False | _ \<Rightarrow> True)"

definition onTab :: "(bool \<Rightarrow> Focus \<Rightarrow> Focus) \<Rightarrow> nat \<Rightarrow> bool \<Rightarrow> Focus \<Rightarrow> Focus" where
  "onTab move n shift f =
     (if n = 0 then OnDialog
      else
        let escaped = \<not> inDialog f in
        if \<not> shift \<and> (f = Inside (n - 1) \<or> escaped) then Inside 0
        else if shift \<and> (f = Inside 0 \<or> escaped) then Inside (n - 1)
        else move shift f)"

text \<open>Keys that reach the handler: Escape closes, a click on the backdrop itself closes.\<close>

datatype ModalEvent = EscapeKey | TabKey bool | OtherKey | ClickBackdrop bool

record ModalState =
  mo_open :: bool
  mo_focus :: Focus
  mo_trigger :: Focus

definition openModal :: "Focus \<Rightarrow> Focus \<Rightarrow> ModalState" where
  "openModal active initial = \<lparr>mo_open = True, mo_focus = initial, mo_trigger = active\<rparr>"

definition closeModal :: "ModalState \<Rightarrow> ModalState" where
  "closeModal m = m\<lparr>mo_open := False, mo_focus := mo_trigger m\<rparr>"

fun modalStep :: "(bool \<Rightarrow> Focus \<Rightarrow> Focus) \<Rightarrow> nat \<Rightarrow> ModalEvent \<Rightarrow> ModalState \<Rightarrow> ModalState" where
  "modalStep move n e m =
     (if \<not> mo_open m then m
      else case e of
             EscapeKey \<Rightarrow> closeModal m
           | TabKey shift \<Rightarrow> m\<lparr>mo_focus := onTab move n shift (mo_focus m)\<rparr>
           | OtherKey \<Rightarrow> m
           | ClickBackdrop onBackdrop \<Rightarrow> if onBackdrop then closeModal m else m)"

declare modalStep.simps [simp del]

definition runModal :: "(bool \<Rightarrow> Focus \<Rightarrow> Focus) \<Rightarrow> nat \<Rightarrow> ModalEvent list \<Rightarrow> ModalState \<Rightarrow> ModalState" where
  "runModal move n es m = foldl (\<lambda>m e. modalStep move n e m) m es"

text \<open>What the browser documents of sequential navigation: between neighbours, and into a container from it.\<close>

definition sequential :: "(bool \<Rightarrow> Focus \<Rightarrow> Focus) \<Rightarrow> nat \<Rightarrow> bool" where
  "sequential move n \<longleftrightarrow>
     (\<forall>i. i + 1 < n \<longrightarrow> move False (Inside i) = Inside (i + 1)) \<and>
     (\<forall>i. 0 < i \<and> i < n \<longrightarrow> move True (Inside i) = Inside (i - 1)) \<and>
     (0 < n \<longrightarrow> move False OnDialog = Inside 0)"

definition tabbable :: "nat \<Rightarrow> Focus \<Rightarrow> bool" where
  "tabbable n f \<longleftrightarrow> (case f of Inside i \<Rightarrow> i < n | OnDialog \<Rightarrow> n = 0 | Elsewhere _ \<Rightarrow> False)"

lemma onTab_tabbable:
  assumes "sequential move n" "case f of Inside i \<Rightarrow> i < n | OnDialog \<Rightarrow> \<not> shift \<or> n = 0 | Elsewhere _ \<Rightarrow> True"
  shows "tabbable n (onTab move n shift f)"
  using assms by (cases f; cases shift) (auto simp: onTab_def tabbable_def inDialog_def sequential_def Let_def)

lemma tabbable_next: "sequential move n \<Longrightarrow> tabbable n f \<Longrightarrow> tabbable n (onTab move n shift f)"
  by (rule onTab_tabbable) (auto simp: tabbable_def split: Focus.splits)

lemma runModal_inv:
  assumes "sequential move n" "tabbable n (mo_focus m)"
  shows "mo_trigger (runModal move n es m) = mo_trigger m \<and>
    (mo_open (runModal move n es m) \<longrightarrow> tabbable n (mo_focus (runModal move n es m))) \<and>
    (mo_open m \<and> \<not> mo_open (runModal move n es m) \<longrightarrow> mo_focus (runModal move n es m) = mo_trigger m)"
proof (induction es rule: rev_induct)
  case Nil
  show ?case using assms(2) by (simp add: runModal_def)
next
  case (snoc e es)
  have step: "runModal move n (es @ [e]) m = modalStep move n e (runModal move n es m)" by (simp add: runModal_def)
  show ?case unfolding step using snoc.IH tabbable_next[OF assms(1)]
    by (cases e) (auto simp: modalStep.simps closeModal_def)
qed


text \<open>A browser for the witness: the dialog with two buttons follows element 0 and is followed by element 1 of the page.\<close>

definition demoMove :: "bool \<Rightarrow> Focus \<Rightarrow> Focus" where
  "demoMove shift f =
     (case f of
        Inside i \<Rightarrow> if shift then (if i = 0 then Elsewhere 0 else Inside (i - 1)) else if i = 0 then Inside 1 else Elsewhere 1
      | OnDialog \<Rightarrow> if shift then Elsewhere 0 else Inside 0
      | Elsewhere k \<Rightarrow> Elsewhere k)"


text \<open>The dialog itself has the focus when it opens, and there Shift+Tab is left to the browser, which leaves the dialog.\<close>

lemma shift_tab_escapes: "mo_focus (modalStep demoMove 2 (TabKey True) (openModal (Elsewhere 0) OnDialog)) = Elsewhere 0"
  by (simp add: modalStep.simps openModal_def onTab_def inDialog_def demoMove_def)

section \<open>The refresh control\<close>

definition INTERVAL_OPTIONS :: "(string \<times> int) list" where
  "INTERVAL_OPTIONS = [(''1s'', 1000), (''3s'', 3000), (''5s'', 5000), (''10s'', 10000), (''Off'', 0)]"

datatype RefreshLook = BackendUnreachable | RefreshOff | RefreshPaused | RefreshEvery int

text \<open>Offline wins over off, and off over paused.\<close>

definition refreshLook :: "bool \<Rightarrow> int \<Rightarrow> bool \<Rightarrow> RefreshLook" where
  "refreshLook online intervalMs paused =
     (if \<not> online then BackendUnreachable else if intervalMs = 0 then RefreshOff else if paused then RefreshPaused
      else RefreshEvery intervalMs)"

definition dotState :: "bool \<Rightarrow> int \<Rightarrow> bool \<Rightarrow> string" where
  "dotState online intervalMs paused =
     (if \<not> online then '' offline'' else if \<not> paused \<and> intervalMs \<noteq> 0 then [] else '' off'')"

text \<open>The dot beats exactly when the title says that the page is refreshed.\<close>

lemma dot_agrees: "dotState onl ms p = [] \<longleftrightarrow> (\<exists>n. refreshLook onl ms p = RefreshEvery n)"
  by (simp add: dotState_def refreshLook_def)

text \<open>Every interval that can be chosen is one that a reload accepts.\<close>

lemma intervals_valid: "\<forall>(l, ms) \<in> set INTERVAL_OPTIONS. ms \<in> set VALID_INTERVAL_MS"
  by (simp add: INTERVAL_OPTIONS_def VALID_INTERVAL_MS_def)

section \<open>The buttons of a wizard\<close>

datatype NavButton = BackButton | ContinueButton bool | FinishButton bool

definition stepNav :: "nat \<Rightarrow> nat \<Rightarrow> bool \<Rightarrow> NavButton list" where
  "stepNav activeStep stepCount canContinue =
     (if 0 < activeStep then [BackButton] else []) @
     [if int activeStep = int stepCount - 1 then FinishButton canContinue else ContinueButton canContinue]"

definition stepClass :: "nat \<Rightarrow> nat \<Rightarrow> string" where
  "stepClass activeStep i =
     ''step'' @ (if i = activeStep then '' active'' else []) @ (if i < activeStep then '' done'' else [])"

section \<open>The control plane\<close>

datatype ServiceStatus = ServiceRunning | ServiceStopped | ServiceUnknown

record PlaneService =
  sv_name :: string
  sv_status :: ServiceStatus
  sv_actionable :: bool
  sv_composeProject :: "string option"

record ControlPlaneList =
  kl_runtime :: string
  kl_available :: bool
  kl_reachable :: bool
  kl_present :: bool
  kl_services :: "PlaneService list"

datatype ControlPlaneView = PlaneLoading | NoRuntime | RuntimeDown | NoPlane "string option" | PlaneServices

definition controlPlaneView :: "bool \<Rightarrow> string option \<Rightarrow> ControlPlaneList option \<Rightarrow> ControlPlaneView" where
  "controlPlaneView isLoading mode data =
     (if isLoading then PlaneLoading
      else case data of
             None \<Rightarrow> NoRuntime
           | Some d \<Rightarrow>
               if \<not> kl_available d then NoRuntime
               else if \<not> kl_reachable d then RuntimeDown
               else if \<not> kl_present d then NoPlane mode
               else PlaneServices)"

definition noControlPlaneCopy :: "string option \<Rightarrow> string" where
  "noControlPlaneCopy mode =
     (if mode = Some ''test-containers'' then ''Control-plane detection is not available in test-containers mode yet.''
      else if mode = Some ''compose'' then ''No compose-managed placement/scheduler containers were found.''
      else ''No Dapr control plane found. Run dapr init to start it.'')"

definition initServices :: "PlaneService list \<Rightarrow> PlaneService list" where
  "initServices ss = filter (\<lambda>s. \<not> filled (sv_composeProject s)) ss"

text \<open>The projects in the order of their first service.\<close>

definition composeProjects :: "PlaneService list \<Rightarrow> string list" where
  "composeProjects ss = fold addOnce (map (\<lambda>s. the (sv_composeProject s)) (filter (\<lambda>s. filled (sv_composeProject s)) ss)) []"

definition projectServices :: "PlaneService list \<Rightarrow> string \<Rightarrow> PlaneService list" where
  "projectServices ss p = filter (\<lambda>s. sv_composeProject s = Some p) ss"

definition shownServices :: "PlaneService list \<Rightarrow> PlaneService list" where
  "shownServices ss = initServices ss @ concat (map (projectServices ss) (composeProjects ss))"

lemma set_addOnce_list: "distinct ys \<Longrightarrow> distinct (fold addOnce xs ys)"
  by (induction xs arbitrary: ys) (simp_all add: addOnce_def)

lemma mset_groups:
  assumes "distinct ps" "\<forall>s \<in> set ss. \<exists>p \<in> set ps. f s = Some p"
  shows "mset (concat (map (\<lambda>p. filter (\<lambda>s. f s = Some p) ss) ps)) = mset ss"
  using assms
proof (induction ps arbitrary: ss)
  case (Cons p ps)
  let ?r = "filter (\<lambda>s. f s \<noteq> Some p) ss"
  have same: "filter (\<lambda>s. f s = Some q) ss = filter (\<lambda>s. f s = Some q) ?r" if "q \<in> set ps" for q
    using that Cons.prems(1) by (auto intro: filter_cong)
  then have "map (\<lambda>q. filter (\<lambda>s. f s = Some q) ss) ps = map (\<lambda>q. filter (\<lambda>s. f s = Some q) ?r) ps" by (intro map_cong) auto
  moreover have "mset (concat (map (\<lambda>q. filter (\<lambda>s. f s = Some q) ?r) ps)) = mset ?r"
    by (rule Cons.IH) (use Cons.prems in auto)
  moreover have "mset ss = mset (filter (\<lambda>s. f s = Some p) ss) + mset ?r"
    using multiset_partition[of "mset ss" "\<lambda>s. f s = Some p"] by simp
  ultimately show ?case by (simp only: list.map concat.simps mset_append)
qed simp

text \<open>Every service has exactly one card, whether it belongs to a project or not.\<close>

lemma services_once: "mset (shownServices ss) = mset ss"
proof -
  let ?c = "filter (\<lambda>s. filled (sv_composeProject s)) ss"
  have p: "projectServices ss p = filter (\<lambda>s. sv_composeProject s = Some p) ?c" if "p \<noteq> []" for p
    using that by (auto simp: projectServices_def filled_def intro!: filter_cong)
  have member: "\<exists>p \<in> set (composeProjects ss). sv_composeProject s = Some p" if "s \<in> set ?c" for s
    using that by (auto simp: composeProjects_def set_addOnce filled_def split: option.splits intro!: rev_bexI)
  have nonempty: "p \<noteq> []" if "p \<in> set (composeProjects ss)" for p
    using that by (auto simp: composeProjects_def set_addOnce filled_def split: option.splits)
  have groups: "map (projectServices ss) (composeProjects ss) = map (\<lambda>p. filter (\<lambda>s. sv_composeProject s = Some p) ?c) (composeProjects ss)"
    using p nonempty by (intro map_cong) auto
  have "distinct (composeProjects ss)" by (simp add: composeProjects_def set_addOnce_list)
  then have "mset (concat (map (projectServices ss) (composeProjects ss))) = mset ?c"
    unfolding groups by (rule mset_groups) (intro ballI member)
  moreover have "mset ss = mset ?c + mset (initServices ss)"
    using multiset_partition[of "mset ss" "\<lambda>s. filled (sv_composeProject s)"] by (simp add: initServices_def)
  ultimately show ?thesis by (simp only: shownServices_def mset_append union_commute)
qed

text \<open>
  The page: a click opens the confirmation, which sends the action. The answer is not looked at, so a
  failure is not shown, and nothing is disabled while an action runs.
\<close>

record PlanePage =
  kp_services :: "PlaneService list"
  kp_confirm :: "(string \<times> AppLifecycleAction) option"
  kp_sent :: "(string \<times> AppLifecycleAction) list"

definition cardButtons :: "PlaneService \<Rightarrow> AppLifecycleAction list" where
  "cardButtons s =
     (if \<not> sv_actionable s then []
      else case sv_status s of ServiceStopped \<Rightarrow> [Start] | ServiceRunning \<Rightarrow> [Restart, Stop] | ServiceUnknown \<Rightarrow> [])"

datatype PlaneEvent = PlanePolled "PlaneService list" | PressAction PlaneService AppLifecycleAction | ConfirmAction | CancelAction

fun planeStep :: "PlaneEvent \<Rightarrow> PlanePage \<Rightarrow> PlanePage" where
  "planeStep (PlanePolled ss) p = p\<lparr>kp_services := ss\<rparr>"
| "planeStep (PressAction s act) p =
     (if s \<in> set (kp_services p) \<and> act \<in> set (cardButtons s) then p\<lparr>kp_confirm := Some (sv_name s, act)\<rparr> else p)"
| "planeStep ConfirmAction p =
     (case kp_confirm p of Some c \<Rightarrow> p\<lparr>kp_sent := kp_sent p @ [c], kp_confirm := None\<rparr> | None \<Rightarrow> p)"
| "planeStep CancelAction p = p\<lparr>kp_confirm := None\<rparr>"

definition planeRequestLine :: "string \<times> AppLifecycleAction \<Rightarrow> string \<times> string" where
  "planeRequestLine c = (''POST'', ''/controlplane/'' @ encodeURIComponent (fst c) @ ''/'' @ encodeURIComponent (actionName (snd c)))"

section \<open>Actors and subscriptions\<close>

record Actor =
  ac_appId :: string
  ac_instanceKey :: "string option"
  ac_type :: string
  ac_count :: nat
  ac_placement :: "string option"

definition actorKey :: "Actor \<Rightarrow> string" where
  "actorKey a = (case ac_instanceKey a of Some k \<Rightarrow> k | None \<Rightarrow> ac_appId a)"

definition actorStats :: "Actor list \<Rightarrow> nat \<times> nat \<times> nat" where
  "actorStats as = (sum_list (map ac_count as), card (set (map ac_type as)), card (set (map actorKey as)))"

definition isInternal :: "Actor \<Rightarrow> bool" where
  "isInternal a = includesText (toLowerCase (ac_type a)) ''dapr.internal''"

definition appIdQuery :: "string option \<Rightarrow> string" where
  "appIdQuery appId = (if filled appId then ''?appId='' @ encodeURIComponent (the appId) else [])"

record Subscription =
  sb_appId :: string
  sb_instanceKey :: "string option"
  sb_pubsubName :: string
  sb_topic :: string
  sb_rules :: "(string option \<times> string option) list option"
  sb_reachable :: "bool option"

definition subscriptionKey :: "Subscription \<Rightarrow> string" where
  "subscriptionKey s = (case sb_instanceKey s of Some k \<Rightarrow> k | None \<Rightarrow> sb_appId s)"

text \<open>The route shown in the row and the badge with the number of rules, if there are several.\<close>

definition routeCell :: "Subscription \<Rightarrow> string option \<times> nat option" where
  "routeCell s =
     (let rules = (case sb_rules s of None \<Rightarrow> [] | Some rs \<Rightarrow> rs) in
      (case rules of [] \<Rightarrow> None | (_, path) # _ \<Rightarrow> if filled path then path else None,
       if 1 < length rules then Some (length rules) else None))"

definition ruleLine :: "string option \<times> string option \<Rightarrow> string \<times> string option" where
  "ruleLine r = (if filled (fst r) then the (fst r) else ''(default)'', snd r)"

text \<open>The dialog is opened for a subscription whose sidecar is not known to be unreachable.\<close>

definition canPublish :: "Subscription \<Rightarrow> bool" where
  "canPublish s \<longleftrightarrow> sb_reachable s \<noteq> Some False"

definition publishTarget :: "Subscription \<Rightarrow> (string \<times> string \<times> string \<times> string) option" where
  "publishTarget s =
     (if \<not> canPublish s then None
      else Some (subscriptionKey s, sb_appId s, sb_pubsubName s, sb_topic s))"

end
