(* ===== verification/Spec2Isabelle.thy ===== *)
theory Spec2Isabelle
  imports EngineTheorems GameTheorems YamlEmit ResiliencyDialogs ComponentBuilder LogView WorkflowList WorkflowDetail
    StateBrowser SecretReveal RunCode Highlight Payload Settings GamePage Content Shell
begin

text \<open>
  A verification of the browser front end of the Diagrid dev dashboard (\<open>web/src\<close>, TypeScript and React).

  \<^bold>\<open>The program.\<close> The dashboard lists Dapr applications, workflows, state records, logs and resources that a
  Go server reports over HTTP, edits them through dialogs and wizards, and contains a game, \<open>pages/replay\<close>,
  built on event sourcing: the engine is a deterministic step function, the runtime records every input
  and outcome of a segment, and after a crash the segment is replayed from its history and checked
  against the recorded hashes. The theories follow that division.

  \<^bold>\<open>Language.\<close> \<open>Prelude\<close> (numbers as text, association lists that keep the insertion order of a \<open>Map\<close>, joins),
  \<open>JsNumber\<close> (doubles as rationals with \<open>rnd\<close>, rounding to 53 bits half to even, written out at each
  operation; \<open>Math\<close>), \<open>JsText\<close> (strings of code units below 256 and the methods the sources call), \<open>JsParse\<close>
  (\<open>Number\<close> of a text), \<open>JsUrl\<close> (\<open>encodeURIComponent\<close> and \<open>URLSearchParams\<close>; the locale \<open>percent_codec\<close> is
  interpreted for both) and \<open>Base64\<close> (\<open>btoa\<close>, \<open>atob\<close>).

  \<^bold>\<open>Engine\<close> (\<open>pages/replay/engine\<close>). \<open>EngineTypes\<close> has the data of \<open>types.ts\<close> and \<open>levels.ts\<close>; \<open>EngineRng\<close> the
  generator and seeds (\<open>rng.ts\<close>, \<open>seed.ts\<close>) and \<open>EngineHash\<close> the hash (\<open>hash.ts\<close>), on 32-bit words;
  \<open>EngineStep\<close> the whole tick (\<open>step.ts\<close>), whose spawn loops are partial functions; \<open>Replayer\<close> the replayer
  (\<open>replay.ts\<close>). \<open>EngineFacts\<close>, \<open>EngineIds\<close> and \<open>EngineProgress\<close> hold what one tick leaves alone, that
  entity ids are never reused, and that every tick returns. \<open>EngineTheorems\<close> states the results: a history
  replays to exactly the live state (C1, C2), a replay that succeeds certifies its history (C3), replays and
  ticks return (C4, C5), what a tick reports (C6), and pickups happen once (C7). Termination is proved up to
  tick \<open>2 ^ 48\<close>: below it the scroll position is far from where adding a pixel is lost to rounding, and it
  is more than a hundred thousand years of play.

  \<^bold>\<open>Runtime\<close> (\<open>pages/replay/runtime\<close>). \<open>RuntimeTypes\<close>, \<open>Validate\<close>, \<open>Persistence\<close>, \<open>Tape\<close>, \<open>Chaos\<close>, \<open>Montage\<close>, \<open>Rewind\<close> and
  \<open>RunCode\<close> follow the files of these names (\<open>RunCode\<close> is \<open>share.ts\<close>); \<open>Game\<close> is the class of \<open>game.ts\<close> with
  every method. Interfaces are locales: \<open>save_store\<close> (interpreted by local storage and by the game's view of
  it), \<open>source\<close> of random draws (the recorder, the tape player and the game), \<open>bounded_log\<close> (the rewind buffer).
  \<open>GameSafety\<close> says which fields each method leaves alone, \<open>Recording\<close> is the invariant that the history is the
  recording of the state. \<open>GameTheorems\<close>: recovery from a crash (C8), live play keeps the recording
  (C9, C10), retries (C12), playback touches no store (C13), the store agrees with the game (C14),
  local storage refines the abstract store (C15), montages (C16), the crash schedule
  (C17), and \<open>pick_specified\<close> for the rewind's choice; tapes (C21) and run codes (C37) are round trips. A montage
  and a replay are advanced by frames; the bounds on frames are those the game's constants give, and no
  theorem assumes that a run ends.

  \<^bold>\<open>Game page.\<close> \<open>FrameLoop\<close> is \<open>runtime/loop.ts\<close> with the interpolation and the pose the renderer draws from: however
  late frames come, each runs at most five ticks and the remainder stays below a tick, rounding
  included (C18). \<open>GamePage\<close> is \<open>Replay.tsx\<close> and \<open>HistoryPanel.tsx\<close>: the game of \<open>Game\<close> inside the effects, keys and
  promises of the page; the card of a finished run shows the execution ID of that run only, in whichever
  order the encodings settle (C11).

  \<^bold>\<open>Builders\<close>. \<open>Validation\<close> (\<open>lib/validation.ts\<close>, C24), \<open>YamlEmit\<close> (\<open>lib/yaml-emit.ts\<close>, \<open>removeEmpty_clean\<close>),
  \<open>ResiliencyBuilder\<close> and \<open>ResiliencyDialogs\<close> (\<open>pages/resiliency-builder\<close>: references never dangle, C22, C23;
  \<open>edit_renames\<close>, \<open>target_dialogs_roundtrip\<close>), \<open>ComponentBuilder\<close> (\<open>pages/component-builder\<close>, C25; \<open>switch_forgets\<close>).

  \<^bold>\<open>Pages\<close>. \<open>LogView\<close> (\<open>pages/Logs.tsx\<close>, the stream hook and the parsers it uses: C28, C29), \<open>WorkflowHistory\<close>
  (\<open>lib/eventOrder.ts\<close>, \<open>lib/pairing.ts\<close>: C27, C30), \<open>WorkflowDetail\<close> (\<open>pages/WorkflowDetail.tsx\<close>,
  \<open>lib/wallclock.ts\<close>: C38), \<open>PagedList\<close> (the locale \<open>paged_list\<close> of token paging, interpreted by both lists),
  \<open>WorkflowList\<close> (\<open>pages/Workflows.tsx\<close>: C26, C31; \<open>filters_roundtrip\<close>), \<open>StateBrowser\<close> (\<open>pages/State.tsx\<close> and the
  new-record dialog: C36), \<open>SecretReveal\<close> (\<open>hooks/useSecretReveal.ts\<close>: C32), \<open>Payload\<close> (\<open>lib/daprRef.ts\<close> and the card:
  C39), \<open>Highlight\<close> (C40) and \<open>Base64\<close> (\<open>lib/base64.ts\<close>, \<open>preview_prefix\<close>). \<open>Settings\<close> has the shell's preferences (the
  locale \<open>preference\<close>, interpreted for theme, history order, pause and interval), refreshing, the Konami handler,
  the key map of the game and the health of applications. \<open>Lifecycle\<close> is the page of an application with its start,
  stop, restart and forget requests (\<open>pages/AppDetail.tsx\<close>, \<open>hooks/useAppAction.ts\<close>): every request
  was allowed for an application the server delivered, and there are no more than confirmations (C19). \<open>Connections\<close> is the dialog and the panel of state
  stores and the publish dialog (C20), \<open>Resources\<close> the resource pages and the news (C33), \<open>Content\<close> telemetry, links
  and command lines (C35), \<open>Shell\<close> navigation, toasts, the focus of dialogs (C34) and the remaining small pages.
  A page is a record of its \<open>useState\<close> values and a step function over its handlers, effects and timers; the
  results of the query library are actions, so the theorems hold for every order in which responses, polls
  and clicks arrive.

  \<^bold>\<open>Arguments.\<close> \<open>Date.parse\<close> (outside one format it is implementation-defined), \<open>JSON.parse\<close> and
  \<open>JSON.stringify\<close> of run codes, payloads and the news already seen, the compression streams, the SHA-256 digest,
  the UTF-8 decoder, the element to which the browser itself moves the focus on Tab, the bullets that mask
  a secret, and the editable texts are arguments of the definitions that use them; what a theorem needs of
  them it states.

  \<^bold>\<open>Lemmas that record defects\<close>: \<open>removal_truncates\<close>, \<open>debounce_keeps_ticks\<close> (\<open>WorkflowList\<close>), \<open>compareEvents_circle\<close>
  (\<open>WorkflowHistory\<close>), \<open>duration_sixty\<close>, \<open>reused_id_marked\<close> (\<open>WorkflowDetail\<close>), \<open>overwrite_unconfirmed\<close>,
  \<open>overwrite_empty_value\<close> (\<open>StateBrowser\<close>), \<open>value_outlives_pane\<close> (\<open>SecretReveal\<close>), \<open>late_save_closes\<close>,
  \<open>redis_without_host\<close>, \<open>saved_twice\<close> (\<open>Connections\<close>), \<open>password_tail_shown\<close> (\<open>Resources\<close>), \<open>shift_tab_escapes\<close> (\<open>Shell\<close>).
  The theorems beside them carry the condition under which the defect does not show.

  \<^bold>\<open>Not modelled.\<close> The Go server (another program, behind HTTP); \<open>dump\<close> of js-yaml, TanStack Query, React, the
  telemetry SDK and the router (third-party); markup and styles, the cards of the game's overlay, the
  panels of resources and canvas drawing (\<open>pages/replay/render\<close> apart from the interpolation and the pose), which
  read the modelled state and change nothing; the static texts.
\<close>

end
